(* ===== verification/Schemas.thy ===== *)
theory Schemas
  imports Prelude
begin

text \<open>
  The contracts of \<open>src/rag/schemas\<close>: one record per pydantic model, one datatype per
  enumeration. \<open>AgentAnswer\<close> subclasses \<open>Answer\<close>, so its record extends
  \<open>answer\<close>. Values of \<open>dict[str, Any]\<close> are JSON values (\<open>json\<close>).
\<close>

section \<open>JSON values\<close>

datatype json =
    JNull
  | JBool bool
  | JInt int
  | JFloat real
  | JStr string
  | JList "json list"
  | JDict "(string \<times> json) list"

type_synonym json_dict = "(string \<times> json) list"

section \<open>Principals, ACL tags and chunks\<close>

record principal =
  pr_subject :: string
  pr_groups :: "string set"
  pr_tenant :: string

record acl_tags =
  acl_tenant :: string
  acl_allow_groups :: "string set"
  acl_classification :: string

record document =
  d_doc_id :: string
  d_source_uri :: string
  d_mime_type :: string
  d_checksum :: string
  d_text :: "string option"
  d_acl :: acl_tags
  d_metadata :: json_dict
  d_ingested_at :: real

record chunk =
  ch_chunk_id :: string
  ch_doc_id :: string
  ch_ordinal :: nat
  ch_text :: string
  ch_span :: "int \<times> int"
  ch_acl :: acl_tags
  ch_index_version :: string
  ch_embedding_model :: "string option"
  ch_metadata :: json_dict

datatype retriever = Dense | Lexical | Fused | Rerank

record scored_chunk =
  sc_chunk :: chunk
  sc_score :: real
  sc_rank :: nat
  sc_retriever :: retriever

record query_result =
  qr_query :: string
  qr_rewritten :: "string list"
  qr_results :: "scored_chunk list"
  qr_index_version :: string
  qr_trace_id :: string
  qr_latency_ms :: real
  qr_cache_hit :: bool

section \<open>Sources, citations and answers\<close>

datatype source_kind = Chunk_kind | Web | Graph | Tool_kind

record source =
  src_kind :: source_kind
  src_ref :: string
  src_doc_id :: string
  src_title :: string
  src_quote :: string
  src_score :: real
  src_url :: "string option"
  src_acl :: "acl_tags option"
  src_metadata :: json_dict

record citation =
  ct_chunk_id :: string
  ct_doc_id :: string
  ct_quote :: string
  ct_score :: real
  ct_kind :: source_kind
  ct_ref :: string
  ct_url :: "string option"
  ct_title :: string

record usage =
  u_prompt_tokens :: int
  u_completion_tokens :: int
  u_total_tokens :: int
  u_cost_usd :: real
  u_model :: string
  u_prompt_version :: string

definition default_usage :: usage where
  "default_usage = \<lparr>u_prompt_tokens = 0, u_completion_tokens = 0, u_total_tokens = 0,
     u_cost_usd = 0, u_model = ''echo'', u_prompt_version = ''v1''\<rparr>"

text \<open>\<open>Usage.__add__\<close>; \<open>a or b\<close> on strings keeps \<open>a\<close> unless it is empty.\<close>

definition str_or :: "string \<Rightarrow> string \<Rightarrow> string" where
  "str_or a b = (if a = [] then b else a)"

definition usage_add :: "usage \<Rightarrow> usage \<Rightarrow> usage" where
  "usage_add a b =
     \<lparr>u_prompt_tokens = u_prompt_tokens a + u_prompt_tokens b,
      u_completion_tokens = u_completion_tokens a + u_completion_tokens b,
      u_total_tokens = u_total_tokens a + u_total_tokens b,
      u_cost_usd = u_cost_usd a + u_cost_usd b,
      u_model = str_or (u_model b) (u_model a),
      u_prompt_version = str_or (u_prompt_version b) (u_prompt_version a)\<rparr>"

record answer =
  a_text :: string
  a_citations :: "citation list"
  a_refused :: bool
  a_refusal_reason :: "string option"
  a_usage :: usage
  a_trace_id :: string
  a_index_version :: string
  a_latency_ms :: real
  a_cached :: bool

section \<open>The agent's contracts\<close>

datatype stop_reason =
    ANSWERED
  | BUDGET_EXHAUSTED
  | CRITIC_GROUNDED
  | CRITIC_EXHAUSTED
  | NO_GROUNDING
  | TOOL_UNAVAILABLE
  | FALLBACK_PIPELINE
  | REFUSED
  | ERROR

definition ANSWERABLE_STOPS :: "stop_reason set" where
  "ANSWERABLE_STOPS = {ANSWERED, CRITIC_GROUNDED, CRITIC_EXHAUSTED}"

record budget =
  max_steps :: int
  max_tool_calls :: int
  max_critique_rounds :: int
  max_tokens :: int
  max_cost_usd :: real
  max_wall_clock_seconds :: real

definition clamp :: "budget \<Rightarrow> budget \<Rightarrow> budget" where
  "clamp b c =
     \<lparr>max_steps = min (max_steps b) (max_steps c),
      max_tool_calls = min (max_tool_calls b) (max_tool_calls c),
      max_critique_rounds = min (max_critique_rounds b) (max_critique_rounds c),
      max_tokens = min (max_tokens b) (max_tokens c),
      max_cost_usd = min (max_cost_usd b) (max_cost_usd c),
      max_wall_clock_seconds = min (max_wall_clock_seconds b) (max_wall_clock_seconds c)\<rparr>"

record tool_call =
  tc_id :: string
  tc_name :: string
  tc_arguments :: json_dict

record tool_result =
  tr_call_id :: string
  tr_name :: string
  tr_ok :: bool
  tr_content :: string
  tr_sources :: "source list"
  tr_error :: "string option"
  tr_latency_ms :: real

datatype step_kind = Plan | Act | Critique | Finalize | Fallback

record agent_step =
  st_index :: nat
  st_kind :: step_kind
  st_thought :: string
  st_tool_calls :: "tool_call list"
  st_tool_results :: "tool_result list"
  st_draft :: "string option"
  st_usage :: usage
  st_latency_ms :: real

record verdict =
  v_sufficient :: bool
  v_grounded :: bool
  v_reasons :: "string list"
  v_missing :: "string list"
  v_confidence :: real

record agent_trace =
  at_steps :: "agent_step list"
  at_stop_reason :: stop_reason
  at_sources :: "source list"
  at_critique_rounds :: int
  at_total_tool_calls :: int
  at_self_corrections :: nat
  at_fallback_used :: bool

record agent_answer = answer +
  aa_mode :: string
  aa_stop_reason :: stop_reason
  aa_steps_taken :: int
  aa_tool_calls :: int
  aa_tools_used :: "string list"
  aa_self_corrections :: nat
  aa_fallback_used :: bool
  aa_degraded_reason :: "string option"
  aa_critic_verdict :: "verdict option"
  aa_trace :: "agent_trace option"

section \<open>Concrete values for the examples\<close>

definition example_chunk :: "string \<Rightarrow> string \<Rightarrow> chunk" where
  "example_chunk i tenant =
     \<lparr>ch_chunk_id = i, ch_doc_id = ''d'', ch_ordinal = 0, ch_text = ''some text'', ch_span = (0, 9),
      ch_acl = \<lparr>acl_tenant = tenant, acl_allow_groups = {}, acl_classification = ''internal''\<rparr>,
      ch_index_version = ''v1'', ch_embedding_model = None, ch_metadata = []\<rparr>"

definition example_hit :: "string \<Rightarrow> string \<Rightarrow> real \<Rightarrow> nat \<Rightarrow> scored_chunk" where
  "example_hit i tenant s r =
     \<lparr>sc_chunk = example_chunk i tenant, sc_score = s, sc_rank = r, sc_retriever = Fused\<rparr>"

definition example_caller :: principal where
  "example_caller = \<lparr>pr_subject = ''u'', pr_groups = {''staff''}, pr_tenant = ''acme''\<rparr>"

lemmas example_defs = example_chunk_def example_hit_def example_caller_def

section \<open>Budgets\<close>

text \<open>\<open>b \<le> c\<close> in every dimension: no cap of \<open>b\<close> is above the one of \<open>c\<close>.\<close>

definition budget_le :: "budget \<Rightarrow> budget \<Rightarrow> bool" where
  "budget_le b c \<longleftrightarrow>
     max_steps b \<le> max_steps c \<and> max_tool_calls b \<le> max_tool_calls c
     \<and> max_critique_rounds b \<le> max_critique_rounds c \<and> max_tokens b \<le> max_tokens c
     \<and> max_cost_usd b \<le> max_cost_usd c
     \<and> max_wall_clock_seconds b \<le> max_wall_clock_seconds c"

lemma clamp_within_ceiling: "budget_le (clamp b c) c"
  by (simp add: budget_le_def clamp_def)

lemma clamp_within_request: "budget_le (clamp b c) b"
  by (simp add: budget_le_def clamp_def)

lemma clamp_greatest: "budget_le x b \<Longrightarrow> budget_le x c \<Longrightarrow> budget_le x (clamp b c)"
  by (simp add: budget_le_def clamp_def)

lemma clamp_idem: "clamp (clamp b c) c = clamp b c"
  by (simp add: clamp_def)

lemma clamp_id: "budget_le b c \<Longrightarrow> clamp b c = b"
  by (simp add: budget_le_def clamp_def min_absorb1)

end
