(* ===== verification/Acl.thy ===== *)
theory Acl
  imports Schemas
begin

text \<open>
  \<open>src/rag/security/acl.py\<close>: who may see a chunk, and the fingerprint that scopes every
  cache. The fingerprint joins the tenant and the sorted groups with the separators
  \<open>|\<close> and \<open>,\<close>, so it determines the caller's reach as long as no name contains a
  separator (\<open>clean_principal\<close>); \<open>acl_fingerprint_collision\<close> shows what happens otherwise.
\<close>

section \<open>Definitions\<close>

definition is_allowed :: "principal \<Rightarrow> acl_tags \<Rightarrow> bool" where
  "is_allowed p acl =
     (if pr_tenant p \<noteq> acl_tenant acl then False
      else if acl_allow_groups acl = {} then True
      else pr_groups p \<inter> acl_allow_groups acl \<noteq> {})"

definition acl_fingerprint :: "principal \<Rightarrow> string" where
  "acl_fingerprint p =
     pr_tenant p @ ''|'' @ py_join '','' (sorted_list_of_set (pr_groups p))"

definition fingerprint :: "acl_tags \<Rightarrow> string" where
  "fingerprint acl =
     acl_tenant acl @ ''|'' @ py_join '','' (sorted_list_of_set (acl_allow_groups acl))
       @ ''|'' @ acl_classification acl"

text \<open>
  A name is clean when it holds no separator. \<open>frozenset\<close> is finite, and a group list
  with the single empty name would print like no group at all.
\<close>

definition clean_principal :: "principal \<Rightarrow> bool" where
  "clean_principal p \<longleftrightarrow> finite (pr_groups p) \<and> [] \<notin> pr_groups p
     \<and> CHR ''|'' \<notin> set (pr_tenant p) \<and> (\<forall>g \<in> pr_groups p. CHR '','' \<notin> set g)"

definition same_reach :: "principal \<Rightarrow> principal \<Rightarrow> bool" where
  "same_reach p q \<longleftrightarrow> (\<forall>acl. is_allowed p acl = is_allowed q acl)"

section \<open>Access decisions\<close>

lemma is_allowed_iff:
  "is_allowed p acl \<longleftrightarrow> pr_tenant p = acl_tenant acl
     \<and> (acl_allow_groups acl = {} \<or> (\<exists>g. g \<in> pr_groups p \<and> g \<in> acl_allow_groups acl))"
  by (auto simp: is_allowed_def)

lemma is_allowed_tenant: "is_allowed p acl \<Longrightarrow> pr_tenant p = acl_tenant acl"
  by (simp add: is_allowed_iff)

lemma is_allowed_common_tenant:
  "is_allowed p acl \<Longrightarrow> is_allowed q acl \<Longrightarrow> pr_tenant p = pr_tenant q"
  by (simp add: is_allowed_iff)

lemma is_allowed_subject: "is_allowed (p\<lparr>pr_subject := s\<rparr>) acl = is_allowed p acl"
  by (simp add: is_allowed_def)

lemma is_allowed_mono:
  "is_allowed p acl \<Longrightarrow> pr_tenant q = pr_tenant p \<Longrightarrow> pr_groups p \<subseteq> pr_groups q \<Longrightarrow> is_allowed q acl"
  by (auto simp: is_allowed_iff)

text \<open>
  Reach is exactly tenant and groups: two principals with one reach agree on both, because
  a tag that names one group and that tenant tells them apart.
\<close>

lemma same_reach_iff:
  "same_reach p q \<longleftrightarrow> pr_tenant p = pr_tenant q \<and> pr_groups p = pr_groups q"
proof
  assume reach: "same_reach p q"
  let ?tag = "\<lambda>G. \<lparr>acl_tenant = pr_tenant p, acl_allow_groups = G, acl_classification = []\<rparr>"
  from reach have all: "is_allowed p (?tag G) = is_allowed q (?tag G)" for G
    by (simp add: same_reach_def)
  from all [of "{}"] have tenant: "pr_tenant p = pr_tenant q"
    by (simp add: is_allowed_iff)
  have "g \<in> pr_groups p \<longleftrightarrow> g \<in> pr_groups q" for g
    using all [of "{g}"] tenant by (simp add: is_allowed_iff)
  with tenant show "pr_tenant p = pr_tenant q \<and> pr_groups p = pr_groups q"
    by blast
next
  assume "pr_tenant p = pr_tenant q \<and> pr_groups p = pr_groups q"
  then show "same_reach p q"
    by (simp add: same_reach_def is_allowed_iff)
qed

section \<open>Fingerprints\<close>

text \<open>Splitting at the first separator is injective when the left parts hold none.\<close>

lemma append_sep_inject:
  assumes "c \<notin> set a" "c \<notin> set a'"
  shows "a @ c # b = a' @ c # b' \<longleftrightarrow> a = a' \<and> b = b'"
  using assms
proof (induction a arbitrary: a')
  case Nil
  then show ?case by (cases a') auto
next
  case (Cons x a)
  then show ?case by (cases a') auto
qed

text \<open>Joining the sorted groups loses nothing when no group is empty or holds a comma.\<close>

lemma join_groups_inject:
  assumes "finite G" "finite H" "[] \<notin> G" "[] \<notin> H"
    and "\<forall>g \<in> G. CHR '','' \<notin> set g" "\<forall>g \<in> H. CHR '','' \<notin> set g"
    and eq: "py_join '','' (sorted_list_of_set G) = py_join '','' (sorted_list_of_set H)"
  shows "G = H"
proof -
  have parts: "split_char (CHR '','') (py_join '','' (sorted_list_of_set K))
      = (if K = {} then [[]] else sorted_list_of_set K)"
    if "finite K" "\<forall>g \<in> K. CHR '','' \<notin> set g" for K
    using that by (auto simp: split_char_py_join)
  have "(if G = {} then [[]] else sorted_list_of_set G)
      = (if H = {} then [[]] else sorted_list_of_set H)"
    using parts [of G] parts [of H] assms eq by simp
  moreover have "sorted_list_of_set K \<noteq> [[]]" if "finite K" "[] \<notin> K" for K :: "string set"
    using that by (metis list.set_intros(1) set_sorted_list_of_set)
  ultimately have "sorted_list_of_set G = sorted_list_of_set H"
    using assms by (auto split: if_splits)
  with assms show ?thesis
    by (metis set_sorted_list_of_set)
qed

lemma acl_fingerprint_reach: "same_reach p q \<Longrightarrow> acl_fingerprint p = acl_fingerprint q"
  by (simp add: same_reach_iff acl_fingerprint_def)

lemma acl_fingerprint_inject:
  assumes "clean_principal p" "clean_principal q" "acl_fingerprint p = acl_fingerprint q"
  shows "pr_tenant p = pr_tenant q \<and> pr_groups p = pr_groups q"
  using assms join_groups_inject [of "pr_groups p" "pr_groups q"]
  by (auto simp: acl_fingerprint_def clean_principal_def append_sep_inject)

text \<open>
  C13: for callers whose names hold no separator, the fingerprint that scopes every cache is
  exact: two of them share it if and only if \<open>is_allowed\<close> gives them the same answer on
  every document. Sharing an entry never crosses an access boundary, and never fails to be
  shared between callers of one reach.
\<close>

theorem acl_fingerprint_exact:
  assumes "clean_principal p" "clean_principal q"
  shows "acl_fingerprint p = acl_fingerprint q \<longleftrightarrow> same_reach p q"
  using acl_fingerprint_inject [OF assms] acl_fingerprint_reach [of p q]
  unfolding same_reach_iff by blast

lemma acl_fingerprint_exact_witness:
  "let p = \<lparr>pr_subject = ''a'', pr_groups = {''hr'', ''public''}, pr_tenant = ''acme''\<rparr>;
       q = \<lparr>pr_subject = ''b'', pr_groups = {''public''}, pr_tenant = ''acme''\<rparr>
   in clean_principal p \<and> clean_principal q
      \<and> (acl_fingerprint p = acl_fingerprint q \<longleftrightarrow> same_reach p q)"
  unfolding Let_def
  by (intro conjI acl_fingerprint_exact) (simp_all add: clean_principal_def)

text \<open>
  The exactness needs the clean names. The caller of tenant \<open>a\<close> in group \<open>b|c\<close> and
  the caller of tenant \<open>a|b\<close> in group \<open>c\<close> have one fingerprint, although no document
  at all is visible to both.
\<close>

theorem acl_fingerprint_collision:
  "\<exists>p q. acl_fingerprint p = acl_fingerprint q \<and> pr_tenant p \<noteq> pr_tenant q
     \<and> (\<forall>acl. \<not> (is_allowed p acl \<and> is_allowed q acl))"
proof -
  let ?p = "\<lparr>pr_subject = ''x'', pr_groups = {''b|c''}, pr_tenant = ''a''\<rparr>"
  let ?q = "\<lparr>pr_subject = ''y'', pr_groups = {''c''}, pr_tenant = ''a|b''\<rparr>"
  have "acl_fingerprint ?p = acl_fingerprint ?q"
    by (simp add: acl_fingerprint_def)
  moreover have "pr_tenant ?p \<noteq> pr_tenant ?q"
    by simp
  moreover from this have "\<forall>acl. \<not> (is_allowed ?p acl \<and> is_allowed ?q acl)"
    by (blast dest: is_allowed_common_tenant)
  ultimately show ?thesis by blast
qed

end
