(* ===== verification/Regex.thy ===== *)
theory Regex
  imports Prelude
begin

text \<open>
  The part of Python's \<open>re\<close> that the sources use. A pattern is a value of \<open>rx\<close>; \<open>lens r s i\<close>
  lists the lengths of the matches of \<open>r\<close> in \<open>s\<close> at position \<open>i\<close> in the order in which the
  backtracking matcher of \<open>re\<close> tries them, so its head is the match \<open>re\<close> reports. Every
  repetition of the sources repeats one character class, which is what \<open>Rep\<close> does.
  \<open>rx_spans\<close> is \<open>finditer\<close>, \<open>rx_sub\<close> is \<open>sub\<close> and \<open>rx_split\<close> is \<open>split\<close>.
\<close>

section \<open>Patterns and matches\<close>

datatype rx =
    Cls "char \<Rightarrow> bool"
  | Rep bool nat "nat option" "char \<Rightarrow> bool"
  | Seq rx rx
  | Alt rx rx
  | Eol
  | Bol
  | Word_Boundary
  | Look rx
  | Behind "char \<Rightarrow> bool"

definition char_at :: "string \<Rightarrow> nat \<Rightarrow> char option" where
  "char_at s i = (if i < length s then Some (s ! i) else None)"

definition class_at :: "(char \<Rightarrow> bool) \<Rightarrow> string \<Rightarrow> nat \<Rightarrow> bool" where
  "class_at P s i = (case char_at s i of None \<Rightarrow> False | Some c \<Rightarrow> P c)"

definition class_before :: "(char \<Rightarrow> bool) \<Rightarrow> string \<Rightarrow> nat \<Rightarrow> bool" where
  "class_before P s i = (case i of 0 \<Rightarrow> False | Suc j \<Rightarrow> class_at P s j)"

definition run_length :: "(char \<Rightarrow> bool) \<Rightarrow> string \<Rightarrow> nat \<Rightarrow> nat" where
  "run_length P s i = length (takeWhile P (drop i s))"

text \<open>
  \<open>Rep greedy lo hi P\<close> is \<open>P{lo,hi}\<close>: greedy tries the longest run first, lazy the shortest.
  \<open>Bol\<close> is \<open>^\<close> under \<open>re.M\<close>; \<open>Eol\<close> is \<open>$\<close> without it, which matches at the end and before
  a newline that ends the string.
\<close>

primrec lens :: "rx \<Rightarrow> string \<Rightarrow> nat \<Rightarrow> nat list" where
  "lens (Cls P) s i = (if class_at P s i then [1] else [])"
| "lens (Rep greedy lo hi P) s i =
     (let n = (case hi of None \<Rightarrow> run_length P s i | Some h \<Rightarrow> min h (run_length P s i));
          ks = [lo ..< Suc n]
      in if greedy then rev ks else ks)"
| "lens (Seq r q) s i =
     concat (map (\<lambda>k. map (\<lambda>m. k + m) (lens q s (i + k))) (lens r s i))"
| "lens (Alt r q) s i = lens r s i @ lens q s i"
| "lens Eol s i =
     (if i = length s \<or> (Suc i = length s \<and> class_at (\<lambda>c. code c = 10) s i) then [0] else [])"
| "lens Bol s i = (if i = 0 \<or> class_before (\<lambda>c. code c = 10) s i then [0] else [])"
| "lens Word_Boundary s i =
     (if class_before py_word_char s i \<noteq> class_at py_word_char s i then [0] else [])"
| "lens (Look r) s i = (if lens r s i = [] then [] else [0])"
| "lens (Behind P) s i = (if class_before P s i then [0] else [])"

text \<open>A literal text, character by character.\<close>

fun rx_text :: "string \<Rightarrow> rx" where
  "rx_text [] = Rep True 0 (Some 0) (\<lambda>_. True)"
| "rx_text [c] = Cls (\<lambda>x. x = c)"
| "rx_text (c # d # cs) = Seq (Cls (\<lambda>x. x = c)) (rx_text (d # cs))"

section \<open>Scanning\<close>

text \<open>
  \<open>finditer\<close> from position \<open>i\<close>: the leftmost match, then on from its end. After an empty
  match the next one must advance (\<open>adv\<close>), which is how \<open>re\<close> avoids reporting it twice.
\<close>

function rx_spans :: "rx \<Rightarrow> string \<Rightarrow> bool \<Rightarrow> nat \<Rightarrow> (nat \<times> nat) list" where
  "rx_spans r s adv i =
     (if length s < i then []
      else (case (if adv then filter (\<lambda>k. k \<noteq> 0) (lens r s i) else lens r s i) of
              [] \<Rightarrow> rx_spans r s False (Suc i)
            | k # _ \<Rightarrow> (i, i + k) # rx_spans r s (k = 0) (i + k)))"
  by pat_completeness auto
termination
proof (relation "measures [\<lambda>(r, s, adv, i). Suc (length s) - i, \<lambda>(r, s, adv, i). if adv then 0 else 1]",
    goal_cases)
  case 1
  show ?case by simp
next
  case (2 r s adv i)
  then show ?case by auto
next
  case (3 r s adv i k ks)
  show ?case
  proof (cases "k = 0")
    case True
    with 3 have "\<not> adv"
      by (auto simp: filter_eq_Cons_iff)
    with True show ?thesis by simp
  next
    case False
    with 3 show ?thesis by auto
  qed
qed

declare rx_spans.simps [simp del]

definition finditer :: "rx \<Rightarrow> string \<Rightarrow> (nat \<times> nat) list" where
  "finditer r s = rx_spans r s False 0"

definition substr :: "string \<Rightarrow> nat \<Rightarrow> nat \<Rightarrow> string" where
  "substr s a b = take (b - a) (drop a s)"

fun splice :: "(string \<Rightarrow> string) \<Rightarrow> string \<Rightarrow> nat \<Rightarrow> (nat \<times> nat) list \<Rightarrow> string" where
  "splice f s i [] = drop i s"
| "splice f s i ((a, b) # ms) = substr s i a @ f (substr s a b) @ splice f s b ms"

fun between :: "string \<Rightarrow> nat \<Rightarrow> (nat \<times> nat) list \<Rightarrow> string list" where
  "between s i [] = [drop i s]"
| "between s i ((a, b) # ms) = substr s i a # between s b ms"

definition rx_sub :: "rx \<Rightarrow> (string \<Rightarrow> string) \<Rightarrow> string \<Rightarrow> string" where
  "rx_sub r f s = splice f s 0 (finditer r s)"

definition rx_split :: "rx \<Rightarrow> string \<Rightarrow> string list" where
  "rx_split r s = between s 0 (finditer r s)"

section \<open>Spans are ordered, disjoint matches\<close>

fun spans_from :: "nat \<Rightarrow> nat \<Rightarrow> (nat \<times> nat) list \<Rightarrow> bool" where
  "spans_from i n [] = (i \<le> n)"
| "spans_from i n ((a, b) # ms) = (i \<le> a \<and> a \<le> b \<and> b \<le> n \<and> spans_from b n ms)"

lemma run_length_bound: "i \<le> length s \<Longrightarrow> i + run_length P s i \<le> length s"
  using length_takeWhile_le [of P "drop i s"] by (simp add: run_length_def)

lemma class_at_bound: "class_at P s i \<Longrightarrow> i < length s"
  by (auto simp: class_at_def char_at_def split: if_splits)

lemma lens_bound: "i \<le> length s \<Longrightarrow> k \<in> set (lens r s i) \<Longrightarrow> i + k \<le> length s"
proof (induction r arbitrary: i k)
  case (Cls P)
  then show ?case by (auto dest: class_at_bound split: if_splits)
next
  case (Rep greedy lo hi P)
  then show ?case
    using run_length_bound [of i s P]
    by (cases greedy) (auto simp: Let_def split: option.splits)
next
  case (Seq r q)
  then show ?case by (fastforce simp: add.assoc [symmetric])
qed (auto split: if_splits)

lemma rx_spans_from: "i \<le> length s \<Longrightarrow> spans_from i (length s) (rx_spans r s adv i)"
proof (induction r s adv i rule: rx_spans.induct)
  case (1 r s adv i)
  let ?ks = "if adv then filter (\<lambda>k. k \<noteq> 0) (lens r s i) else lens r s i"
  show ?case
  proof (cases ?ks)
    case Nil
    have "spans_from i (length s) (rx_spans r s False (Suc i))"
    proof (cases "Suc i \<le> length s")
      case True
      with 1 Nil have "spans_from (Suc i) (length s) (rx_spans r s False (Suc i))" by auto
      then show ?thesis
        by (cases "rx_spans r s False (Suc i)") (auto intro: Suc_leD)
    next
      case False
      then show ?thesis using "1.prems" by (simp add: rx_spans.simps)
    qed
    with Nil "1.prems" show ?thesis by (subst rx_spans.simps) simp
  next
    case (Cons k ks)
    then have "k \<in> set ?ks" by simp
    then have "k \<in> set (lens r s i)" by (auto split: if_splits)
    with "1.prems" have bound: "i + k \<le> length s" by (rule lens_bound)
    with 1 Cons have "spans_from (i + k) (length s) (rx_spans r s (k = 0) (i + k))" by auto
    with Cons "1.prems" bound show ?thesis by (subst rx_spans.simps) simp
  qed
qed

lemma rx_spans_match:
  "(a, b) \<in> set (rx_spans r s adv i) \<Longrightarrow> \<exists>k \<in> set (lens r s a). b = a + k"
proof (induction r s adv i rule: rx_spans.induct)
  case (1 r s adv i)
  let ?ks = "if adv then filter (\<lambda>k. k \<noteq> 0) (lens r s i) else lens r s i"
  have inside: "\<not> length s < i"
    using "1.prems" by (subst (asm) rx_spans.simps) (auto split: if_splits)
  show ?case
  proof (cases ?ks)
    case Nil
    with "1.prems" inside have "(a, b) \<in> set (rx_spans r s False (Suc i))"
      by (subst (asm) rx_spans.simps) simp
    with 1 Nil inside show ?thesis by blast
  next
    case (Cons k ks)
    then have "k \<in> set ?ks" by simp
    then have k: "k \<in> set (lens r s i)" by (auto split: if_splits)
    from "1.prems" inside Cons have
      "(a, b) = (i, i + k) \<or> (a, b) \<in> set (rx_spans r s (k = 0) (i + k))"
      by (subst (asm) rx_spans.simps) simp
    with 1 Cons inside k show ?thesis by blast
  qed
qed

lemma finditer_spans: "spans_from 0 (length s) (finditer r s)"
  by (simp add: finditer_def rx_spans_from)

lemma finditer_match: "(a, b) \<in> set (finditer r s) \<Longrightarrow> \<exists>k \<in> set (lens r s a). b = a + k"
  unfolding finditer_def by (rule rx_spans_match)

section \<open>Substitution and splitting\<close>

lemma substr_append_drop: "i \<le> a \<Longrightarrow> substr s i a @ drop a s = drop i s"
  by (metis add_diff_inverse_nat append_take_drop_id drop_drop linorder_not_less substr_def
      add.commute)

text \<open>Replacing every match by itself changes nothing.\<close>

lemma splice_id: "spans_from i n ms \<Longrightarrow> splice (\<lambda>x. x) s i ms = drop i s"
  by (induction i n ms rule: spans_from.induct) (auto simp: substr_append_drop)

text \<open>Where all matches are empty, the pieces of a split put the string together again.\<close>

lemma concat_between:
  "spans_from i n ms \<Longrightarrow> (\<And>a b. (a, b) \<in> set ms \<Longrightarrow> a = b) \<Longrightarrow> concat (between s i ms) = drop i s"
proof (induction i n ms rule: spans_from.induct)
  case (2 i n a b ms)
  from "2.prems" have "a = b" by simp
  with 2 show ?case by (simp add: substr_append_drop)
qed simp

lemma concat_rx_split:
  assumes "\<And>i k. k \<in> set (lens r s i) \<Longrightarrow> k = 0"
  shows "concat (rx_split r s) = s"
proof -
  have "a = b" if "(a, b) \<in> set (finditer r s)" for a b
    using finditer_match [OF that] assms by auto
  then show ?thesis
    using concat_between [OF finditer_spans, of r s s] by (simp add: rx_split_def)
qed

end
