(* ===== verification/TextUtil.thy ===== *)
theory TextUtil
  imports Regex
begin

text \<open>
  \<open>src/rag/utils/text.py\<close> and the query normalisation of \<open>src/rag/cache/keys.py\<close>. The
  sources write both with \<open>re.sub(r"\s+", " ", ...)\<close>; the lemmas here reduce that to the
  list of words, which is what the two functions keep of their input.
\<close>

section \<open>Definitions\<close>

abbreviation rx_plus :: "(char \<Rightarrow> bool) \<Rightarrow> rx" where
  "rx_plus P \<equiv> Rep True (Suc 0) None P"

definition WHITESPACE :: rx where
  "WHITESPACE = rx_plus py_space"

definition BLANK_LINES :: rx where
  "BLANK_LINES = Rep True 3 None (\<lambda>c. code c = 10)"

definition normalize_whitespace :: "string \<Rightarrow> string" where
  "normalize_whitespace t = strip (rx_sub WHITESPACE (\<lambda>_. '' '') t)"

definition collapse_blank_lines :: "string \<Rightarrow> string" where
  "collapse_blank_lines t = rx_sub BLANK_LINES (\<lambda>_. [char_of (10::nat), char_of (10::nat)]) (strip t)"

definition truncate_text :: "string \<Rightarrow> int \<Rightarrow> string \<Rightarrow> string" where
  "truncate_text t limit suffix =
     (if int (length t) \<le> limit then t
      else if limit \<le> int (length suffix) then slice_to t limit
      else slice_to t (limit - int (length suffix)) @ suffix)"

definition normalize_query :: "string \<Rightarrow> string" where
  "normalize_query q = rx_sub WHITESPACE (\<lambda>_. '' '') (py_lower (strip q))"

section \<open>Substituting runs of one class\<close>

text \<open>What \<open>re.sub\<close> computes for a pattern \<open>P+\<close>, as a recursion on the text.\<close>

function squash :: "(char \<Rightarrow> bool) \<Rightarrow> string \<Rightarrow> string \<Rightarrow> string" where
  "squash P rep [] = []"
| "squash P rep (c # cs) =
     (if P c then rep @ squash P rep (dropWhile P cs) else c # squash P rep cs)"
  by pat_completeness auto
termination
  by (relation "measure (\<lambda>(P, rep, s). length s)") (auto simp: le_imp_less_Suc length_dropWhile_le)

lemma drop_run_length: "drop (i + run_length P s i) s = dropWhile P (drop i s)"
  by (metis add.commute drop_drop dropWhile_eq_drop run_length_def)

lemma run_length_pos: "class_at P s i \<Longrightarrow> 0 < run_length P s i"
  by (cases "drop i s")
     (auto simp: run_length_def class_at_def char_at_def split: if_splits
       dest: Cons_nth_drop_Suc)

lemma run_length_zero: "\<not> class_at P s i \<Longrightarrow> run_length P s i = 0"
  by (cases "drop i s")
     (auto simp: run_length_def class_at_def char_at_def split: if_splits
       dest: Cons_nth_drop_Suc)

lemma lens_plus:
  "lens (rx_plus P) s i =
     (if class_at P s i then rev [Suc 0 ..< Suc (run_length P s i)] else [])"
  by (simp add: run_length_zero Let_def del: upt_Suc)

lemma rx_spans_plus:
  assumes "i \<le> length s"
  shows "rx_spans (rx_plus P) s False i =
     (if class_at P s i
      then (i, i + run_length P s i) # rx_spans (rx_plus P) s False (i + run_length P s i)
      else rx_spans (rx_plus P) s False (Suc i))"
proof (cases "class_at P s i")
  case True
  then obtain m where m: "run_length P s i = Suc m"
    by (metis run_length_pos gr0_implies_Suc)
  have "rev [Suc 0 ..< Suc (Suc m)] = Suc m # rev [Suc 0 ..< Suc m]"
    by simp
  with True m assms show ?thesis
    by (subst rx_spans.simps) (simp add: lens_plus del: upt_Suc lens.simps(2))
next
  case False
  with assms show ?thesis
    by (subst rx_spans.simps) (simp add: lens_plus del: lens.simps(2))
qed

lemma substr_snoc:
  "j \<le> i \<Longrightarrow> i < length s \<Longrightarrow> substr s j (Suc i) = substr s j i @ [s ! i]"
  by (simp add: substr_def Suc_diff_le take_Suc_conv_app_nth)

lemma splice_plus:
  assumes "j \<le> i" "i \<le> length s"
  shows "splice (\<lambda>_. rep) s j (rx_spans (rx_plus P) s False i)
    = substr s j i @ squash P rep (drop i s)"
  using assms
proof (induction "length s - i" arbitrary: i j rule: less_induct)
  case less
  show ?case
  proof (cases "i = length s")
    case True
    then have "rx_spans (rx_plus P) s False i = []"
      by (subst rx_spans.simps)
         (simp add: lens_plus class_at_def char_at_def rx_spans.simps del: lens.simps(2))
    with True less.prems show ?thesis
      by (simp add: substr_append_drop [of j i s, symmetric])
  next
    case False
    with less.prems have i: "i < length s" by simp
    then have dropi: "drop i s = s ! i # drop (Suc i) s"
      by (simp add: Cons_nth_drop_Suc)
    show ?thesis
    proof (cases "class_at P s i")
      case True
      let ?m = "run_length P s i"
      have P: "P (s ! i)" using True i by (simp add: class_at_def char_at_def)
      have bound: "i + ?m \<le> length s" "0 < ?m"
        using run_length_bound [of i s P] less.prems run_length_pos [OF True] by auto
      have IH: "splice (\<lambda>_. rep) s (i + ?m) (rx_spans (rx_plus P) s False (i + ?m))
          = squash P rep (drop (i + ?m) s)"
        using less.hyps [of "i + ?m" "i + ?m"] bound i by (simp add: substr_def)
      have "drop (i + ?m) s = dropWhile P (drop (Suc i) s)"
        using P by (simp add: drop_run_length dropi)
      with IH True P less.prems show ?thesis
        by (simp add: rx_spans_plus dropi del: lens.simps(2))
    next
      case False
      then have "\<not> P (s ! i)" using i by (simp add: class_at_def char_at_def)
      with less.hyps [of "Suc i" j] less.prems i False show ?thesis
        by (simp add: rx_spans_plus dropi substr_snoc del: lens.simps(2))
    qed
  qed
qed

lemma rx_sub_plus: "rx_sub (rx_plus P) (\<lambda>_. rep) s = squash P rep s"
  using splice_plus [of 0 0 s rep P]
  by (simp add: rx_sub_def finditer_def substr_def)

section \<open>Words\<close>

abbreviation nonspace :: "char \<Rightarrow> bool" where
  "nonspace c \<equiv> \<not> py_space c"

lemma space_is_space [simp]: "py_space (CHR '' '')"
  by (simp add: py_space_def code_def)

lemma split_ws_Nil [simp]: "split_ws [] = []"
  by (subst split_ws.simps) (simp add: lstrip_def)

lemma split_ws_space [simp]: "py_space c \<Longrightarrow> split_ws (c # s) = split_ws s"
  by (subst (1 2) split_ws.simps) (simp add: lstrip_def)

lemma split_ws_nonspace:
  "nonspace c \<Longrightarrow>
   split_ws (c # s) = (c # takeWhile nonspace s) # split_ws (dropWhile nonspace s)"
  by (subst split_ws.simps) (simp add: lstrip_def)

lemma split_ws_neq_Nil: "nonspace c \<Longrightarrow> split_ws (c # s) \<noteq> []"
  by (simp add: split_ws_nonspace)

lemma split_ws_dropWhile_space: "split_ws (dropWhile py_space s) = split_ws s"
  by (induction s) auto

lemma words_wf: "w \<in> set (split_ws s) \<Longrightarrow> w \<noteq> [] \<and> (\<forall>c \<in> set w. nonspace c)"
proof (induction "length s" arbitrary: s rule: less_induct)
  case less
  show ?case
  proof (cases s)
    case Nil
    with less.prems show ?thesis by simp
  next
    case (Cons c cs)
    show ?thesis
    proof (cases "py_space c")
      case True
      with less.prems Cons have "w \<in> set (split_ws cs)" by simp
      then show ?thesis using less.hyps [of cs] Cons by simp
    next
      case False
      have shorter: "length (dropWhile nonspace cs) < length s"
        using Cons by (simp add: le_imp_less_Suc length_dropWhile_le)
      from less.prems Cons False
      consider "w = c # takeWhile nonspace cs" | "w \<in> set (split_ws (dropWhile nonspace cs))"
        by (auto simp: split_ws_nonspace)
      then show ?thesis
      proof cases
        case 1
        with False show ?thesis by (auto dest: set_takeWhileD)
      next
        case 2
        with shorter show ?thesis by (rule less.hyps)
      qed
    qed
  qed
qed

lemma split_ws_word:
  assumes "w \<noteq> []" "\<forall>c \<in> set w. nonspace c"
  shows "split_ws (w @ CHR '' '' # s) = w # split_ws s" and "split_ws w = [w]"
proof -
  from assms obtain c cs where w: "w = c # cs" by (cases w) auto
  with assms have c: "nonspace c" and cs: "\<forall>x \<in> set cs. nonspace x" by auto
  from cs have "takeWhile nonspace (cs @ CHR '' '' # s) = cs"
    and "dropWhile nonspace (cs @ CHR '' '' # s) = CHR '' '' # s"
    by (auto simp: takeWhile_append dropWhile_append)
  with w c show "split_ws (w @ CHR '' '' # s) = w # split_ws s"
    by (simp add: split_ws_nonspace)
  from cs have "takeWhile nonspace cs = cs" "dropWhile nonspace cs = []"
    by (simp_all only: takeWhile_eq_all_conv dropWhile_eq_Nil_conv)
  then show "split_ws w = [w]"
    by (simp only: w split_ws_nonspace [OF c] split_ws_Nil)
qed

lemma split_ws_join:
  assumes "\<forall>w \<in> set ws. w \<noteq> [] \<and> (\<forall>c \<in> set w. nonspace c)"
  shows "split_ws (py_join '' '' ws) = ws"
  using assms
  by (induction "'' ''" ws rule: py_join.induct) (auto simp: split_ws_word)

text \<open>
  A text without leading space squashes to its words, each preceded by one blank, up to
  one trailing blank.
\<close>

lemma squash_nonspace: "\<forall>c \<in> set w. nonspace c \<Longrightarrow> squash py_space rep (w @ s) = w @ squash py_space rep s"
  by (induction w) auto

lemma join_Cons: "ws \<noteq> [] \<Longrightarrow> py_join sep (w # ws) = w @ sep @ py_join sep ws"
  by (cases ws) auto

definition trail :: "string \<Rightarrow> string" where
  "trail s = (if s \<noteq> [] \<and> py_space (last s) then '' '' else [])"

lemma squash_words:
  "s = [] \<or> nonspace (hd s) \<Longrightarrow>
   squash py_space '' '' s = py_join '' '' (split_ws s) @ (if split_ws s = [] then [] else trail s)"
proof (induction s rule: length_induct)
  case (1 s)
  show ?case
  proof (cases s)
    case Nil
    then show ?thesis by simp
  next
    case (Cons c cs)
    with "1.prems" have c: "nonspace c" by simp
    let ?w = "c # takeWhile nonspace cs" and ?r = "dropWhile nonspace cs"
    let ?t = "dropWhile py_space ?r"
    have s: "s = ?w @ ?r" using Cons by simp
    have words: "split_ws s = ?w # split_ws ?t"
      using Cons c by (simp add: split_ws_nonspace split_ws_dropWhile_space)
    have w: "\<forall>x \<in> set ?w. nonspace x" using c by (auto dest: set_takeWhileD)
    show ?thesis
    proof (cases ?r)
      case Nil
      with s have "s = ?w" by (simp only: append_Nil2)
      moreover have "nonspace (last ?w)"
        by (rule w [rule_format, OF last_in_set]) simp
      then have "trail s = []"
        by (simp only: trail_def \<open>s = ?w\<close>) simp
      ultimately show ?thesis
        using words Nil squash_nonspace [OF w, of "'' ''" "[]"] by simp
    next
      case (Cons d ds)
      then have d: "py_space d"
        by (metis hd_dropWhile list.distinct(1) list.sel(1))
      have t: "?t = dropWhile py_space ds" using Cons d by simp
      have len: "length ?t < length s"
      proof -
        have "length ?t \<le> length ds" using t by (simp add: length_dropWhile_le)
        also have "\<dots> < length s"
          using arg_cong [OF s, of length] Cons by simp
        finally show ?thesis .
      qed
      have hd_t: "?t = [] \<or> nonspace (hd ?t)"
        by (metis hd_dropWhile)
      have sq: "squash py_space '' '' s = ?w @ '' '' @ squash py_space '' '' ?t"
        using squash_nonspace [OF w, of "'' ''" ?r] s Cons d t by simp
      have last_r: "last s = last ?r"
        using Cons by (subst s) simp
      show ?thesis
      proof (cases "?t = []")
        case True
        then have "\<forall>x \<in> set ?r. py_space x" by (simp only: dropWhile_eq_Nil_conv)
        moreover have "last ?r \<in> set ?r" by (rule last_in_set) (simp add: Cons)
        ultimately have "py_space (last s)" by (simp only: last_r)
        then have tr: "trail s = '' ''" using \<open>s = c # cs\<close> by (simp add: trail_def)
        show ?thesis by (simp only: sq words True tr) simp
      next
        case False
        then obtain a as where ta: "?t = a # as" by (metis list.exhaust)
        have "nonspace a" using hd_t by (simp only: ta) simp
        then have neq: "split_ws ?t \<noteq> []"
          by (simp only: ta split_ws_neq_Nil not_False_eq_True)
        have "last (takeWhile py_space ?r @ ?t) = last ?t"
          using False by (rule last_appendR)
        then have "last s = last ?t"
          by (simp only: takeWhile_dropWhile_id last_r)
        then have tr: "trail s = trail ?t" using False \<open>s = c # cs\<close> by (simp add: trail_def)
        have "squash py_space '' '' ?t = py_join '' '' (split_ws ?t) @ trail ?t"
          using "1.IH" [rule_format, OF len hd_t] by (simp only: neq if_False)
        then show ?thesis
          by (simp only: sq words tr join_Cons [OF neq]) simp
      qed
    qed
  qed
qed

section \<open>Stripping and lower case keep the words\<close>

lemma split_ws_spaces: "\<forall>c \<in> set u. py_space c \<Longrightarrow> split_ws u = []"
  by (induction u) auto

lemma split_ws_append_spaces:
  assumes u: "\<forall>c \<in> set u. py_space c"
  shows "split_ws (s @ u) = split_ws s"
proof (induction "length s" arbitrary: s rule: less_induct)
  case less
  show ?case
  proof (cases s)
    case Nil
    then show ?thesis using u by (simp add: split_ws_spaces)
  next
    case (Cons c cs)
    show ?thesis
    proof (cases "py_space c")
      case True
      then show ?thesis using less.hyps [of cs] Cons by simp
    next
      case False
      have tw: "takeWhile nonspace u = []" and dw: "dropWhile nonspace u = u"
        using u by (cases u; simp)+
      have "takeWhile nonspace (cs @ u) = takeWhile nonspace cs"
        using tw by (cases "\<forall>x \<in> set cs. nonspace x")
          (simp_all only: takeWhile_append takeWhile_eq_all_conv [THEN iffD2] if_True if_False
             if_cancel append_Nil2)
      moreover have "split_ws (dropWhile nonspace (cs @ u)) = split_ws (dropWhile nonspace cs)"
      proof (cases "\<forall>x \<in> set cs. nonspace x")
        case True
        then have "dropWhile nonspace (cs @ u) = u" "dropWhile nonspace cs = []"
          by (simp_all only: dropWhile_append2 dropWhile_eq_Nil_conv dw) (use dw True in simp)
        then show ?thesis using u by (simp only: split_ws_spaces split_ws_Nil)
      next
        case no: False
        then have "dropWhile nonspace (cs @ u) = dropWhile nonspace cs @ u"
          by (auto simp: dropWhile_append)
        moreover have "length (dropWhile nonspace cs) < length s"
          using Cons by (simp add: le_imp_less_Suc length_dropWhile_le)
        ultimately show ?thesis using less.hyps by simp
      qed
      ultimately show ?thesis using Cons False by (simp add: split_ws_nonspace)
    qed
  qed
qed

lemma rstrip_append: "\<exists>u. s = rstrip s @ u \<and> (\<forall>c \<in> set u. py_space c)"
proof -
  have "rev s = takeWhile py_space (rev s) @ dropWhile py_space (rev s)"
    by simp
  then have "s = rstrip s @ rev (takeWhile py_space (rev s))"
    unfolding rstrip_def by (metis rev_append rev_rev_ident)
  moreover have "\<forall>c \<in> set (rev (takeWhile py_space (rev s))). py_space c"
    by (auto dest: set_takeWhileD)
  ultimately show ?thesis by blast
qed

lemma split_ws_rstrip: "split_ws (rstrip s) = split_ws s"
  using rstrip_append [of s] split_ws_append_spaces by metis

lemma split_ws_strip [simp]: "split_ws (strip s) = split_ws s"
  by (simp add: strip_def split_ws_rstrip lstrip_def split_ws_dropWhile_space)

lemma rstrip_last: "rstrip s \<noteq> [] \<Longrightarrow> nonspace (last (rstrip s))"
  by (metis hd_dropWhile last_rev rev_is_Nil_conv rstrip_def)

lemma strip_last: "strip s \<noteq> [] \<Longrightarrow> nonspace (last (strip s))"
  by (simp add: strip_def rstrip_last)

lemma strip_hd: "strip s \<noteq> [] \<Longrightarrow> nonspace (hd (strip s))"
proof -
  assume ne: "strip s \<noteq> []"
  obtain u where u: "lstrip s = strip s @ u"
    using rstrip_append [of "lstrip s"] by (auto simp: strip_def)
  with ne have "hd (strip s) = hd (lstrip s)" by simp
  moreover have "lstrip s \<noteq> []" using ne u by auto
  ultimately show ?thesis by (metis hd_dropWhile lstrip_def)
qed

lemma strip_Nil_iff: "strip s = [] \<longleftrightarrow> split_ws s = []"
proof
  assume "strip s = []"
  then show "split_ws s = []" by (metis split_ws_strip split_ws_Nil)
next
  assume words: "split_ws s = []"
  show "strip s = []"
  proof (rule ccontr)
    assume ne: "strip s \<noteq> []"
    then obtain c cs where "strip s = c # cs" by (cases "strip s") auto
    with strip_hd [OF ne] words split_ws_neq_Nil [of c cs] split_ws_strip [of s] show False by simp
  qed
qed

lemma code_lower:
  "code (lower_char c) =
     (if (65 \<le> code c \<and> code c \<le> 90) \<or> (192 \<le> code c \<and> code c \<le> 222 \<and> code c \<noteq> 215)
      then code c + 32 else code c)"
  by (simp add: lower_char_def ascii_upper_def code_char_of)

lemma py_space_lower [simp]: "py_space (lower_char c) = py_space c"
  by (auto simp: py_space_def code_lower)

lemma lower_char_idem [simp]: "lower_char (lower_char c) = lower_char c"
proof -
  have "\<not> ascii_upper (lower_char c)
    \<and> \<not> (192 \<le> code (lower_char c) \<and> code (lower_char c) \<le> 222 \<and> code (lower_char c) \<noteq> 215)"
    by (auto simp: ascii_upper_def code_lower)
  then show ?thesis
    unfolding lower_char_def [of "lower_char c"] by auto
qed

lemma py_lower_idem [simp]: "py_lower (py_lower s) = py_lower s"
  by (simp add: py_lower_def)

lemma split_ws_lower: "split_ws (py_lower s) = map py_lower (split_ws s)"
proof (induction "length s" arbitrary: s rule: less_induct)
  case less
  show ?case
  proof (cases s)
    case Nil
    then show ?thesis by (simp add: py_lower_def)
  next
    case (Cons c cs)
    show ?thesis
    proof (cases "py_space c")
      case True
      then show ?thesis using less.hyps [of cs] Cons by (simp add: py_lower_def)
    next
      case False
      have "length (dropWhile nonspace cs) < length s"
        using Cons by (simp add: le_imp_less_Suc length_dropWhile_le)
      then have "split_ws (py_lower (dropWhile nonspace cs))
          = map py_lower (split_ws (dropWhile nonspace cs))"
        by (rule less.hyps)
      with Cons False show ?thesis
        by (simp add: py_lower_def split_ws_nonspace takeWhile_map dropWhile_map comp_def)
    qed
  qed
qed

section \<open>What normalisation keeps\<close>

lemma squash_stripped: "squash py_space '' '' (strip s) = py_join '' '' (split_ws s)"
proof -
  have "trail (strip s) = []"
    using strip_last [of s] by (auto simp: trail_def)
  then show ?thesis
    using squash_words [of "strip s"] strip_hd [of s] by (cases "split_ws s = []") auto
qed

lemma py_lower_strip: "py_lower (strip s) = strip (py_lower s)"
  by (simp add: py_lower_def strip_def rstrip_def lstrip_def dropWhile_map comp_def rev_map)

lemma normalize_query_words: "normalize_query q = py_join '' '' (map py_lower (split_ws q))"
  by (simp add: normalize_query_def WHITESPACE_def rx_sub_plus py_lower_strip squash_stripped
      split_ws_lower)

lemma words_lower_wf:
  "w \<in> set (map py_lower (split_ws q)) \<Longrightarrow> w \<noteq> [] \<and> (\<forall>c \<in> set w. nonspace c)"
  using words_wf [of _ q] by (fastforce simp: py_lower_def)

lemma split_ws_normalize_query: "split_ws (normalize_query q) = map py_lower (split_ws q)"
  unfolding normalize_query_words by (rule split_ws_join) (blast dest: words_lower_wf)

lemma map_py_lower_idem: "map py_lower (map py_lower ws) = map py_lower ws"
  by simp

lemma normalize_query_idem: "normalize_query (normalize_query q) = normalize_query q"
  unfolding normalize_query_words [of "normalize_query q"] split_ws_normalize_query
  by (simp add: normalize_query_words comp_def)

lemma strip_id: "nonspace (hd s) \<Longrightarrow> nonspace (last s) \<Longrightarrow> strip s = s"
proof -
  assume hd: "nonspace (hd s)" and last: "nonspace (last s)"
  have "dropWhile py_space s = s"
    using hd by (cases s) auto
  moreover have "dropWhile py_space (rev s) = rev s"
    using last by (cases "rev s") (auto simp: last_rev [symmetric])
  ultimately show ?thesis
    by (simp add: strip_def lstrip_def rstrip_def)
qed

lemma py_join_neq_Nil: "w \<noteq> [] \<Longrightarrow> py_join sep (w # ws) \<noteq> []"
  by (cases ws) auto

lemma strip_join_words:
  assumes "\<forall>w \<in> set ws. w \<noteq> [] \<and> (\<forall>c \<in> set w. nonspace c)"
  shows "strip (py_join '' '' ws) = py_join '' '' ws"
proof (cases ws)
  case (Cons w vs)
  have hd: "py_join '' '' ws \<noteq> [] \<and> nonspace (hd (py_join '' '' ws))"
    using assms Cons by (cases vs) (auto simp: hd_append)
  have "py_join '' '' vs = [] \<or> nonspace (last (py_join '' '' vs))"
    if "\<forall>w \<in> set vs. w \<noteq> [] \<and> (\<forall>c \<in> set w. nonspace c)" for vs
    using that
    by (induction "'' ''" vs rule: py_join.induct) (auto simp: last_append py_join_neq_Nil)
  with assms hd have "nonspace (last (py_join '' '' ws))" by blast
  with hd show ?thesis by (simp add: strip_id)
qed (simp add: strip_def lstrip_def rstrip_def)

text \<open>A text with leading space squashes to a blank and then its words.\<close>

lemma squash_general:
  "squash py_space '' '' s =
     (if s \<noteq> [] \<and> py_space (hd s) then '' '' else [])
     @ squash py_space '' '' (lstrip s)"
  by (cases s) (auto simp: lstrip_def)

lemma lstrip_hd: "lstrip s = [] \<or> nonspace (hd (lstrip s))"
  by (metis hd_dropWhile lstrip_def)

lemma rstrip_blanks: "\<forall>c \<in> set q. py_space c \<Longrightarrow> rstrip (s @ q) = rstrip s"
  by (simp add: rstrip_def dropWhile_append)

lemma strip_blanks:
  assumes p: "\<forall>c \<in> set p. py_space c" and q: "\<forall>c \<in> set q. py_space c"
  shows "strip (p @ s @ q) = strip s"
proof -
  have front: "lstrip (p @ s @ q) = lstrip (s @ q)"
    using p by (simp add: lstrip_def dropWhile_append)
  show ?thesis
  proof (cases "\<forall>c \<in> set s. py_space c")
    case True
    then have "lstrip (s @ q) = []" "lstrip s = []"
      using q by (auto simp: lstrip_def)
    with front show ?thesis by (simp add: strip_def)
  next
    case False
    then have "lstrip (s @ q) = lstrip s @ q"
      by (auto simp: lstrip_def dropWhile_append)
    with front q show ?thesis by (simp add: strip_def rstrip_blanks)
  qed
qed

lemma normalize_whitespace_words: "normalize_whitespace t = py_join '' '' (split_ws t)"
proof -
  let ?l = "lstrip t"
  have words: "split_ws ?l = split_ws t"
    by (simp add: lstrip_def split_ws_dropWhile_space)
  have sq: "squash py_space '' '' ?l
      = py_join '' '' (split_ws t) @ (if split_ws t = [] then [] else trail ?l)"
    using squash_words [OF lstrip_hd [of t]] words by simp
  have "squash py_space '' '' t = (if t \<noteq> [] \<and> py_space (hd t) then '' '' else [])
      @ py_join '' '' (split_ws t) @ (if split_ws t = [] then [] else trail ?l)"
    by (subst squash_general) (simp only: sq)
  then have "strip (squash py_space '' '' t) = strip (py_join '' '' (split_ws t))"
    by (simp only:) (rule strip_blanks, auto simp: trail_def)
  then show ?thesis
    by (simp add: normalize_whitespace_def WHITESPACE_def rx_sub_plus strip_join_words words_wf)
qed

lemma normalize_whitespace_idem:
  "normalize_whitespace (normalize_whitespace t) = normalize_whitespace t"
  by (simp add: normalize_whitespace_words split_ws_join words_wf)

text \<open>
  two queries share a normal form exactly when they have the same words, up to case:
  what the exact cache identifies is white space and case, and nothing else.
\<close>

theorem normalize_query_eq_iff:
  "normalize_query q = normalize_query r
     \<longleftrightarrow> map py_lower (split_ws q) = map py_lower (split_ws r)"
  by (metis normalize_query_words split_ws_normalize_query)

lemma length_truncate_text: "0 \<le> limit \<Longrightarrow> int (length (truncate_text t limit suffix)) \<le> limit"
  by (auto simp: truncate_text_def slice_to_def)

end
