(* ===== verification/Json.thy ===== *)
theory Json
  imports Schemas
begin

text \<open>
  \<open>json.dumps(payload, sort_keys=True, separators=(",", ":"))\<close>, which builds the text the
  cache keys hash (\<open>src/rag/cache/keys.py\<close>, \<open>src/rag/agent/tools/cache.py\<close>), and
  \<open>sha256_hex\<close> of \<open>src/rag/utils/hashing.py\<close>. The main fact is \<open>json_dumps_inject\<close>: two
  payloads have one text only when they are the same up to the order of their keys. The
  text of a float (\<open>repr\<close>) is the parameter \<open>frepr\<close>.
\<close>

section \<open>Printing\<close>

definition hex_digit :: "nat \<Rightarrow> char" where
  "hex_digit n = char_of (if n < 10 then 48 + n else 87 + n)"

definition esc_char :: "char \<Rightarrow> string" where
  "esc_char c =
     (let n = code c; bs = CHR 0x5C in
      if n = 34 \<or> n = 92 then [bs, c]
      else if n = 10 then [bs, CHR ''n'']
      else if n = 13 then [bs, CHR ''r'']
      else if n = 9 then [bs, CHR ''t'']
      else if n = 12 then [bs, CHR ''f'']
      else if n = 8 then [bs, CHR ''b'']
      else if 32 \<le> n \<and> n \<le> 126 then [c]
      else [bs, CHR ''u'', CHR ''0'', CHR ''0'', hex_digit (n div 16), hex_digit (n mod 16)])"

definition quote :: char where
  "quote = CHR 0x22"

definition json_string :: "string \<Rightarrow> string" where
  "json_string s = quote # concat (map esc_char s) @ [quote]"

text \<open>\<open>sort_keys\<close> sorts the members of every object by their key.\<close>

primrec json_norm :: "json \<Rightarrow> json" where
  "json_norm JNull = JNull"
| "json_norm (JBool b) = JBool b"
| "json_norm (JInt i) = JInt i"
| "json_norm (JFloat x) = JFloat x"
| "json_norm (JStr s) = JStr s"
| "json_norm (JList js) = JList (map json_norm js)"
| "json_norm (JDict kvs) = JDict (sort_key fst (map (map_prod id json_norm) kvs))"

primrec json_text :: "(real \<Rightarrow> string) \<Rightarrow> json \<Rightarrow> string" where
  "json_text frepr JNull = ''null''"
| "json_text frepr (JBool b) = (if b then ''true'' else ''false'')"
| "json_text frepr (JInt i) = show_int i"
| "json_text frepr (JFloat x) = frepr x"
| "json_text frepr (JStr s) = json_string s"
| "json_text frepr (JList js) = ''['' @ py_join '','' (map (json_text frepr) js) @ '']''"
| "json_text frepr (JDict kvs) =
     ''{'' @ py_join '','' (map (\<lambda>kv. json_string (fst kv) @ '':'' @ snd kv)
                               (map (map_prod id (json_text frepr)) kvs)) @ ''}''"

definition json_dumps :: "(real \<Rightarrow> string) \<Rightarrow> json \<Rightarrow> string" where
  "json_dumps frepr j = json_text frepr (json_norm j)"

primrec json_floats :: "json \<Rightarrow> real set" where
  "json_floats JNull = {}"
| "json_floats (JBool b) = {}"
| "json_floats (JInt i) = {}"
| "json_floats (JFloat x) = {x}"
| "json_floats (JStr s) = {}"
| "json_floats (JList js) = \<Union> (set (map json_floats js))"
| "json_floats (JDict kvs) = \<Union> (set (map snd (map (map_prod id json_floats) kvs)))"

text \<open>
  What the code relies on about \<open>float.__repr__\<close>: on the floats concerned it is injective
  (it round-trips), and it prints number characters, with a point or an exponent.
\<close>

definition num_char :: "char \<Rightarrow> bool" where
  "num_char c \<longleftrightarrow> py_digit c \<or> c \<in> set ''+-.e''"

definition float_text :: "(real \<Rightarrow> string) \<Rightarrow> real set \<Rightarrow> bool" where
  "float_text frepr F \<longleftrightarrow> inj_on frepr F
     \<and> (\<forall>x \<in> F. frepr x \<noteq> [] \<and> (\<forall>c \<in> set (frepr x). num_char c)
          \<and> (CHR ''.'' \<in> set (frepr x) \<or> CHR ''e'' \<in> set (frepr x)))"

text \<open>\<open>sha256_hex(*parts)\<close>: every part is followed by a zero byte; \<open>sha\<close> is SHA-256 in hex.\<close>

definition sha256_hex :: "(string \<Rightarrow> string) \<Rightarrow> string list \<Rightarrow> string" where
  "sha256_hex sha parts = sha (concat (map (\<lambda>p. p @ [char_of (0::nat)]) parts))"

definition short_id :: "(string \<Rightarrow> string) \<Rightarrow> string list \<Rightarrow> int \<Rightarrow> string" where
  "short_id sha parts n = slice_to (sha256_hex sha parts) n"

section \<open>Characters and numbers read back\<close>

lemma code_inject [simp]: "code c = code d \<longleftrightarrow> c = d"
  by (simp add: code_def)

lemma hex_digit_code: "n < 16 \<Longrightarrow> code (hex_digit n) = (if n < 10 then 48 + n else 87 + n)"
  by (simp add: hex_digit_def code_char_of)

lemma hex_digit_inject: "m < 16 \<Longrightarrow> n < 16 \<Longrightarrow> hex_digit m = hex_digit n \<longleftrightarrow> m = n"
proof
  assume "m < 16" "n < 16" "hex_digit m = hex_digit n"
  then have "code (hex_digit m) = code (hex_digit n)" by simp
  with \<open>m < 16\<close> \<open>n < 16\<close> show "m = n"
    by (auto simp: hex_digit_code split: if_splits)
qed simp

text \<open>Reading an escape back, which shows that escapes are prefix-free.\<close>

definition unhex :: "char \<Rightarrow> nat" where
  "unhex c = (if code c < 58 then code c - 48 else code c - 87)"

definition unesc :: "string \<Rightarrow> char \<times> string" where
  "unesc s =
     (if code (hd s) \<noteq> 92 then (hd s, tl s)
      else let n = code (hd (tl s)); r = tl (tl s) in
        if n = 117 then (char_of (16 * unhex (hd (drop 2 r)) + unhex (hd (drop 3 r))), drop 4 r)
        else (char_of (if n = 110 then 10 else if n = 114 then 13 else if n = 116 then 9
                       else if n = 102 then 12 else if n = 98 then 8 else n), r))"

lemma char_of_code: "char_of (code c) = c"
  by (simp add: code_def)

lemma unhex_digit: "n < 16 \<Longrightarrow> unhex (hex_digit n) = n"
  by (simp add: unhex_def hex_digit_code)

lemma unesc_char: "unesc (esc_char c @ x) = (c, x)"
proof -
  have lits: "code (CHR ''n'') = 110" "code (CHR ''r'') = 114" "code (CHR ''t'') = 116"
    "code (CHR ''f'') = 102" "code (CHR ''b'') = 98" "code (CHR ''u'') = 117"
    by (simp_all add: code_def)
  have bs: "code CHR 0x5C = 92"
    by (simp add: code_def)
  have hex: "unhex (hex_digit (code c div 16)) = code c div 16"
      "unhex (hex_digit (code c mod 16)) = code c mod 16"
    using code_less [of c] by (simp_all add: unhex_digit)
  have inv: "char_of n = c" if "code c = n" for n
    using that char_of_code by blast
  consider "code c = 34 \<or> code c = 92" | "code c = 10" | "code c = 13" | "code c = 9"
    | "code c = 12" | "code c = 8"
    | "code c \<notin> {34, 92, 10, 13, 9, 12, 8}" "32 \<le> code c \<and> code c \<le> 126"
    | "code c \<notin> {34, 92, 10, 13, 9, 12, 8}" "\<not> (32 \<le> code c \<and> code c \<le> 126)"
    by blast
  then show ?thesis
  proof cases
    case 8
    then have "esc_char c = [CHR 0x5C, CHR ''u'', CHR ''0'', CHR ''0'',
        hex_digit (code c div 16), hex_digit (code c mod 16)]"
      by (simp add: esc_char_def Let_def)
    then show ?thesis
      by (simp add: unesc_def bs lits hex char_of_code Let_def)
  qed (auto simp: esc_char_def unesc_def bs lits inv Let_def)
qed

lemma esc_char_inject: "esc_char c @ x = esc_char d @ y \<longleftrightarrow> c = d \<and> x = y"
  by (metis prod.inject unesc_char)

lemma hd_esc_char: "esc_char c \<noteq> [] \<and> hd (esc_char c) \<noteq> quote"
  by (auto simp: esc_char_def quote_def Let_def code_def)

lemma json_string_inject: "json_string s @ x = json_string t @ y \<longleftrightarrow> s = t \<and> x = y"
proof
  assume "json_string s @ x = json_string t @ y"
  then have "concat (map esc_char s) @ quote # x = concat (map esc_char t) @ quote # y"
    by (simp add: json_string_def)
  then show "s = t \<and> x = y"
  proof (induction s arbitrary: t)
    case Nil
    then show ?case
      using hd_esc_char by (cases t) (auto simp: Cons_eq_append_conv, metis list.sel(1))
  next
    case (Cons c s)
    then show ?case
    proof (cases t)
      case Nil
      with Cons.prems show ?thesis
        using hd_esc_char [of c] by (cases "esc_char c") auto
    next
      case (Cons d t')
      with Cons.prems Cons.IH [of t'] show ?thesis
        by (simp add: esc_char_inject)
    qed
  qed
qed simp

definition read_nat :: "string \<Rightarrow> nat" where
  "read_nat s = foldl (\<lambda>a c. 10 * a + (code c - 48)) 0 s"

lemma read_show_nat: "read_nat (show_nat n) = n"
proof (induction n rule: show_nat.induct)
  case (1 n)
  then show ?case
    by (cases "n < 10") (simp_all add: show_nat.simps [of n] read_nat_def code_char_of)
qed

lemma show_nat_digits: "show_nat n \<noteq> [] \<and> (\<forall>c \<in> set (show_nat n). py_digit c)"
proof (induction n rule: show_nat.induct)
  case (1 n)
  have "py_digit (char_of (48 + n mod 10))"
    by (simp add: py_digit_def code_char_of)
  moreover have "py_digit (char_of (48 + n))" if "n < 10"
    using that by (simp add: py_digit_def code_char_of)
  ultimately show ?case
    using 1 by (auto simp: show_nat.simps [of n])
qed

lemma show_nat_inject [simp]: "show_nat m = show_nat n \<longleftrightarrow> m = n"
  by (metis read_show_nat)

lemma show_int_inject [simp]: "show_int i = show_int j \<longleftrightarrow> i = j"
proof
  have minus: "''-'' @ show_nat m \<noteq> show_nat n" for m n
  proof
    assume eq: "''-'' @ show_nat m = show_nat n"
    have "CHR ''-'' \<in> set (show_nat n)"
      unfolding eq [symmetric] by simp
    then have "py_digit (CHR ''-'')"
      using show_nat_digits by blast
    then show False by (simp add: py_digit_def code_def)
  qed
  assume "show_int i = show_int j"
  then show "i = j"
    using minus [of "nat (- i)" "nat j"] minus [of "nat (- j)" "nat i"]
    by (auto simp: show_int_def split: if_splits)
qed simp

section \<open>Texts are uniquely readable\<close>

definition is_delim :: "char \<Rightarrow> bool" where
  "is_delim c \<longleftrightarrow> c \<in> set '',]}''"

definition at_delim :: "string \<Rightarrow> bool" where
  "at_delim r \<longleftrightarrow> r = [] \<or> is_delim (hd r)"

lemma token_inject:
  assumes "\<forall>c \<in> set a. P c" "\<forall>c \<in> set b. P c" "a @ r = b @ s"
    and "r = [] \<or> \<not> P (hd r)" "s = [] \<or> \<not> P (hd s)"
  shows "a = b \<and> r = s"
proof -
  have "takeWhile P (x @ t) = x" if "\<forall>c \<in> set x. P c" "t = [] \<or> \<not> P (hd t)" for x t
    using that by (induction x) (cases t, auto)+
  then have "a = b" using assms by metis
  with assms show ?thesis by simp
qed

lemma num_char_not_delim: "at_delim r \<Longrightarrow> r = [] \<or> \<not> num_char (hd r)"
  by (auto simp: at_delim_def is_delim_def num_char_def py_digit_def code_def)

lemma show_int_chars: "show_int i \<noteq> [] \<and> (\<forall>c \<in> set (show_int i). num_char c \<and> c \<notin> set ''.e'')"
proof -
  have "\<not> py_digit CHR ''.''" "\<not> py_digit CHR ''e''"
    by (simp_all add: py_digit_def code_def)
  then have "\<forall>c \<in> set (show_nat n). num_char c \<and> c \<notin> set ''.e''" for n
    using show_nat_digits [of n] by (auto simp: num_char_def)
  then show ?thesis
    using show_nat_digits by (simp add: show_int_def num_char_def)
qed

lemma py_join_Cons: "py_join sep (x # xs) = x @ (if xs = [] then [] else sep @ py_join sep xs)"
  by (cases xs) auto

lemma join_inject:
  assumes "\<forall>x \<in> set xs. \<forall>y \<in> set ys. \<forall>r s. at_delim r \<longrightarrow> at_delim s \<longrightarrow>
             pr x @ r = pr y @ s \<longrightarrow> x = y \<and> r = s"
    and "\<forall>x \<in> set xs \<union> set ys. pr x \<noteq> [] \<and> \<not> is_delim (hd (pr x))"
    and "is_delim z" "z \<noteq> CHR '',''"
    and "py_join '','' (map pr xs) @ z # r = py_join '','' (map pr ys) @ z # s"
  shows "xs = ys \<and> r = s"
  using assms
proof (induction xs arbitrary: ys)
  case Nil
  show ?case
  proof (cases ys)
    case (Cons y ys')
    with Nil.prems(2) have "pr y \<noteq> []" "\<not> is_delim (hd (pr y))" by auto
    with Nil.prems(3,5) Cons show ?thesis
      by (cases "pr y") (auto simp: py_join_Cons)
  qed (use Nil in auto)
next
  case (Cons x xs)
  show ?case
  proof (cases ys)
    case Nil
    from Cons.prems(2) have "pr x \<noteq> []" "\<not> is_delim (hd (pr x))" by auto
    with Cons.prems(3,5) Nil show ?thesis
      by (cases "pr x") (auto simp: py_join_Cons)
  next
    case ys: (Cons y ys')
    let ?rest = "\<lambda>xs r. if xs = [] then z # r else CHR '','' # py_join '','' (map pr xs) @ z # r"
    have delim: "at_delim (?rest ws t)" for ws t
      using Cons.prems(3) by (simp add: at_delim_def is_delim_def)
    have "pr x @ ?rest xs r = pr y @ ?rest ys' s"
      using Cons.prems(5) ys by (auto simp: py_join_Cons split: if_splits)
    moreover have "pr x @ r' = pr y @ s' \<longrightarrow> x = y \<and> r' = s'" if "at_delim r'" "at_delim s'" for r' s'
      using Cons.prems(1) ys that by simp
    ultimately have "x = y" and rest: "?rest xs r = ?rest ys' s"
      using delim by blast+
    show ?thesis
    proof (cases "xs = [] \<or> ys' = []")
      case True
      with rest Cons.prems(4) show ?thesis
        using \<open>x = y\<close> ys by (auto split: if_splits)
    next
      case False
      then have "py_join '','' (map pr xs) @ z # r = py_join '','' (map pr ys') @ z # s"
        using rest by simp
      with Cons.IH [of ys'] Cons.prems ys \<open>x = y\<close> show ?thesis by simp
    qed
  qed
qed

text \<open>The first character of a text tells which kind of value follows.\<close>

definition head_tag :: "char \<Rightarrow> nat" where
  "head_tag c = (if c = CHR ''n'' then 0 else if c = CHR ''t'' then 1 else if c = CHR ''f'' then 2
     else if num_char c then 3 else if c = quote then 4 else if c = CHR ''['' then 5 else 6)"

primrec json_tag :: "json \<Rightarrow> nat" where
  "json_tag JNull = 0"
| "json_tag (JBool b) = (if b then 1 else 2)"
| "json_tag (JInt i) = 3"
| "json_tag (JFloat x) = 3"
| "json_tag (JStr s) = 4"
| "json_tag (JList js) = 5"
| "json_tag (JDict kvs) = 6"

lemma json_head:
  assumes "float_text frepr F" "json_floats j \<subseteq> F"
  shows "json_text frepr j \<noteq> [] \<and> \<not> is_delim (hd (json_text frepr j))
     \<and> head_tag (hd (json_text frepr j)) = json_tag j"
proof -
  have num: "head_tag c = 3 \<and> \<not> is_delim c" if "num_char c" for c
    using that by (auto simp: head_tag_def is_delim_def num_char_def py_digit_def code_def)
  show ?thesis
  proof (cases j)
    case (JInt i)
    then show ?thesis
      using show_int_chars [of i] num by simp
  next
    case (JFloat x)
    then show ?thesis
      using assms num by (simp add: float_text_def)
  qed (auto simp: head_tag_def is_delim_def json_string_def quote_def num_char_def py_digit_def code_def)
qed

lemma json_text_inject:
  assumes "float_text frepr F" "json_floats a \<subseteq> F" "json_floats b \<subseteq> F"
    and "at_delim r" "at_delim s" "json_text frepr a @ r = json_text frepr b @ s"
  shows "a = b \<and> r = s"
  using assms(2-)
proof (induction a arbitrary: b r s)
  case JNull
  have "json_tag b = 0"
    using json_head [OF assms(1) JNull.prems(2)] JNull.prems(5)
    by (cases "json_text frepr b") (auto simp: head_tag_def)
  with JNull show ?case by (cases b) (auto split: if_splits)
next
  case (JBool x)
  have "json_tag b = json_tag (JBool x)"
    using json_head [OF assms(1) JBool.prems(2)] json_head [OF assms(1) JBool.prems(1)] JBool.prems(5)
    by (cases "json_text frepr b") (auto split: if_splits)
  with JBool show ?case by (cases b) (auto split: if_splits)
next
  case (JInt i)
  have tag: "json_tag b = 3"
    using json_head [OF assms(1) JInt.prems(2)] json_head [OF assms(1) JInt.prems(1)] JInt.prems(5)
    by (metis append_is_Nil_conv hd_append2 json_tag.simps(3))
  then consider j where "b = JInt j" | y where "b = JFloat y"
    by (cases b) (auto split: if_splits)
  then show ?case
  proof cases
    case 1
    with JInt.prems show ?thesis
      using token_inject [of "show_int i" num_char "show_int j" r s] show_int_chars num_char_not_delim
      by simp
  next
    case 2
    with JInt.prems(2) assms(1) have y: "\<forall>c \<in> set (frepr y). num_char c"
        "CHR ''.'' \<in> set (frepr y) \<or> CHR ''e'' \<in> set (frepr y)"
      by (auto simp: float_text_def)
    have "show_int i = frepr y"
      using token_inject [of "show_int i" num_char "frepr y" r s] y(1) show_int_chars
        num_char_not_delim JInt.prems 2 by simp
    with y(2) show ?thesis using show_int_chars [of i] by auto
  qed
next
  case (JFloat x)
  have tag: "json_tag b = 3"
    using json_head [OF assms(1) JFloat.prems(2)] json_head [OF assms(1) JFloat.prems(1)] JFloat.prems(5)
    by (metis append_is_Nil_conv hd_append2 json_tag.simps(4))
  have x: "\<forall>c \<in> set (frepr x). num_char c"
      "CHR ''.'' \<in> set (frepr x) \<or> CHR ''e'' \<in> set (frepr x)"
    using JFloat.prems(1) assms(1) by (auto simp: float_text_def)
  from tag consider j where "b = JInt j" | y where "b = JFloat y"
    by (cases b) (auto split: if_splits)
  then show ?case
  proof cases
    case 1
    have "frepr x = show_int j"
      using token_inject [of "frepr x" num_char "show_int j" r s] x(1) show_int_chars
        num_char_not_delim JFloat.prems 1 by simp
    with x(2) show ?thesis using show_int_chars [of j] by auto
  next
    case 2
    with JFloat.prems(2) assms(1) have "\<forall>c \<in> set (frepr y). num_char c"
      by (auto simp: float_text_def)
    then have "frepr x = frepr y \<and> r = s"
      using token_inject [of "frepr x" num_char "frepr y" r s] x(1)
        num_char_not_delim JFloat.prems 2 by simp
    with 2 JFloat.prems assms(1) show ?thesis
      by (auto simp: float_text_def dest: inj_onD)
  qed
next
  case (JStr t)
  have "json_tag b = 4"
    using json_head [OF assms(1) JStr.prems(2)] json_head [OF assms(1) JStr.prems(1)] JStr.prems(5)
    by (metis append_is_Nil_conv hd_append2 json_tag.simps(5))
  with JStr show ?case by (cases b) (auto simp: json_string_inject split: if_splits)
next
  case (JList js)
  have "json_tag b = 5"
    using json_head [OF assms(1) JList.prems(2)] json_head [OF assms(1) JList.prems(1)] JList.prems(5)
    by (metis append_is_Nil_conv hd_append2 json_tag.simps(6))
  then obtain ks where b: "b = JList ks" by (cases b) (auto split: if_splits)
  have floats: "json_floats j \<subseteq> F" if "j \<in> set js \<union> set ks" for j
    using that JList.prems(1,2) b by auto
  have "js = ks \<and> r = s"
  proof (rule join_inject [where pr = "json_text frepr" and z = "CHR '']''"])
    show "\<forall>x \<in> set js. \<forall>y \<in> set ks. \<forall>r s. at_delim r \<longrightarrow> at_delim s \<longrightarrow>
        json_text frepr x @ r = json_text frepr y @ s \<longrightarrow> x = y \<and> r = s"
      using JList.IH floats by (meson UnCI)
    show "\<forall>x \<in> set js \<union> set ks. json_text frepr x \<noteq> [] \<and> \<not> is_delim (hd (json_text frepr x))"
      using json_head [OF assms(1)] floats by blast
  qed (use JList.prems(5) b in \<open>auto simp: is_delim_def\<close>)
  with b show ?case by simp
next
  case (JDict kvs)
  have "json_tag b = 6"
    using json_head [OF assms(1) JDict.prems(2)] json_head [OF assms(1) JDict.prems(1)] JDict.prems(5)
    by (metis append_is_Nil_conv hd_append2 json_tag.simps(7))
  then obtain mvs where b: "b = JDict mvs" by (cases b) (auto split: if_splits)
  let ?pr = "\<lambda>kv. json_string (fst kv) @ '':'' @ json_text frepr (snd kv)"
  have floats: "json_floats (snd kv) \<subseteq> F" if "kv \<in> set kvs \<union> set mvs" for kv
  proof -
    have "json_floats (JDict ps) = (\<Union>p \<in> set ps. json_floats (snd p))" for ps
      by (simp add: image_image)
    with that JDict.prems(1,2) b show ?thesis by blast
  qed
  have "kvs = mvs \<and> r = s"
  proof (rule join_inject [where pr = ?pr and z = "CHR ''}''"])
    show "\<forall>x \<in> set kvs. \<forall>y \<in> set mvs. \<forall>r s. at_delim r \<longrightarrow> at_delim s \<longrightarrow>
        ?pr x @ r = ?pr y @ s \<longrightarrow> x = y \<and> r = s"
    proof (intro ballI allI impI)
      fix x y r s
      assume xy: "x \<in> set kvs" "y \<in> set mvs" and "at_delim r" "at_delim s" "?pr x @ r = ?pr y @ s"
      then have "fst x = fst y" "json_text frepr (snd x) @ r = json_text frepr (snd y) @ s"
        by (simp_all add: json_string_inject)
      moreover have "snd x \<in> Basic_BNFs.snds x" by (cases x) auto
      ultimately have "snd x = snd y \<and> r = s"
        using JDict.IH [OF xy(1)] floats xy \<open>at_delim r\<close> \<open>at_delim s\<close> by blast
      with \<open>fst x = fst y\<close> show "x = y \<and> r = s" by (simp add: prod_eq_iff)
    qed
    show "\<forall>x \<in> set kvs \<union> set mvs. ?pr x \<noteq> [] \<and> \<not> is_delim (hd (?pr x))"
      by (simp add: json_string_def quote_def is_delim_def)
  qed (use JDict.prems(5) b in \<open>auto simp: is_delim_def comp_def\<close>)
  with b show ?case by simp
qed

lemma json_floats_norm: "json_floats (json_norm j) = json_floats j"
proof (induction j)
  case (JDict kvs)
  then have "\<forall>kv \<in> set kvs. json_floats (json_norm (snd kv)) = json_floats (snd kv)"
    by (meson snds.intros)
  then have "(\<Union>kv \<in> set kvs. json_floats (json_norm (snd kv))) = (\<Union>kv \<in> set kvs. json_floats (snd kv))"
    by (intro SUP_cong) auto
  then show ?case by (simp add: image_image)
qed simp_all

text \<open>Two payloads print alike only when they agree up to the order of the keys.\<close>

lemma json_dumps_inject:
  assumes "float_text frepr (json_floats a \<union> json_floats b)"
  shows "json_dumps frepr a = json_dumps frepr b \<longleftrightarrow> json_norm a = json_norm b"
  using json_text_inject [OF assms, of "json_norm a" "json_norm b" "[]" "[]"]
  by (auto simp: json_dumps_def json_floats_norm at_delim_def)

end
