(* ===== verification/Caches.thy ===== *)
theory Caches
  imports Acl TextUtil Json
begin

text \<open>
  \<open>src/rag/cache\<close>: the keys of the answer caches (\<open>keys.py\<close>), the in-process TTL cache
  (\<open>memory.py\<close>), the Redis cache over a client (\<open>redis.py\<close>) and the nearest-neighbour cache
  (\<open>semantic.py\<close>). The locale \<open>kv_cache\<close> is what the clients of the \<open>Cache\<close> protocol rely on:
  a value that comes out was put in under that key. \<open>MemoryCache\<close> interprets it.
\<close>

section \<open>Keys\<close>

definition scope_payload :: "principal \<Rightarrow> string \<Rightarrow> string \<Rightarrow> json_dict option \<Rightarrow> json" where
  "scope_payload p iv pv params =
     JDict [(''acl'', JStr (acl_fingerprint p)),
            (''index_version'', JStr iv),
            (''prompt_version'', JStr pv),
            (''params'', JDict (case params of None \<Rightarrow> [] | Some d \<Rightarrow> d))]"

definition cache_scope ::
    "(string \<Rightarrow> string) \<Rightarrow> (real \<Rightarrow> string) \<Rightarrow> principal \<Rightarrow> string \<Rightarrow> string \<Rightarrow> json_dict option \<Rightarrow> string" where
  "cache_scope sha frepr p iv pv params = sha (json_dumps frepr (scope_payload p iv pv params))"

definition cache_key ::
    "(string \<Rightarrow> string) \<Rightarrow> (real \<Rightarrow> string) \<Rightarrow> string \<Rightarrow> principal \<Rightarrow> string \<Rightarrow> string
     \<Rightarrow> json_dict option \<Rightarrow> string" where
  "cache_key sha frepr q p iv pv params =
     sha (cache_scope sha frepr p iv pv params @ ''|'' @ normalize_query q)"

definition agent_cache_params ::
    "string \<Rightarrow> bool \<Rightarrow> string list \<Rightarrow> json_dict \<Rightarrow> json_dict" where
  "agent_cache_params mode allow_egress tool_names budget =
     [(''mode'', JStr mode),
      (''allow_egress'', JBool allow_egress),
      (''tools'', JList (map JStr (sort tool_names))),
      (''budget'', JDict budget)]"

text \<open>
  What the code relies on about SHA-256: the two texts concerned do not collide, and a
  hexadecimal digest holds no bar and no colon.
\<close>

definition no_collision :: "(string \<Rightarrow> string) \<Rightarrow> string \<Rightarrow> string \<Rightarrow> bool" where
  "no_collision sha a b \<longleftrightarrow> (sha a = sha b \<longrightarrow> a = b)"

definition hex_digest :: "(string \<Rightarrow> string) \<Rightarrow> bool" where
  "hex_digest sha \<longleftrightarrow> (\<forall>s. CHR ''|'' \<notin> set (sha s) \<and> CHR '':'' \<notin> set (sha s))"

lemma sort_key_eq_set: "sort_key f xs = sort_key f ys \<Longrightarrow> set xs = set ys"
  by (metis set_sort)

lemma scope_payload_inject:
  assumes "json_norm (scope_payload p iv pv ps) = json_norm (scope_payload q iw pw qs)"
  shows "acl_fingerprint p = acl_fingerprint q \<and> iv = iw \<and> pv = pw
     \<and> json_norm (JDict (case ps of None \<Rightarrow> [] | Some d \<Rightarrow> d))
       = json_norm (JDict (case qs of None \<Rightarrow> [] | Some d \<Rightarrow> d))"
proof -
  let ?N = "\<lambda>ps. json_norm (JDict (case ps of None \<Rightarrow> [] | Some d \<Rightarrow> d))"
  let ?S = "\<lambda>p iv pv ps. {(''acl'', JStr (acl_fingerprint p)), (''index_version'', JStr iv),
      (''prompt_version'', JStr pv), (''params'', ?N ps)}"
  have "?S p iv pv ps = ?S q iw pw qs"
    using assms unfolding scope_payload_def json_norm.simps(7) json.inject
    by (drule_tac sort_key_eq_set) simp
  then have mem: "x \<in> ?S p iv pv ps \<Longrightarrow> x \<in> ?S q iw pw qs" for x
    by (simp only:)
  show ?thesis
    using mem [of "(''acl'', JStr (acl_fingerprint p))"] mem [of "(''index_version'', JStr iv)"]
      mem [of "(''prompt_version'', JStr pv)"] mem [of "(''params'', ?N ps)"]
    by simp
qed



text \<open>The keys of the answers never look like the keys of the agent's tool results.\<close>

lemma cache_key_not_tool:
  assumes "hex_digest sha"
  shows "\<not> startswith (cache_key sha frepr q p iv pv ps) ''tool:''"
proof
  assume "startswith (cache_key sha frepr q p iv pv ps) ''tool:''"
  then obtain r where "cache_key sha frepr q p iv pv ps = ''tool:'' @ r"
    unfolding startswith_iff by blast
  then have "CHR '':'' \<in> set (cache_key sha frepr q p iv pv ps)" by simp
  with assms show False by (simp add: hex_digest_def cache_key_def)
qed

lemma cache_key_inject:
  assumes "hex_digest sha"
    and "no_collision sha (cache_scope sha frepr p iv pv ps @ ''|'' @ normalize_query a)
           (cache_scope sha frepr q iw pw qs @ ''|'' @ normalize_query b)"
  shows "cache_key sha frepr a p iv pv ps = cache_key sha frepr b q iw pw qs
     \<longleftrightarrow> cache_scope sha frepr p iv pv ps = cache_scope sha frepr q iw pw qs
       \<and> normalize_query a = normalize_query b"
proof -
  have "CHR ''|'' \<notin> set (cache_scope sha frepr p iv pv ps)"
      "CHR ''|'' \<notin> set (cache_scope sha frepr q iw pw qs)"
    using assms(1) by (simp_all add: hex_digest_def cache_scope_def)
  with assms(2) show ?thesis
    by (auto simp: cache_key_def no_collision_def append_sep_inject)
qed

section \<open>MemoryCache\<close>

text \<open>\<open>mc_now\<close> is what \<open>time.time()\<close> returns; \<open>mc_store\<close> is \<open>_store\<close>.\<close>

record mem_cache =
  mc_store :: "(string \<times> (string \<times> real option)) list"
  mc_now :: real

definition empty_mem_cache :: "real \<Rightarrow> mem_cache" where
  "empty_mem_cache now = \<lparr>mc_store = [], mc_now = now\<rparr>"

definition memory_get :: "string \<Rightarrow> mem_cache \<Rightarrow> string option \<times> mem_cache" where
  "memory_get key c =
     (case map_of (mc_store c) key of
        None \<Rightarrow> (None, c)
      | Some (v, expires) \<Rightarrow>
          (case expires of
             None \<Rightarrow> (Some v, c)
           | Some e \<Rightarrow>
               if e < mc_now c then (None, c\<lparr>mc_store := AList.delete key (mc_store c)\<rparr>)
               else (Some v, c)))"

definition memory_set :: "string \<Rightarrow> string \<Rightarrow> int option \<Rightarrow> mem_cache \<Rightarrow> mem_cache" where
  "memory_set key v ttl c =
     (let expires = (case ttl of
                       None \<Rightarrow> None
                     | Some n \<Rightarrow> if n = 0 then None else Some (mc_now c + real_of_int n))
      in c\<lparr>mc_store := AList.update key (v, expires) (mc_store c)\<rparr>)"

definition memory_delete :: "string \<Rightarrow> mem_cache \<Rightarrow> mem_cache" where
  "memory_delete key c = c\<lparr>mc_store := AList.delete key (mc_store c)\<rparr>"

definition memory_stored :: "mem_cache \<Rightarrow> string \<Rightarrow> string \<Rightarrow> bool" where
  "memory_stored c k v \<longleftrightarrow> (\<exists>e. map_of (mc_store c) k = Some (v, e))"

text \<open>
  \<open>MemoryCache\<close> is a TTL store: a value set under a key is what a later read of that key
  returns, as long as no time to live was given (or zero, which the code treats as none) or
  it has not run out; after that the read misses. A read of another key is not affected.
\<close>

theorem memory_get_after_set:
  "fst (memory_get k' ((memory_set k v ttl c)\<lparr>mc_now := t\<rparr>)) =
     (if k' = k
      then (case ttl of
              None \<Rightarrow> Some v
            | Some n \<Rightarrow> if n = 0 \<or> t \<le> mc_now c + real_of_int n then Some v else None)
      else fst (memory_get k' (c\<lparr>mc_now := t\<rparr>)))"
  by (auto simp: memory_get_def memory_set_def Let_def split: option.splits)

lemma memory_get_after_delete:
  "fst (memory_get k' (memory_delete k c)) = (if k' = k then None else fst (memory_get k' c))"
  by (auto simp: memory_get_def memory_delete_def split: option.splits)

section \<open>The interface of a cache\<close>

locale kv_cache =
  fixes get :: "string \<Rightarrow> 'c \<Rightarrow> string option \<times> 'c"
    and put :: "string \<Rightarrow> string \<Rightarrow> int option \<Rightarrow> 'c \<Rightarrow> 'c"
    and stored :: "'c \<Rightarrow> string \<Rightarrow> string \<Rightarrow> bool"
  assumes get_stored: "get k c = (Some v, c') \<Longrightarrow> stored c k v"
    and get_shrinks: "get k c = (r, c') \<Longrightarrow> stored c' k' v \<Longrightarrow> stored c k' v"
    and set_stored: "stored (put k v ttl c) k' v' \<Longrightarrow> k' = k \<and> v' = v \<or> stored c k' v'"
begin

definition holds :: "(string \<Rightarrow> string \<Rightarrow> bool) \<Rightarrow> 'c \<Rightarrow> bool" where
  "holds P c \<longleftrightarrow> (\<forall>k v. stored c k v \<longrightarrow> P k v)"

lemma holds_get: "holds P c \<Longrightarrow> holds P (snd (get k c))"
  unfolding holds_def by (metis get_shrinks prod.collapse)

lemma holds_get_value: "holds P c \<Longrightarrow> fst (get k c) = Some v \<Longrightarrow> P k v"
  unfolding holds_def by (metis get_stored prod.collapse)

lemma holds_set: "holds P c \<Longrightarrow> P k v \<Longrightarrow> holds P (put k v ttl c)"
  unfolding holds_def using set_stored by blast

lemma holds_mono: "holds P c \<Longrightarrow> (\<And>k v. P k v \<Longrightarrow> Q k v) \<Longrightarrow> holds Q c"
  unfolding holds_def by blast

end

interpretation mem: kv_cache memory_get memory_set memory_stored
proof unfold_locales
  show "memory_stored c k v" if "memory_get k c = (Some v, c')" for k c v c'
    using that by (auto simp: memory_get_def memory_stored_def split: option.splits if_splits)
  show "memory_stored c k' v" if "memory_get k c = (r, c')" "memory_stored c' k' v" for k c r c' k' v
    using that by (auto simp: memory_get_def memory_stored_def split: option.splits if_splits)
  show "k' = k \<and> v' = v \<or> memory_stored c k' v'" if "memory_stored (memory_set k v ttl c) k' v'"
    for k v ttl c k' v'
    using that by (auto simp: memory_set_def memory_stored_def Let_def split: if_splits)
qed

section \<open>RedisCache\<close>

text \<open>
  The calls of the Redis client are parameters; each may raise. A failing client degrades to
  a miss, or to not caching, and the request goes on.
\<close>

definition redis_key :: "string \<Rightarrow> string \<Rightarrow> string" where
  "redis_key ns key = ns @ '':'' @ key"

definition redis_get ::
    "(string \<Rightarrow> 'r \<Rightarrow> string option result \<times> 'r) \<Rightarrow> string \<Rightarrow> string \<Rightarrow> 'r \<Rightarrow> string option \<times> 'r" where
  "redis_get client_get ns key r =
     (case client_get (redis_key ns key) r of
        (Inl e, r') \<Rightarrow> (None, r')
      | (Inr v, r') \<Rightarrow> (v, r'))"

definition redis_set ::
    "(string \<Rightarrow> int \<Rightarrow> string \<Rightarrow> 'r \<Rightarrow> unit result \<times> 'r) \<Rightarrow> (string \<Rightarrow> string \<Rightarrow> 'r \<Rightarrow> unit result \<times> 'r)
     \<Rightarrow> string \<Rightarrow> string \<Rightarrow> string \<Rightarrow> int option \<Rightarrow> 'r \<Rightarrow> 'r" where
  "redis_set client_setex client_set ns key v ttl r =
     snd (case ttl of
            None \<Rightarrow> client_set (redis_key ns key) v r
          | Some n \<Rightarrow> if n \<noteq> 0 then client_setex (redis_key ns key) n v r
                      else client_set (redis_key ns key) v r)"

definition redis_delete :: "(string \<Rightarrow> 'r \<Rightarrow> unit result \<times> 'r) \<Rightarrow> string \<Rightarrow> string \<Rightarrow> 'r \<Rightarrow> 'r" where
  "redis_delete client_delete ns key r = snd (client_delete (redis_key ns key) r)"

definition redis_ping :: "('r \<Rightarrow> bool result \<times> 'r) \<Rightarrow> 'r \<Rightarrow> bool \<times> 'r" where
  "redis_ping client_ping r =
     (case client_ping r of (Inl e, r') \<Rightarrow> (False, r') | (Inr b, r') \<Rightarrow> (b, r'))"

lemma redis_key_inject: "redis_key ns k = redis_key ns k' \<longleftrightarrow> k = k'"
  by (simp add: redis_key_def)

section \<open>SemanticCache\<close>

record sem_entry =
  en_query :: string
  en_vector :: "real list"
  en_value :: string

type_synonym sem_cache = "(string \<times> sem_entry list) list"

definition dot :: "real list \<Rightarrow> real list \<Rightarrow> real" where
  "dot a b = sum_list (map (\<lambda>(x, y). x * y) (zip a b))"

definition norm_or_one :: "real list \<Rightarrow> real" where
  "norm_or_one a = (let n = sqrt (sum_list (map (\<lambda>x. x * x) a)) in if n = 0 then 1 else n)"

definition cosine :: "real list \<Rightarrow> real list \<Rightarrow> real" where
  "cosine a b =
     (if length a \<noteq> length b then 0 else dot a b / (norm_or_one a * norm_or_one b))"

fun best_entry :: "real list \<Rightarrow> (real \<times> sem_entry) option \<Rightarrow> sem_entry list \<Rightarrow> (real \<times> sem_entry) option" where
  "best_entry v best [] = best"
| "best_entry v best (e # es) =
     (let score = cosine v (en_vector e) in
      best_entry v
        (case best of
           None \<Rightarrow> Some (score, e)
         | Some (s, b) \<Rightarrow> if s < score then Some (score, e) else best) es)"

definition semantic_get ::
    "(string \<Rightarrow> real list) \<Rightarrow> real \<Rightarrow> string \<Rightarrow> string \<Rightarrow> sem_cache \<Rightarrow> string option" where
  "semantic_get embed_query threshold q scope c =
     (case map_of c scope of
        None \<Rightarrow> None
      | Some entries \<Rightarrow>
          if entries = [] then None
          else (case best_entry (embed_query (normalize_query q)) None entries of
                  None \<Rightarrow> None
                | Some (s, e) \<Rightarrow> if s < threshold then None else Some (en_value e)))"

fun replace_entry :: "sem_entry \<Rightarrow> sem_entry list \<Rightarrow> sem_entry list option" where
  "replace_entry e [] = None"
| "replace_entry e (x # xs) =
     (if en_query x = en_query e
      then Some (x\<lparr>en_value := en_value e, en_vector := en_vector e\<rparr> # xs)
      else map_option (\<lambda>ys. x # ys) (replace_entry e xs))"

definition semantic_set ::
    "(string \<Rightarrow> real list) \<Rightarrow> int \<Rightarrow> string \<Rightarrow> string \<Rightarrow> string \<Rightarrow> sem_cache \<Rightarrow> sem_cache" where
  "semantic_set embed_query max_entries q v scope c =
     (let n = normalize_query q;
          e = \<lparr>en_query = n, en_vector = embed_query n, en_value = v\<rparr>;
          bucket = (case map_of c scope of None \<Rightarrow> [] | Some b \<Rightarrow> b)
      in (case replace_entry e bucket of
            Some b \<Rightarrow> AList.update scope b c
          | None \<Rightarrow>
              let b = bucket @ [e] in
              AList.update scope (if max_entries < int (length b) then tl b else b) c))"

definition semantic_clear :: "sem_cache \<Rightarrow> sem_cache" where
  "semantic_clear c = []"

definition semantic_size :: "string option \<Rightarrow> sem_cache \<Rightarrow> nat" where
  "semantic_size scope c =
     (case scope of
        None \<Rightarrow> sum_list (map (length \<circ> snd) c)
      | Some s \<Rightarrow> (case map_of c s of None \<Rightarrow> 0 | Some b \<Rightarrow> length b))"

text \<open>A history of the cache: the calls made on it since it was created.\<close>

datatype sem_call = Sem_Set string string string | Sem_Clear

fun semantic_call :: "(string \<Rightarrow> real list) \<Rightarrow> int \<Rightarrow> sem_call \<Rightarrow> sem_cache \<Rightarrow> sem_cache" where
  "semantic_call embed_query max_entries (Sem_Set q v s) c = semantic_set embed_query max_entries q v s c"
| "semantic_call embed_query max_entries Sem_Clear c = semantic_clear c"

definition semantic_run :: "(string \<Rightarrow> real list) \<Rightarrow> int \<Rightarrow> sem_call list \<Rightarrow> sem_cache" where
  "semantic_run embed_query max_entries calls =
     fold (semantic_call embed_query max_entries) calls []"

subsection \<open>The best entry\<close>

lemma best_entry_in:
  "best_entry v best es = Some (s, e) \<Longrightarrow>
     best = Some (s, e) \<or> (e \<in> set es \<and> s = cosine v (en_vector e))"
  by (induction es arbitrary: best) (fastforce simp: Let_def split: option.splits if_splits prod.splits)+

lemma best_entry_ge:
  "best_entry v best es = Some (s, e) \<Longrightarrow>
     (\<forall>x \<in> set es. cosine v (en_vector x) \<le> s) \<and> (\<forall>t b. best = Some (t, b) \<longrightarrow> t \<le> s)"
proof (induction es arbitrary: best)
  case (Cons x es)
  let ?best = "case best of None \<Rightarrow> Some (cosine v (en_vector x), x)
     | Some (s, b) \<Rightarrow> if s < cosine v (en_vector x) then Some (cosine v (en_vector x), x) else best"
  have "best_entry v ?best es = Some (s, e)"
    using Cons.prems by (simp add: Let_def)
  from Cons.IH [OF this] show ?case
    by (fastforce split: option.splits if_splits)
qed simp

lemma best_entry_None: "best_entry v best es = None \<longleftrightarrow> best = None \<and> es = []"
  by (induction es arbitrary: best) (auto simp: Let_def split: option.splits if_splits)

subsection \<open>Buckets\<close>

lemma replace_entry_queries:
  "replace_entry e b = Some b' \<Longrightarrow> map en_query b' = map en_query b"
  by (induction b arbitrary: b') (auto split: if_splits)

lemma replace_entry_None: "replace_entry e b = None \<longleftrightarrow> en_query e \<notin> en_query ` set b"
  by (induction b) auto

lemma replace_entry_set:
  "replace_entry e b = Some b' \<Longrightarrow> e \<in> set b' \<and> set b' \<subseteq> insert e (set b)"
proof (induction b arbitrary: b')
  case (Cons x b)
  have "x\<lparr>en_value := en_value e, en_vector := en_vector e\<rparr> = e" if "en_query x = en_query e"
    using that by (cases x; cases e) simp
  with Cons show ?case by (auto split: if_splits)
qed simp

definition bucket_ok :: "(string \<Rightarrow> real list) \<Rightarrow> int \<Rightarrow> (string \<Rightarrow> string \<Rightarrow> bool) \<Rightarrow> sem_entry list \<Rightarrow> bool" where
  "bucket_ok embed_query m P b \<longleftrightarrow> int (length b) \<le> m \<and> distinct (map en_query b)
     \<and> (\<forall>e \<in> set b. en_vector e = embed_query (en_query e) \<and> P (en_query e) (en_value e))"

text \<open>The bucket that \<open>semantic_set\<close> leaves behind.\<close>

definition bucket_after :: "int \<Rightarrow> sem_entry \<Rightarrow> sem_entry list \<Rightarrow> sem_entry list" where
  "bucket_after m e b =
     (case replace_entry e b of
        Some b' \<Rightarrow> b'
      | None \<Rightarrow> if m < int (length (b @ [e])) then tl (b @ [e]) else b @ [e])"

lemma bucket_after_mem: "1 \<le> m \<Longrightarrow> e \<in> set (bucket_after m e b)"
  by (cases b) (auto simp: bucket_after_def dest: replace_entry_set split: option.splits)

lemma bucket_ok_set:
  assumes "bucket_ok embed_query m P b" "0 \<le> m" "P (en_query e) (en_value e)"
    and "en_vector e = embed_query (en_query e)"
  shows "bucket_ok embed_query m P (bucket_after m e b)"
proof (cases "replace_entry e b")
  case None
  then have fresh: "en_query e \<notin> en_query ` set b"
    by (simp add: replace_entry_None)
  have all: "bucket_ok embed_query (m + 1) P (b @ [e])"
    using assms fresh by (auto simp: bucket_ok_def)
  then have "bucket_ok embed_query m P (tl (b @ [e]))"
    by (cases b) (auto simp: bucket_ok_def)
  with all None show ?thesis by (auto simp: bucket_ok_def bucket_after_def)
next
  case (Some b')
  have "length b' = length b"
    using replace_entry_queries [OF Some] by (metis length_map)
  with Some assms replace_entry_queries [OF Some] replace_entry_set [OF Some] show ?thesis
    by (auto simp: bucket_ok_def bucket_after_def)
qed

subsection \<open>Histories\<close>

definition asked :: "sem_call list \<Rightarrow> string \<Rightarrow> string \<Rightarrow> string \<Rightarrow> bool" where
  "asked calls s n v \<longleftrightarrow> (\<exists>q. Sem_Set q v s \<in> set calls \<and> n = normalize_query q)"

definition sem_inv :: "(string \<Rightarrow> real list) \<Rightarrow> int \<Rightarrow> (string \<Rightarrow> string \<Rightarrow> string \<Rightarrow> bool) \<Rightarrow> sem_cache \<Rightarrow> bool" where
  "sem_inv embed_query m P c \<longleftrightarrow> (\<forall>s b. map_of c s = Some b \<longrightarrow> bucket_ok embed_query m (P s) b)"

lemma bucket_ok_mono:
  "bucket_ok embed_query m P b \<Longrightarrow> (\<And>n v. P n v \<Longrightarrow> Q n v) \<Longrightarrow> bucket_ok embed_query m Q b"
  by (auto simp: bucket_ok_def)

lemma semantic_set_lookup:
  "map_of (semantic_set embed_query m q v s c) =
     (map_of c)(s \<mapsto> bucket_after m
        \<lparr>en_query = normalize_query q, en_vector = embed_query (normalize_query q), en_value = v\<rparr>
        (case map_of c s of None \<Rightarrow> [] | Some b \<Rightarrow> b))"
  by (auto simp: semantic_set_def bucket_after_def Let_def split: option.splits)

lemma sem_inv_call:
  assumes "sem_inv embed_query m P c" "0 \<le> m"
    and "\<And>q v s. x = Sem_Set q v s \<Longrightarrow> P s (normalize_query q) v"
  shows "sem_inv embed_query m P (semantic_call embed_query m x c)"
proof (cases x)
  case (Sem_Set q v s)
  have old: "bucket_ok embed_query m (P s) (case map_of c s of None \<Rightarrow> [] | Some b \<Rightarrow> b)"
    using assms(1,2) by (auto simp: sem_inv_def bucket_ok_def split: option.splits)
  with assms show ?thesis
    by (simp add: sem_inv_def Sem_Set semantic_set_lookup bucket_ok_set)
next
  case Sem_Clear
  then show ?thesis by (simp add: sem_inv_def semantic_clear_def)
qed

lemma sem_inv_run:
  assumes "0 \<le> m"
  shows "sem_inv embed_query m (asked calls) (semantic_run embed_query m calls)"
proof (induction calls rule: rev_induct)
  case Nil
  then show ?case by (simp add: semantic_run_def sem_inv_def)
next
  case (snoc x calls)
  have mono: "asked calls s n v \<Longrightarrow> asked (calls @ [x]) s n v" for s n v
    by (auto simp: asked_def)
  have "sem_inv embed_query m (asked (calls @ [x])) (semantic_run embed_query m calls)"
    using snoc mono unfolding sem_inv_def by (blast intro: bucket_ok_mono)
  then have "sem_inv embed_query m (asked (calls @ [x]))
      (semantic_call embed_query m x (semantic_run embed_query m calls))"
    by (rule sem_inv_call [OF _ assms]) (auto simp: asked_def)
  then show ?case by (simp add: semantic_run_def)
qed

text \<open>
  C15: a semantic hit is sound: whatever calls were made before, the value returned for a query
  in a scope was stored in that same scope, for a query whose embedding is within the
  threshold. A match never crosses the boundary
  of an ACL, an index version or a prompt version.
\<close>

theorem semantic_hit_sound:
  assumes "0 \<le> m"
    and "semantic_get embed_query threshold q scope (semantic_run embed_query m calls) = Some v"
  shows "\<exists>q'. Sem_Set q' v scope \<in> set calls
     \<and> threshold \<le> cosine (embed_query (normalize_query q)) (embed_query (normalize_query q'))"
proof -
  obtain b s e where b: "map_of (semantic_run embed_query m calls) scope = Some b"
    and e: "best_entry (embed_query (normalize_query q)) None b = Some (s, e)" "\<not> s < threshold" "v = en_value e"
    using assms(2) by (auto simp: semantic_get_def split: option.splits if_splits prod.splits)
  have ok: "bucket_ok embed_query m (asked calls scope) b"
    using sem_inv_run [OF assms(1), of embed_query calls] b by (simp add: sem_inv_def)
  have "e \<in> set b" "s = cosine (embed_query (normalize_query q)) (en_vector e)"
    using best_entry_in [OF e(1)] by auto
  moreover from this ok obtain q' where "Sem_Set q' (en_value e) scope \<in> set calls"
      "en_vector e = embed_query (normalize_query q')"
    by (auto simp: bucket_ok_def asked_def)
  ultimately show ?thesis
    using e by (intro exI [of _ q']) (simp add: not_less)
qed

lemma semantic_hit_sound_witness:
  "let embed = (\<lambda>s. [1, 0]); calls = [Sem_Set ''who'' ''me'' ''tenant-a'', Sem_Set ''who'' ''you'' ''tenant-b''] in
   \<exists>q'. Sem_Set q' ''me'' ''tenant-a'' \<in> set calls
     \<and> 95 / 100 \<le> cosine (embed (normalize_query ''who is it'')) (embed (normalize_query q'))"
  unfolding Let_def
  by (rule semantic_hit_sound [where m = 256])
     (simp_all add: semantic_run_def semantic_set_def semantic_get_def cosine_def dot_def norm_or_one_def)

text \<open>
  a bucket never grows past its cap, whatever calls were made, and holds one entry for
  each normalised query.
\<close>

theorem semantic_bucket_bound:
  assumes "0 \<le> m"
  shows "int (semantic_size (Some scope) (semantic_run embed_query m calls)) \<le> m
     \<and> (\<forall>b. map_of (semantic_run embed_query m calls) scope = Some b \<longrightarrow> distinct (map en_query b))"
proof -
  from sem_inv_run [OF assms, of embed_query calls]
  have "map_of (semantic_run embed_query m calls) scope = Some b \<Longrightarrow>
      int (length b) \<le> m \<and> distinct (map en_query b)" for b
    by (auto simp: sem_inv_def bucket_ok_def)
  with assms show ?thesis
    by (auto simp: semantic_size_def split: option.splits)
qed

lemma semantic_bucket_bound_witness:
  "let c = semantic_run (\<lambda>s. [1]) 1 [Sem_Set ''a'' ''x'' ''s'', Sem_Set ''b'' ''y'' ''s''] in
   int (semantic_size (Some ''s'') c) \<le> 1
     \<and> (\<forall>b. map_of c ''s'' = Some b \<longrightarrow> distinct (map en_query b))"
  unfolding Let_def by (rule semantic_bucket_bound) simp

subsection \<open>A repeated question hits\<close>

lemma dot_self: "dot a a = sum_list (map (\<lambda>x. x * x) a)"
  by (induction a) (simp_all add: dot_def)

lemma sum_squares_pos: "\<exists>x \<in> set a. x \<noteq> 0 \<Longrightarrow> 0 < sum_list (map (\<lambda>x. x * x) (a :: real list))"
proof (induction a)
  case (Cons y a)
  have nonneg: "0 \<le> sum_list (map (\<lambda>x. x * x) a)"
    by (rule sum_list_nonneg) auto
  show ?case
  proof (cases "y = 0")
    case False
    then have "0 < y * y" by (auto simp: zero_less_mult_iff linorder_neq_iff)
    with nonneg show ?thesis by simp
  qed (use Cons in simp)
qed simp

lemma cosine_self: "\<exists>x \<in> set a. x \<noteq> 0 \<Longrightarrow> cosine a a = 1"
  using sum_squares_pos [of a]
  by (simp add: cosine_def norm_or_one_def Let_def dot_self)

text \<open>
  asking the stored question again is always a hit in its scope, and in the other scopes
  nothing changes, as long as the cap allows one entry, the threshold is at most 1 and the
  embedding is not the zero vector.
\<close>

theorem semantic_get_after_set:
  assumes "1 \<le> m" "threshold \<le> 1" "\<exists>x \<in> set (embed_query (normalize_query q)). x \<noteq> 0"
  shows "semantic_get embed_query threshold q scope (semantic_set embed_query m q v scope c) \<noteq> None
     \<and> (\<forall>q' s. s \<noteq> scope \<longrightarrow>
           semantic_get embed_query threshold q' s (semantic_set embed_query m q v scope c)
           = semantic_get embed_query threshold q' s c)"
proof -
  let ?n = "normalize_query q"
  let ?e = "\<lparr>en_query = ?n, en_vector = embed_query ?n, en_value = v\<rparr>"
  let ?b' = "bucket_after m ?e (case map_of c scope of None \<Rightarrow> [] | Some b \<Rightarrow> b)"
  have mem: "?e \<in> set ?b'"
    by (rule bucket_after_mem [OF assms(1)])
  obtain s e where best: "best_entry (embed_query ?n) None ?b' = Some (s, e)"
    using mem best_entry_None [of "embed_query ?n" None ?b'] by (metis empty_iff list.set(1) not_Some_eq prod.exhaust)
  have "cosine (embed_query ?n) (en_vector ?e) \<le> s"
    using best_entry_ge [OF best] mem by blast
  then have "1 \<le> s"
    using cosine_self [OF assms(3)] by simp
  moreover have "?b' \<noteq> []"
    using mem by force
  ultimately show ?thesis
    using best assms(2) by (simp add: semantic_get_def semantic_set_lookup)
qed

lemma semantic_get_after_set_witness:
  "semantic_get (\<lambda>s. [1, 2]) (95 / 100) ''q'' ''s'' (semantic_set (\<lambda>s. [1, 2]) 256 ''q'' ''v'' ''s'' []) \<noteq> None
     \<and> semantic_get (\<lambda>s. [1, 2]) (95 / 100) ''q'' ''t'' (semantic_set (\<lambda>s. [1, 2]) 256 ''q'' ''v'' ''s'' [])
       = semantic_get (\<lambda>s. [1, 2]) (95 / 100) ''q'' ''t'' []"
proof -
  have 256: "(1 :: int) \<le> 256" and threshold: "(95 / 100 :: real) \<le> 1"
    and vector: "\<exists>x \<in> set ((\<lambda>s. [1, 2]) (normalize_query ''q'') :: real list). x \<noteq> 0"
    by simp_all
  note both = semantic_get_after_set [OF 256 threshold vector, where q = "''q''" and v = "''v''" and scope = "''s''" and c = "[]"]
  have "''t'' \<noteq> ''s''" by simp
  from conjI [OF conjunct1 [OF both] mp [OF spec [OF spec [OF conjunct2 [OF both], of "''q''"]] this]]
  show ?thesis .
qed

end
