(* ===== verification/Stores.thy ===== *)
theory Stores
  imports Acl Caches
begin

text \<open>
  Searching under access control. \<open>acl_search\<close> is what \<open>src/rag/retrieval\<close> relies on from
  every index (\<open>vectordb/base.py\<close>, \<open>lexical/base.py\<close>): a search returns indexed chunks that
  the caller may see, of the wanted index version, at most \<open>top_k\<close> of them, best first and
  ranked from 1. \<open>MemoryVectorStore\<close> (\<open>vectordb/memory.py\<close>) interprets it here and the BM25
  index in theory \<open>Bm25\<close>.
\<close>

section \<open>Hits\<close>

text \<open>\<open>if index_version and chunk.index_version != index_version: continue\<close>\<close>

definition wanted :: "string option \<Rightarrow> chunk \<Rightarrow> bool" where
  "wanted iv ch = (case iv of None \<Rightarrow> True | Some v \<Rightarrow> v = [] \<or> ch_index_version ch = v)"

definition visible :: "principal \<Rightarrow> string option \<Rightarrow> chunk \<Rightarrow> bool" where
  "visible p iv ch \<longleftrightarrow> wanted iv ch \<and> is_allowed p (ch_acl ch)"

definition ranked :: "retriever \<Rightarrow> (real \<times> chunk) list \<Rightarrow> scored_chunk list" where
  "ranked r scored =
     map (\<lambda>(i, s, ch). \<lparr>sc_chunk = ch, sc_score = s, sc_rank = i, sc_retriever = r\<rparr>)
       (enumerate 1 scored)"

text \<open>The contract of a list of hits.\<close>

definition hits_ok :: "principal \<Rightarrow> string option \<Rightarrow> chunk set \<Rightarrow> int \<Rightarrow> scored_chunk list \<Rightarrow> bool" where
  "hits_ok p iv indexed top_k hits \<longleftrightarrow>
     (\<forall>h \<in> set hits. visible p iv (sc_chunk h) \<and> sc_chunk h \<in> indexed)
     \<and> (0 \<le> top_k \<longrightarrow> int (length hits) \<le> top_k)
     \<and> map sc_rank hits = [1 ..< Suc (length hits)]
     \<and> sorted_wrt (\<lambda>g h. sc_score h \<le> sc_score g) hits
     \<and> distinct (map (ch_chunk_id \<circ> sc_chunk) hits)"

lemma ranked_simps:
  "length (ranked r xs) = length xs"
  "map sc_chunk (ranked r xs) = map snd xs"
  "map sc_score (ranked r xs) = map fst xs"
  "map sc_rank (ranked r xs) = [1 ..< Suc (length xs)]"
  by (auto intro!: nth_equalityI simp: ranked_def nth_enumerate_eq split_beta simp del: upt_Suc)

lemma ranked_nth:
  "i < length xs \<Longrightarrow> ranked r xs ! i
     = \<lparr>sc_chunk = snd (xs ! i), sc_score = fst (xs ! i), sc_rank = Suc i, sc_retriever = r\<rparr>"
  by (simp add: ranked_def nth_enumerate_eq split_beta)

lemma sorted_wrt_score: "sorted_wrt (\<lambda>g h. sc_score h \<le> sc_score g) hits
    \<longleftrightarrow> sorted_wrt (\<ge>) (map sc_score hits)"
  by (simp add: sorted_wrt_map)

text \<open>\<open>scored.sort(key=..., reverse=True)\<close>, then \<open>enumerate(scored[:top_k], start=1)\<close>.\<close>

definition top_ranked :: "retriever \<Rightarrow> int \<Rightarrow> (real \<times> chunk) list \<Rightarrow> scored_chunk list" where
  "top_ranked r top_k scored = ranked r (slice_to (sort_desc fst scored) top_k)"

lemma set_slice_to: "x \<in> set (slice_to xs n) \<Longrightarrow> x \<in> set xs"
  by (auto simp: slice_to_def dest: in_set_takeD split: if_splits)

lemma slice_to_take: "\<exists>m. slice_to xs n = take m xs"
  by (auto simp: slice_to_def)

lemma hits_ok_top_ranked:
  assumes "\<forall>(s, ch) \<in> set scored. visible p iv ch \<and> ch \<in> indexed"
    and "distinct (map (ch_chunk_id \<circ> snd) scored)"
  shows "hits_ok p iv indexed top_k (top_ranked r top_k scored)"
proof -
  let ?xs = "slice_to (sort_desc fst scored) top_k"
  obtain m where m: "?xs = take m (sort_desc fst scored)"
    using slice_to_take by blast
  have chunks: "map sc_chunk (ranked r ?xs) = map snd ?xs"
    and scores: "map sc_score (ranked r ?xs) = map fst ?xs"
    by (simp_all add: ranked_simps)
  have "sc_chunk ` set (ranked r ?xs) = snd ` set ?xs"
    by (metis chunks list.set_map)
  then have "\<forall>h \<in> set (ranked r ?xs). \<exists>x \<in> set scored. sc_chunk h = snd x"
    using set_slice_to by (fastforce simp: image_iff)
  with assms(1) have "\<forall>h \<in> set (ranked r ?xs). visible p iv (sc_chunk h) \<and> sc_chunk h \<in> indexed"
    by fastforce
  moreover have "distinct (map (ch_chunk_id \<circ> sc_chunk) (ranked r ?xs))"
    using assms(2) chunks
    by (metis distinct_map_sort_desc distinct_take m map_map take_map)
  moreover have "sorted_wrt (\<ge>) (map fst ?xs)"
    unfolding m sorted_wrt_map using sorted_wrt_sort_desc [of fst scored] sorted_wrt_take by blast
  ultimately show ?thesis
    using length_slice_to_bound [of top_k "sort_desc fst scored"]
    by (simp add: hits_ok_def top_ranked_def ranked_simps sorted_wrt_score)
qed

lemma ranked_set: "sc_chunk ` set (ranked r xs) = snd ` set xs" "sc_score ` set (ranked r xs) = fst ` set xs"
  by (metis list.set_map ranked_simps(2), metis list.set_map ranked_simps(3))

text \<open>What is left out scores no better than what is returned.\<close>

lemma top_ranked_best:
  assumes "0 \<le> top_k" "(s, ch) \<in> set scored"
  shows "ch \<in> sc_chunk ` set (top_ranked r top_k scored)
     \<or> int (length (top_ranked r top_k scored)) = top_k
       \<and> (\<forall>h \<in> set (top_ranked r top_k scored). s \<le> sc_score h)"
proof -
  let ?ys = "sort_desc fst scored"
  let ?n = "nat top_k"
  have hits: "top_ranked r top_k scored = ranked r (take ?n ?ys)"
    using assms(1) by (simp add: top_ranked_def slice_to_def)
  have "(s, ch) \<in> set (take ?n ?ys @ drop ?n ?ys)"
    using assms(2) by simp
  then consider "(s, ch) \<in> set (take ?n ?ys)" | "(s, ch) \<in> set (drop ?n ?ys)"
    by (metis Un_iff set_append)
  then show ?thesis
  proof cases
    case 1
    then have "ch \<in> snd ` set (take ?n ?ys)"
      by (rule rev_image_eqI) simp
    then show ?thesis unfolding hits ranked_set by blast
  next
    case 2
    then have "?n < length ?ys" by (metis drop_eq_Nil empty_iff empty_set not_le)
    then have "int (length (ranked r (take ?n ?ys))) = top_k"
      using assms(1) by (simp add: ranked_simps)
    moreover have "sorted_wrt (\<lambda>x y. fst y \<le> fst x) (take ?n ?ys @ drop ?n ?ys)"
      using sorted_wrt_sort_desc [of fst scored] by simp
    then have "\<forall>x \<in> set (take ?n ?ys). s \<le> fst x"
      using 2 unfolding sorted_wrt_append by fastforce
    then have "\<forall>y \<in> sc_score ` set (ranked r (take ?n ?ys)). s \<le> y"
      unfolding ranked_set by blast
    then have "\<forall>h \<in> set (ranked r (take ?n ?ys)). s \<le> sc_score h"
      by blast
    ultimately show ?thesis unfolding hits by blast
  qed
qed

section \<open>The interface\<close>

locale acl_search =
  fixes search :: "'q \<Rightarrow> int \<Rightarrow> principal \<Rightarrow> string option \<Rightarrow> 's \<Rightarrow> scored_chunk list result"
    and indexed :: "'s \<Rightarrow> chunk set"
    and inv :: "'s \<Rightarrow> bool"
  assumes search_hits: "inv st \<Longrightarrow> \<exists>hits. search q k p iv st = Inr hits \<and> hits_ok p iv (indexed st) k hits"
begin

lemma search_ok: "inv st \<Longrightarrow> search q k p iv st = Inr hits \<Longrightarrow> hits_ok p iv (indexed st) k hits"
  using search_hits by (metis sum.inject(2))

lemma search_allowed:
  "inv st \<Longrightarrow> search q k p iv st = Inr hits \<Longrightarrow> h \<in> set hits \<Longrightarrow> is_allowed p (ch_acl (sc_chunk h))"
  using search_ok unfolding hits_ok_def visible_def by blast

lemma search_runs:
  assumes "inv st"
  obtains hitss where "map_result (\<lambda>q. search q k p iv st) qs = Inr hitss"
    "\<forall>hits \<in> set hitss. hits_ok p iv (indexed st) k hits"
proof -
  have "\<exists>hitss. map_result (\<lambda>q. search q k p iv st) qs = Inr hitss
      \<and> (\<forall>hits \<in> set hitss. hits_ok p iv (indexed st) k hits)"
    using search_hits [OF assms] by (induction qs) fastforce+
  then show ?thesis using that by blast
qed

end

section \<open>MemoryVectorStore\<close>

record vector_store =
  vs_items :: "(string \<times> (chunk \<times> real list)) list"
  vs_aliases :: "(string \<times> string) list"

definition empty_vector_store :: vector_store where
  "empty_vector_store = \<lparr>vs_items = [], vs_aliases = []\<rparr>"

definition vs_upsert :: "chunk list \<Rightarrow> real list list \<Rightarrow> vector_store \<Rightarrow> vector_store result" where
  "vs_upsert chunks vectors st =
     (if length chunks \<noteq> length vectors then Inl (ValueError ''chunks and vectors length mismatch'')
      else Inr (st\<lparr>vs_items :=
        fold (\<lambda>(ch, v). AList.update (ch_chunk_id ch) (ch, v)) (zip chunks vectors) (vs_items st)\<rparr>))"

definition vs_search ::
    "real list \<Rightarrow> int \<Rightarrow> principal \<Rightarrow> string option \<Rightarrow> vector_store \<Rightarrow> scored_chunk list result" where
  "vs_search vector top_k p iv st =
     Inr (top_ranked Dense top_k
       (map (\<lambda>(ch, stored). (cosine vector stored, ch))
         (filter (\<lambda>(ch, stored). visible p iv ch) (map snd (vs_items st)))))"

definition vs_delete :: "string list \<Rightarrow> vector_store \<Rightarrow> vector_store" where
  "vs_delete ids st = st\<lparr>vs_items := fold AList.delete ids (vs_items st)\<rparr>"

definition vs_resolve_alias :: "string \<Rightarrow> vector_store \<Rightarrow> string option" where
  "vs_resolve_alias a st = map_of (vs_aliases st) a"

definition vs_set_alias :: "string \<Rightarrow> string \<Rightarrow> vector_store \<Rightarrow> vector_store" where
  "vs_set_alias a v st = st\<lparr>vs_aliases := AList.update a v (vs_aliases st)\<rparr>"

definition vs_count :: "string option \<Rightarrow> vector_store \<Rightarrow> nat" where
  "vs_count iv st =
     (case iv of
        None \<Rightarrow> length (vs_items st)
      | Some v \<Rightarrow>
          if v = [] then length (vs_items st)
          else length (filter (\<lambda>(ch, _). ch_index_version ch = v) (map snd (vs_items st))))"

definition vs_indexed :: "vector_store \<Rightarrow> chunk set" where
  "vs_indexed st = fst ` snd ` set (vs_items st)"

text \<open>Every item is filed under the id of its chunk, once.\<close>

definition vs_inv :: "vector_store \<Rightarrow> bool" where
  "vs_inv st \<longleftrightarrow> distinct (map fst (vs_items st))
     \<and> (\<forall>(cid, ch, v) \<in> set (vs_items st). ch_chunk_id ch = cid)"

lemma vs_upsert_inv:
  assumes "vs_inv st" "vs_upsert chunks vectors st = Inr st'"
  shows "vs_inv st' \<and> vs_indexed st' \<subseteq> vs_indexed st \<union> set chunks"
proof -
  let ?step = "\<lambda>(ch, v). AList.update (ch_chunk_id ch) (ch, v)"
  have step: "distinct (map fst (fold ?step ps d))
      \<and> (\<forall>(cid, ch, v) \<in> set (fold ?step ps d). ch_chunk_id ch = cid)
      \<and> fst ` snd ` set (fold ?step ps d) \<subseteq> fst ` snd ` set d \<union> fst ` set ps"
    if "distinct (map fst d)" "\<forall>(cid, ch, v) \<in> set d. ch_chunk_id ch = cid"
    for ps and d :: "(string \<times> (chunk \<times> real list)) list"
    using that
  proof (induction ps arbitrary: d)
    case (Cons p ps)
    obtain ch v where p: "p = (ch, v)" by fastforce
    let ?d = "AList.update (ch_chunk_id ch) (ch, v) d"
    have "distinct (map fst ?d)" "\<forall>(cid, ch, v) \<in> set ?d. ch_chunk_id ch = cid"
      using Cons.prems by (auto simp: distinct_update dest!: in_update)
    from Cons.IH [OF this] have IH: "fst ` snd ` set (fold ?step ps ?d) \<subseteq> fst ` snd ` set ?d \<union> fst ` set ps"
        "distinct (map fst (fold ?step ps ?d))"
        "\<forall>(cid, ch, v) \<in> set (fold ?step ps ?d). ch_chunk_id ch = cid"
      by auto
    have "fst ` snd ` set ?d \<subseteq> insert ch (fst ` snd ` set d)"
      by (force dest: in_update)
    with IH(1) have "fst ` snd ` set (fold ?step ps ?d) \<subseteq> fst ` snd ` set d \<union> insert ch (fst ` set ps)"
      by blast
    with IH(2,3) show ?case by (simp add: p)
  qed simp
  show ?thesis
  proof -
    have st': "st' = st\<lparr>vs_items := fold ?step (zip chunks vectors) (vs_items st)\<rparr>"
      using assms(2) by (simp add: vs_upsert_def split: if_splits)
    have "fst ` set (zip chunks vectors) \<subseteq> set chunks"
      by (auto dest: set_zip_leftD)
    moreover from assms(1) have old: "distinct (map fst (vs_items st))"
        "\<forall>(cid, ch, v) \<in> set (vs_items st). ch_chunk_id ch = cid"
      by (simp_all add: vs_inv_def)
    note new = step [OF old, of "zip chunks vectors"]
    ultimately have "fst ` snd ` set (fold ?step (zip chunks vectors) (vs_items st))
        \<subseteq> fst ` snd ` set (vs_items st) \<union> set chunks"
      by (meson new order_trans Un_mono order_refl)
    with new show ?thesis
      by (simp add: st' vs_inv_def vs_indexed_def)
  qed
qed

lemma vs_delete_inv:
  assumes "vs_inv st"
  shows "vs_inv (vs_delete ids st) \<and> vs_indexed (vs_delete ids st) \<subseteq> vs_indexed st"
proof -
  have sub: "set (fold AList.delete ids d) \<subseteq> set d \<and> (distinct (map fst d) \<longrightarrow> distinct (map fst (fold AList.delete ids d)))"
    for d :: "(string \<times> (chunk \<times> real list)) list"
  proof (induction ids arbitrary: d)
    case (Cons a ids)
    from Cons.IH [of "AList.delete a d"] show ?case
      by (auto simp: distinct_delete dest!: subsetD)
  qed simp
  from sub [of "vs_items st"] assms show ?thesis
    by (auto simp: vs_inv_def vs_delete_def vs_indexed_def dest: subsetD)
qed

lemma vs_search_hits:
  assumes "vs_inv st"
  shows "\<exists>hits. vs_search v k p iv st = Inr hits \<and> hits_ok p iv (vs_indexed st) k hits"
proof -
  let ?items = "filter (\<lambda>(ch, stored). visible p iv ch) (map snd (vs_items st))"
  have ids: "map (ch_chunk_id \<circ> fst) (map snd (vs_items st)) = map fst (vs_items st)"
    using assms by (auto simp: vs_inv_def)
  then have "distinct (map (ch_chunk_id \<circ> fst) ?items)"
    using assms by (metis distinct_map_filter vs_inv_def)
  then have "distinct (map (ch_chunk_id \<circ> snd) (map (\<lambda>(ch, stored). (cosine v stored, ch)) ?items))"
    by (simp add: comp_def split_beta)
  moreover have "\<forall>(s, ch) \<in> set (map (\<lambda>(ch, stored). (cosine v stored, ch)) ?items).
      visible p iv ch \<and> ch \<in> vs_indexed st"
    by (auto simp: vs_indexed_def intro: rev_image_eqI)
  ultimately show ?thesis
    unfolding vs_search_def using hits_ok_top_ranked by blast
qed

interpretation vs: acl_search vs_search vs_indexed vs_inv
  by unfold_locales (rule vs_search_hits)



lemma filter_update_invisible:
  assumes "\<not> Q x" "\<forall>y. map_of d k = Some y \<longrightarrow> \<not> Q y"
  shows "filter Q (map snd (AList.update k x d)) = filter Q (map snd d)"
  using assms by (induction d) auto

text \<open>Writing chunks outside \<open>P\<close> over items outside \<open>P\<close> leaves the items inside \<open>P\<close> as they were.\<close>

lemma vs_upsert_frame:
  assumes "vs_upsert chunks vectors st = Inr st'"
    and "\<forall>ch \<in> set chunks. \<not> P ch"
    and "\<forall>ch \<in> set chunks. \<forall>old v. map_of (vs_items st) (ch_chunk_id ch) = Some (old, v) \<longrightarrow> \<not> P old"
  shows "filter (\<lambda>(ch, v). P ch) (map snd (vs_items st')) = filter (\<lambda>(ch, v). P ch) (map snd (vs_items st))"
proof -
  let ?step = "\<lambda>(ch, v). AList.update (ch_chunk_id ch) (ch, v)"
  let ?Q = "\<lambda>(ch, v :: real list). P ch"
  have fold: "filter ?Q (map snd (fold ?step ps d)) = filter ?Q (map snd d)"
    if "\<forall>(ch, v) \<in> set ps. \<not> P ch"
      "\<forall>(ch, v) \<in> set ps. \<forall>x. map_of d (ch_chunk_id ch) = Some x \<longrightarrow> \<not> ?Q x" for ps d
    using that
  proof (induction ps arbitrary: d)
    case (Cons x ps)
    obtain ch v where x: "x = (ch, v)" by fastforce
    have "filter ?Q (map snd (fold ?step ps (AList.update (ch_chunk_id ch) (ch, v) d)))
        = filter ?Q (map snd (AList.update (ch_chunk_id ch) (ch, v) d))"
      using Cons.prems by (intro Cons.IH) (auto simp: x split: if_splits)
    also have "\<dots> = filter ?Q (map snd d)"
      using Cons.prems by (intro filter_update_invisible) (auto simp: x)
    finally show ?case by (simp add: x)
  qed simp
  have st': "vs_items st' = fold ?step (zip chunks vectors) (vs_items st)"
    using assms(1) by (auto simp: vs_upsert_def split: if_splits)
  show ?thesis
    unfolding st' by (rule fold) (use assms(2,3) in \<open>fastforce dest: set_zip_leftD\<close>)+
qed



end
