(* ===== verification/Bm25.thy ===== *)
theory Bm25
  imports Stores
begin

text \<open>
  \<open>src/rag/lexical/bm25_memory.py\<close>: the BM25 index with its incrementally kept statistics.
  The code's dictionaries are the fields of \<open>bm25\<close>; lookups that raise are \<open>Inl\<close>. The
  reference \<open>ref_score\<close> computes the textbook score of a chunk from the corpus alone;
  \<open>bm_run_refines\<close> shows that no history of updates makes the index raise or drift from it.
\<close>

section \<open>Definitions\<close>

definition TOKEN :: rx where
  "TOKEN = rx_plus ascii_alnum"

definition tokenize :: "string \<Rightarrow> string list" where
  "tokenize t = map (\<lambda>(a, b). py_lower (substr t a b)) (finditer TOKEN t)"

text \<open>\<open>Counter\<close>: a missing key counts zero.\<close>

type_synonym counter = "(string \<times> int) list"

definition counter_get :: "counter \<Rightarrow> string \<Rightarrow> int" where
  "counter_get d t = (case map_of d t of None \<Rightarrow> 0 | Some n \<Rightarrow> n)"

definition counter_inc :: "string \<Rightarrow> counter \<Rightarrow> counter" where
  "counter_inc t d = AList.update t (counter_get d t + 1) d"

definition counter_of :: "string list \<Rightarrow> counter" where
  "counter_of ts = fold counter_inc ts []"

record bm25 =
  bm_k1 :: real
  bm_b :: real
  bm_chunks :: "(string \<times> chunk) list"
  bm_tf :: "(string \<times> counter) list"
  bm_df :: counter
  bm_doc_len :: "(string \<times> nat) list"
  bm_avgdl :: real

definition bm_empty :: "real \<Rightarrow> real \<Rightarrow> bm25" where
  "bm_empty k1 b = \<lparr>bm_k1 = k1, bm_b = b, bm_chunks = [], bm_tf = [], bm_df = [],
     bm_doc_len = [], bm_avgdl = 0\<rparr>"

definition dec_term :: "string \<Rightarrow> counter \<Rightarrow> counter" where
  "dec_term t df =
     (let n = counter_get df t - 1
      in if n \<le> 0 then AList.delete t df else AList.update t n df)"

definition remove_stats :: "string \<Rightarrow> bm25 \<Rightarrow> bm25 result" where
  "remove_stats cid st =
     (case map_of (bm_tf st) cid of
        None \<Rightarrow> Inl (KeyError cid)
      | Some tf \<Rightarrow> Inr (st\<lparr>bm_df := fold dec_term (map fst tf) (bm_df st)\<rparr>))"

definition recompute_avgdl :: "bm25 \<Rightarrow> bm25" where
  "recompute_avgdl st =
     st\<lparr>bm_avgdl := (if bm_doc_len st = [] then 0
        else real (sum_list (map snd (bm_doc_len st))) / real (length (bm_doc_len st)))\<rparr>"

definition upsert_chunk :: "chunk \<Rightarrow> bm25 \<Rightarrow> bm25 result" where
  "upsert_chunk ch st =
     (let cid = ch_chunk_id ch in
      bind_result (if map_of (bm_chunks st) cid \<noteq> None then remove_stats cid st else Inr st)
        (\<lambda>st. let tokens = tokenize (ch_text ch) in
          Inr (st\<lparr>bm_chunks := AList.update cid ch (bm_chunks st),
                  bm_tf := AList.update cid (counter_of tokens) (bm_tf st),
                  bm_doc_len := AList.update cid (length tokens) (bm_doc_len st),
                  bm_df := fold counter_inc (remdups tokens) (bm_df st)\<rparr>)))"

definition bm_upsert :: "chunk list \<Rightarrow> bm25 \<Rightarrow> bm25 result" where
  "bm_upsert chunks st =
     bind_result (fold_result upsert_chunk chunks st) (\<lambda>st. Inr (recompute_avgdl st))"

definition delete_chunk :: "string \<Rightarrow> bm25 \<Rightarrow> bm25 result" where
  "delete_chunk cid st =
     (if map_of (bm_chunks st) cid = None then Inr st
      else bind_result (remove_stats cid st)
        (\<lambda>st. if map_of (bm_tf st) cid = None \<or> map_of (bm_doc_len st) cid = None
              then Inl (KeyError cid)
              else Inr (st\<lparr>bm_chunks := AList.delete cid (bm_chunks st),
                           bm_tf := AList.delete cid (bm_tf st),
                           bm_doc_len := AList.delete cid (bm_doc_len st)\<rparr>)))"

definition bm_delete :: "string list \<Rightarrow> bm25 \<Rightarrow> bm25 result" where
  "bm_delete ids st =
     bind_result (fold_result delete_chunk ids st) (\<lambda>st. Inr (recompute_avgdl st))"

definition term_score :: "bm25 \<Rightarrow> nat \<Rightarrow> nat \<Rightarrow> counter \<Rightarrow> string \<Rightarrow> real result" where
  "term_score st n dl tf t =
     (let df = real_of_int (counter_get (bm_df st) t);
          x = 1 + (real n - df + 1 / 2) / (df + 1 / 2);
          freq = real_of_int (counter_get tf t);
          avgdl = (if bm_avgdl st = 0 then 1 else bm_avgdl st);
          denom = freq + bm_k1 st * (1 - bm_b st + bm_b st * real dl / avgdl)
      in if x \<le> 0 then Inl (ValueError ''math domain error'')
         else if denom = 0 then Inl ZeroDivisionError
         else Inr (ln x * (freq * (bm_k1 st + 1)) / denom))"

fun score_terms :: "bm25 \<Rightarrow> nat \<Rightarrow> nat \<Rightarrow> counter \<Rightarrow> string list \<Rightarrow> real \<Rightarrow> real result" where
  "score_terms st n dl tf [] score = Inr score"
| "score_terms st n dl tf (t # ts) score =
     (if map_of tf t = None then score_terms st n dl tf ts score
      else bind_result (term_score st n dl tf t) (\<lambda>x. score_terms st n dl tf ts (score + x)))"

definition bm_score :: "bm25 \<Rightarrow> string list \<Rightarrow> string \<Rightarrow> nat \<Rightarrow> real result" where
  "bm_score st q_tokens cid n =
     (case map_of (bm_doc_len st) cid of
        None \<Rightarrow> Inl (KeyError cid)
      | Some dl \<Rightarrow>
          (case map_of (bm_tf st) cid of
             None \<Rightarrow> Inl (KeyError cid)
           | Some tf \<Rightarrow> score_terms st n dl tf q_tokens 0))"

definition bm_search ::
    "string \<Rightarrow> int \<Rightarrow> principal \<Rightarrow> string option \<Rightarrow> bm25 \<Rightarrow> scored_chunk list result" where
  "bm_search q top_k p iv st =
     (let q_tokens = tokenize q in
      if q_tokens = [] \<or> bm_chunks st = [] then Inr []
      else bind_result
        (map_result (\<lambda>(cid, ch). bind_result (bm_score st q_tokens cid (length (bm_chunks st)))
                                   (\<lambda>s. Inr (s, ch)))
           (filter (\<lambda>(cid, ch). visible p iv ch) (bm_chunks st)))
        (\<lambda>scores. Inr (top_ranked Lexical top_k (filter (\<lambda>(s, ch). 0 < s) scores))))"

section \<open>The reference\<close>

definition chunk_tokens :: "chunk \<Rightarrow> string list" where
  "chunk_tokens ch = tokenize (ch_text ch)"

definition doc_count :: "(string \<times> chunk) list \<Rightarrow> string \<Rightarrow> nat" where
  "doc_count corpus t = length (filter (\<lambda>(cid, ch). t \<in> set (chunk_tokens ch)) corpus)"

definition mean_length :: "(string \<times> chunk) list \<Rightarrow> real" where
  "mean_length corpus =
     (if corpus = [] then 0
      else real (sum_list (map (\<lambda>x. length (chunk_tokens (snd x))) corpus)) / real (length corpus))"

definition ref_term :: "real \<Rightarrow> real \<Rightarrow> (string \<times> chunk) list \<Rightarrow> chunk \<Rightarrow> string \<Rightarrow> real" where
  "ref_term k1 b corpus ch t =
     (let df = real (doc_count corpus t);
          idf = ln (1 + (real (length corpus) - df + 1 / 2) / (df + 1 / 2));
          freq = real (count_list (chunk_tokens ch) t);
          avgdl = (if mean_length corpus = 0 then 1 else mean_length corpus);
          dl = real (length (chunk_tokens ch))
      in idf * (freq * (k1 + 1)) / (freq + k1 * (1 - b + b * dl / avgdl)))"

definition ref_score :: "real \<Rightarrow> real \<Rightarrow> (string \<times> chunk) list \<Rightarrow> string list \<Rightarrow> chunk \<Rightarrow> real" where
  "ref_score k1 b corpus q_tokens ch =
     sum_list (map (ref_term k1 b corpus ch) (filter (\<lambda>t. t \<in> set (chunk_tokens ch)) q_tokens))"

text \<open>The statistics are those of the corpus.\<close>

definition bm_core :: "bm25 \<Rightarrow> bool" where
  "bm_core st \<longleftrightarrow> distinct (map fst (bm_chunks st))
     \<and> (\<forall>(cid, ch) \<in> set (bm_chunks st). ch_chunk_id ch = cid)
     \<and> bm_tf st = map (\<lambda>(cid, ch). (cid, counter_of (chunk_tokens ch))) (bm_chunks st)
     \<and> bm_doc_len st = map (\<lambda>(cid, ch). (cid, length (chunk_tokens ch))) (bm_chunks st)
     \<and> (\<forall>t. counter_get (bm_df st) t = int (doc_count (bm_chunks st) t))"

definition bm_inv :: "bm25 \<Rightarrow> bool" where
  "bm_inv st \<longleftrightarrow> bm_core st \<and> bm_avgdl st = mean_length (bm_chunks st)
     \<and> 0 < bm_k1 st \<and> 0 \<le> bm_b st \<and> bm_b st \<le> 1"

section \<open>Counters\<close>

lemma counter_get_inc [simp]:
  "counter_get (counter_inc t d) u = counter_get d u + (if u = t then 1 else 0)"
  by (simp add: counter_get_def counter_inc_def)

lemma counter_get_fold_inc:
  "counter_get (fold counter_inc ts d) u = counter_get d u + int (count_list ts u)"
  by (induction ts arbitrary: d) auto

lemma counter_get_Nil [simp]: "counter_get [] u = 0"
  by (simp add: counter_get_def)

lemma counter_get_of [simp]: "counter_get (counter_of ts) u = int (count_list ts u)"
  by (simp add: counter_of_def counter_get_fold_inc)

lemma counter_keys: "fst ` set (fold counter_inc ts d) = fst ` set d \<union> set ts"
  by (induction ts arbitrary: d) (auto simp: counter_inc_def dom_update)

lemma counter_of_keys [simp]: "fst ` set (counter_of ts) = set ts"
  by (simp add: counter_of_def counter_keys)

lemma counter_of_distinct: "distinct (map fst (counter_of ts))"
proof -
  have "distinct (map fst d) \<Longrightarrow> distinct (map fst (fold counter_inc ts d))" for d
    by (induction ts arbitrary: d) (auto simp: counter_inc_def distinct_update)
  then show ?thesis by (simp add: counter_of_def)
qed

lemma counter_of_None [simp]: "map_of (counter_of ts) t = None \<longleftrightarrow> t \<notin> set ts"
  by (simp add: map_of_eq_None_iff)

lemma counter_get_dec:
  "counter_get (dec_term t d) u = (if u = t then max 0 (counter_get d t - 1) else counter_get d u)"
  by (auto simp: dec_term_def counter_get_def Let_def)

lemma counter_get_fold_dec:
  assumes "distinct ts" "\<forall>t \<in> set ts. 1 \<le> counter_get d t"
  shows "counter_get (fold dec_term ts d) u = counter_get d u - (if u \<in> set ts then 1 else 0)"
  using assms
proof (induction ts arbitrary: d)
  case (Cons t ts)
  have "\<forall>x \<in> set ts. 1 \<le> counter_get (dec_term t d) x"
    using Cons.prems by (auto simp: counter_get_dec)
  with Cons show ?case by (auto simp: counter_get_dec)
qed simp

section \<open>Dictionaries computed from the corpus\<close>

abbreviation on_values :: "('a \<Rightarrow> 'b) \<Rightarrow> (string \<times> 'a) list \<Rightarrow> (string \<times> 'b) list" where
  "on_values f d \<equiv> map (\<lambda>(k, v). (k, f v)) d"

lemma update_on_values: "AList.update k (f v) (on_values f d) = on_values f (AList.update k v d)"
  by (induction d) auto

lemma delete_on_values: "AList.delete k (on_values f d) = on_values f (AList.delete k d)"
  by (induction d) auto

lemma map_of_on_values: "map_of (on_values f d) k = map_option f (map_of d k)"
  by (induction d) auto

lemma doc_count_Cons:
  "doc_count ((cid, ch) # d) t = (if t \<in> set (chunk_tokens ch) then 1 else 0) + doc_count d t"
  by (simp add: doc_count_def)

definition old_has :: "(string \<times> chunk) list \<Rightarrow> string \<Rightarrow> string \<Rightarrow> nat" where
  "old_has d cid t =
     (case map_of d cid of None \<Rightarrow> 0 | Some ch \<Rightarrow> if t \<in> set (chunk_tokens ch) then 1 else 0)"

lemma old_has_le: "old_has d cid t \<le> doc_count d t"
  by (induction d) (auto simp: old_has_def doc_count_def split: option.splits)

lemma doc_count_update:
  "doc_count (AList.update cid ch d) t + old_has d cid t
     = doc_count d t + (if t \<in> set (chunk_tokens ch) then 1 else 0)"
proof (induction d)
  case (Cons x d)
  then show ?case by (cases x) (auto simp: doc_count_Cons old_has_def)
qed (simp add: doc_count_def old_has_def)

lemma delete_no_key: "k \<notin> fst ` set d \<Longrightarrow> AList.delete k d = d"
  by (rule delete_id)

lemma doc_count_delete:
  "distinct (map fst d) \<Longrightarrow> doc_count (AList.delete cid d) t + old_has d cid t = doc_count d t"
proof (induction d)
  case (Cons x d)
  then show ?case
    by (cases x) (auto simp: doc_count_Cons old_has_def delete_no_key)
qed (simp add: doc_count_def old_has_def)

section \<open>Updates keep the statistics exact\<close>

lemma bm_core_tf: "bm_core st \<Longrightarrow> map_of (bm_tf st) cid = map_option (counter_of \<circ> chunk_tokens) (map_of (bm_chunks st) cid)"
  by (simp add: bm_core_def map_of_on_values [of "counter_of \<circ> chunk_tokens", unfolded comp_def] comp_def)

lemma bm_core_len: "bm_core st \<Longrightarrow> map_of (bm_doc_len st) cid = map_option (length \<circ> chunk_tokens) (map_of (bm_chunks st) cid)"
  by (simp add: bm_core_def map_of_on_values [of "length \<circ> chunk_tokens", unfolded comp_def] comp_def)

lemma remove_stats_core:
  assumes "bm_core st" "map_of (bm_chunks st) cid = Some ch"
  shows "\<exists>df. remove_stats cid st = Inr (st\<lparr>bm_df := df\<rparr>)
     \<and> (\<forall>t. counter_get df t = int (doc_count (bm_chunks st) t) - int (old_has (bm_chunks st) cid t))"
proof -
  let ?ts = "map fst (counter_of (chunk_tokens ch))"
  have stats: "counter_get (bm_df st) t = int (doc_count (bm_chunks st) t)" for t
    using assms(1) by (simp add: bm_core_def)
  have "1 \<le> counter_get (bm_df st) t" if "t \<in> set ?ts" for t
    using that old_has_le [of "bm_chunks st" cid t] assms(2)
    by (simp add: stats old_has_def)
  then have "counter_get (fold dec_term ?ts (bm_df st)) t
      = int (doc_count (bm_chunks st) t) - int (old_has (bm_chunks st) cid t)" for t
    using assms(2) by (simp add: counter_get_fold_dec counter_of_distinct stats old_has_def)
  moreover have "remove_stats cid st = Inr (st\<lparr>bm_df := fold dec_term ?ts (bm_df st)\<rparr>)"
    using assms by (simp add: remove_stats_def bm_core_tf)
  ultimately show ?thesis by blast
qed

lemma count_remdups: "count_list (remdups ts) t = (if t \<in> set ts then 1 else 0)"
  by (induction ts) auto

lemma upsert_chunk_core:
  assumes "bm_core st"
  shows "\<exists>st'. upsert_chunk ch st = Inr st' \<and> bm_core st'
     \<and> bm_chunks st' = AList.update (ch_chunk_id ch) ch (bm_chunks st)
     \<and> bm_k1 st' = bm_k1 st \<and> bm_b st' = bm_b st"
proof -
  let ?cid = "ch_chunk_id ch"
  let ?d = "AList.update ?cid ch (bm_chunks st)"
  obtain df where df: "(if map_of (bm_chunks st) ?cid \<noteq> None then remove_stats ?cid st else Inr st)
        = Inr (st\<lparr>bm_df := df\<rparr>)"
      "\<forall>t. counter_get df t = int (doc_count (bm_chunks st) t) - int (old_has (bm_chunks st) ?cid t)"
  proof (cases "map_of (bm_chunks st) ?cid")
    case None
    then show ?thesis
      using assms that [of "bm_df st"] by (simp add: bm_core_def old_has_def)
  next
    case (Some old)
    then show ?thesis
      using remove_stats_core [OF assms Some] that by auto
  qed
  let ?st' = "st\<lparr>bm_chunks := ?d,
      bm_tf := AList.update ?cid (counter_of (chunk_tokens ch)) (bm_tf st),
      bm_doc_len := AList.update ?cid (length (chunk_tokens ch)) (bm_doc_len st),
      bm_df := fold counter_inc (remdups (chunk_tokens ch)) df\<rparr>"
  have "upsert_chunk ch st = Inr ?st'"
    using df(1) by (simp add: upsert_chunk_def Let_def chunk_tokens_def)
  moreover have "bm_core ?st'"
  proof -
    have "counter_get (fold counter_inc (remdups (chunk_tokens ch)) df) t = int (doc_count ?d t)" for t
      using doc_count_update [of ?cid ch "bm_chunks st" t] df(2)
      by (simp add: counter_get_fold_inc count_remdups split: if_splits)
    moreover have "distinct (map fst ?d)" "\<forall>(cid, ch) \<in> set ?d. ch_chunk_id ch = cid"
      using assms by (auto simp: bm_core_def distinct_update dest!: in_update)
    ultimately show ?thesis
      using assms update_on_values [of ?cid "\<lambda>ch. counter_of (chunk_tokens ch)" ch "bm_chunks st"]
        update_on_values [of ?cid "\<lambda>ch. length (chunk_tokens ch)" ch "bm_chunks st"]
      by (simp add: bm_core_def)
  qed
  ultimately show ?thesis by auto
qed

lemma delete_chunk_core:
  assumes "bm_core st"
  shows "\<exists>st'. delete_chunk cid st = Inr st' \<and> bm_core st'
     \<and> bm_chunks st' = AList.delete cid (bm_chunks st)
     \<and> bm_k1 st' = bm_k1 st \<and> bm_b st' = bm_b st"
proof (cases "map_of (bm_chunks st) cid")
  case None
  then have "AList.delete cid (bm_chunks st) = bm_chunks st"
    by (simp add: delete_no_key map_of_eq_None_iff)
  with None assms show ?thesis by (simp add: delete_chunk_def)
next
  case (Some ch)
  obtain df where df: "remove_stats cid st = Inr (st\<lparr>bm_df := df\<rparr>)"
      "\<forall>t. counter_get df t = int (doc_count (bm_chunks st) t) - int (old_has (bm_chunks st) cid t)"
    using remove_stats_core [OF assms Some] by blast
  let ?d = "AList.delete cid (bm_chunks st)"
  let ?st' = "st\<lparr>bm_chunks := ?d, bm_tf := AList.delete cid (bm_tf st),
      bm_doc_len := AList.delete cid (bm_doc_len st), bm_df := df\<rparr>"
  have keys: "map_of (bm_tf st) cid \<noteq> None" "map_of (bm_doc_len st) cid \<noteq> None"
    using Some assms by (simp_all add: bm_core_tf bm_core_len)
  then have "delete_chunk cid st = Inr ?st'"
    using Some df(1) by (auto simp: delete_chunk_def)
  moreover have "bm_core ?st'"
  proof -
    have "distinct (map fst (bm_chunks st))"
      using assms by (simp add: bm_core_def)
    then have "counter_get df t = int (doc_count ?d t)" for t
      using doc_count_delete [of "bm_chunks st" cid t] df(2) by simp
    moreover have "distinct (map fst ?d)" "\<forall>(cid, ch) \<in> set ?d. ch_chunk_id ch = cid"
      using assms by (auto simp: bm_core_def distinct_delete)
    ultimately show ?thesis
      using assms by (simp add: bm_core_def delete_on_values)
  qed
  ultimately show ?thesis by auto
qed

lemma recompute_inv:
  assumes "bm_core st" "0 < bm_k1 st" "0 \<le> bm_b st" "bm_b st \<le> 1"
  shows "bm_inv (recompute_avgdl st)"
  using assms
  by (auto simp: bm_inv_def bm_core_def recompute_avgdl_def mean_length_def comp_def split_beta)

text \<open>The corpus after an update, as a dictionary of chunks.\<close>

datatype bm_call = Bm_Upsert "chunk list" | Bm_Delete "string list"

fun bm_apply :: "bm_call \<Rightarrow> bm25 \<Rightarrow> bm25 result" where
  "bm_apply (Bm_Upsert chunks) st = bm_upsert chunks st"
| "bm_apply (Bm_Delete ids) st = bm_delete ids st"

fun corpus_apply :: "bm_call \<Rightarrow> (string \<times> chunk) list \<Rightarrow> (string \<times> chunk) list" where
  "corpus_apply (Bm_Upsert chunks) d = fold (\<lambda>ch. AList.update (ch_chunk_id ch) ch) chunks d"
| "corpus_apply (Bm_Delete ids) d = fold AList.delete ids d"

lemma fold_core:
  assumes "bm_core st"
    and step: "\<And>x st. bm_core st \<Longrightarrow> \<exists>st'. f x st = Inr st' \<and> bm_core st'
        \<and> bm_chunks st' = g x (bm_chunks st) \<and> bm_k1 st' = bm_k1 st \<and> bm_b st' = bm_b st"
  shows "\<exists>st'. fold_result f xs st = Inr st' \<and> bm_core st'
     \<and> bm_chunks st' = fold g xs (bm_chunks st) \<and> bm_k1 st' = bm_k1 st \<and> bm_b st' = bm_b st"
  using assms(1)
proof (induction xs arbitrary: st)
  case (Cons x xs)
  obtain st1 where st1: "f x st = Inr st1" "bm_core st1" "bm_chunks st1 = g x (bm_chunks st)"
      "bm_k1 st1 = bm_k1 st" "bm_b st1 = bm_b st"
    using step [OF Cons.prems] by blast
  from Cons.IH [OF st1(2)] st1 show ?case by auto
qed simp

lemma recompute_simps [simp]:
  "bm_chunks (recompute_avgdl st) = bm_chunks st"
  "bm_k1 (recompute_avgdl st) = bm_k1 st"
  "bm_b (recompute_avgdl st) = bm_b st"
  by (simp_all add: recompute_avgdl_def)

lemma bm_apply_inv:
  assumes "bm_inv st"
  shows "\<exists>st'. bm_apply x st = Inr st' \<and> bm_inv st'
     \<and> bm_chunks st' = corpus_apply x (bm_chunks st) \<and> bm_k1 st' = bm_k1 st \<and> bm_b st' = bm_b st"
proof -
  have core: "bm_core st" and params: "0 < bm_k1 st" "0 \<le> bm_b st" "bm_b st \<le> 1"
    using assms by (simp_all add: bm_inv_def)
  show ?thesis
  proof (cases x)
    case (Bm_Upsert chunks)
    obtain st1 where "fold_result upsert_chunk chunks st = Inr st1" "bm_core st1"
        "bm_chunks st1 = fold (\<lambda>ch. AList.update (ch_chunk_id ch) ch) chunks (bm_chunks st)"
        "bm_k1 st1 = bm_k1 st" "bm_b st1 = bm_b st"
      using fold_core [OF core, where f = upsert_chunk and xs = chunks, OF upsert_chunk_core] by blast
    then show ?thesis
      using params recompute_inv [of st1] by (auto simp: Bm_Upsert bm_upsert_def)
  next
    case (Bm_Delete ids)
    obtain st1 where "fold_result delete_chunk ids st = Inr st1" "bm_core st1"
        "bm_chunks st1 = fold AList.delete ids (bm_chunks st)"
        "bm_k1 st1 = bm_k1 st" "bm_b st1 = bm_b st"
      using fold_core [OF core, where f = delete_chunk and xs = ids, OF delete_chunk_core] by blast
    then show ?thesis
      using params recompute_inv [of st1] by (auto simp: Bm_Delete bm_delete_def)
  qed
qed

lemma bm_empty_inv: "0 < k1 \<Longrightarrow> 0 \<le> b \<Longrightarrow> b \<le> 1 \<Longrightarrow> bm_inv (bm_empty k1 b)"
  by (simp add: bm_inv_def bm_core_def bm_empty_def mean_length_def doc_count_def)

section \<open>Scores and searches\<close>

lemma doc_count_le: "doc_count d t \<le> length d"
  by (simp add: doc_count_def)

lemma mean_length_nonneg: "0 \<le> mean_length d"
  by (simp add: mean_length_def)

lemma term_score_ref:
  assumes "bm_inv st" "t \<in> set (chunk_tokens ch)"
  shows "term_score st (length (bm_chunks st)) (length (chunk_tokens ch)) (counter_of (chunk_tokens ch)) t
     = Inr (ref_term (bm_k1 st) (bm_b st) (bm_chunks st) ch t)"
proof -
  let ?d = "bm_chunks st"
  let ?df = "real (doc_count ?d t)"
  let ?m = "if mean_length ?d = 0 then 1 else mean_length ?d"
  have df: "real_of_int (counter_get (bm_df st) t) = ?df" and avg: "bm_avgdl st = mean_length ?d"
    and params: "0 < bm_k1 st" "0 \<le> bm_b st" "bm_b st \<le> 1"
    using assms(1) by (simp_all add: bm_inv_def bm_core_def)
  have "?df \<le> real (length ?d)"
    using doc_count_le by simp
  then have "0 \<le> (real (length ?d) - ?df + 1 / 2) / (?df + 1 / 2)"
    by (intro divide_nonneg_nonneg) auto
  then have pos: "\<not> 1 + (real (length ?d) - ?df + 1 / 2) / (?df + 1 / 2) \<le> 0"
    by linarith
  have "0 < count_list (chunk_tokens ch) t"
    using assms(2) by (metis count_list_0_iff gr0I)
  moreover have "0 \<le> bm_k1 st * (1 - bm_b st + bm_b st * real (length (chunk_tokens ch)) / ?m)"
    using params mean_length_nonneg [of ?d] by (intro mult_nonneg_nonneg add_nonneg_nonneg) auto
  ultimately have denom: "real (count_list (chunk_tokens ch) t)
      + bm_k1 st * (1 - bm_b st + bm_b st * real (length (chunk_tokens ch)) / ?m) \<noteq> 0"
    by linarith
  show ?thesis
    using pos denom unfolding term_score_def ref_term_def Let_def df avg counter_get_of of_int_of_nat_eq
    by (simp only: if_False not_le) simp
qed

lemma score_terms_ref:
  assumes "bm_inv st"
  shows "score_terms st (length (bm_chunks st)) (length (chunk_tokens ch)) (counter_of (chunk_tokens ch)) ts x
     = Inr (x + sum_list (map (ref_term (bm_k1 st) (bm_b st) (bm_chunks st) ch)
              (filter (\<lambda>t. t \<in> set (chunk_tokens ch)) ts)))"
  by (induction ts arbitrary: x) (auto simp: term_score_ref [OF assms])

lemma bm_score_ref:
  assumes "bm_inv st" "(cid, ch) \<in> set (bm_chunks st)"
  shows "bm_score st ts cid (length (bm_chunks st))
     = Inr (ref_score (bm_k1 st) (bm_b st) (bm_chunks st) ts ch)"
proof -
  have core: "bm_core st" using assms(1) by (simp add: bm_inv_def)
  then have "map_of (bm_chunks st) cid = Some ch"
    using assms(2) by (simp add: bm_core_def)
  then show ?thesis
    using score_terms_ref [OF assms(1), of ch ts 0]
    by (simp add: bm_score_def bm_core_tf [OF core] bm_core_len [OF core] ref_score_def)
qed

definition ref_search ::
    "real \<Rightarrow> real \<Rightarrow> (string \<times> chunk) list \<Rightarrow> string \<Rightarrow> int \<Rightarrow> principal \<Rightarrow> string option \<Rightarrow> scored_chunk list" where
  "ref_search k1 b corpus q top_k p iv =
     (if tokenize q = [] then []
      else top_ranked Lexical top_k
        (filter (\<lambda>(s, ch). 0 < s)
          (map (\<lambda>(cid, ch). (ref_score k1 b corpus (tokenize q) ch, ch))
            (filter (\<lambda>(cid, ch). visible p iv ch) corpus))))"

lemma bm_search_ref:
  assumes "bm_inv st"
  shows "bm_search q k p iv st = Inr (ref_search (bm_k1 st) (bm_b st) (bm_chunks st) q k p iv)"
proof -
  let ?vis = "filter (\<lambda>(cid, ch). visible p iv ch) (bm_chunks st)"
  have "map_result (\<lambda>(cid, ch). bind_result (bm_score st (tokenize q) cid (length (bm_chunks st)))
                                  (\<lambda>s. Inr (s, ch))) ?vis
      = Inr (map (\<lambda>(cid, ch). (ref_score (bm_k1 st) (bm_b st) (bm_chunks st) (tokenize q) ch, ch)) ?vis)"
    by (rule map_result_Inr) (auto simp: bm_score_ref [OF assms])
  then show ?thesis
    by (auto simp: bm_search_def ref_search_def Let_def top_ranked_def ranked_def slice_to_def sort_desc_def)
qed

definition bm_indexed :: "bm25 \<Rightarrow> chunk set" where
  "bm_indexed st = snd ` set (bm_chunks st)"

lemma bm_search_hits:
  assumes "bm_inv st"
  shows "\<exists>hits. bm_search q k p iv st = Inr hits \<and> hits_ok p iv (bm_indexed st) k hits"
proof -
  let ?vis = "filter (\<lambda>(cid, ch). visible p iv ch) (bm_chunks st)"
  let ?scored = "filter (\<lambda>(s, ch). 0 < s)
      (map (\<lambda>(cid, ch). (ref_score (bm_k1 st) (bm_b st) (bm_chunks st) (tokenize q) ch, ch)) ?vis)"
  have core: "distinct (map fst (bm_chunks st))" "\<forall>(cid, ch) \<in> set (bm_chunks st). ch_chunk_id ch = cid"
    using assms by (simp_all add: bm_inv_def bm_core_def)
  have "map (ch_chunk_id \<circ> snd) ?vis = map fst ?vis"
    using core(2) by auto
  moreover have "distinct (map fst ?vis)"
    using core(1) by (rule distinct_map_filter)
  ultimately have "distinct (map (ch_chunk_id \<circ> snd) ?vis)"
    by (simp only:)
  then have "distinct (map (ch_chunk_id \<circ> snd)
      (map (\<lambda>(cid, ch). (ref_score (bm_k1 st) (bm_b st) (bm_chunks st) (tokenize q) ch, ch)) ?vis))"
    by (simp add: comp_def split_beta)
  then have "distinct (map (ch_chunk_id \<circ> snd) ?scored)"
    by (rule distinct_map_filter)
  moreover have "\<forall>(s, ch) \<in> set ?scored. visible p iv ch \<and> ch \<in> bm_indexed st"
    by (auto simp: bm_indexed_def intro: rev_image_eqI)
  ultimately have "hits_ok p iv (bm_indexed st) k (top_ranked Lexical k ?scored)"
    using hits_ok_top_ranked by blast
  moreover have "hits_ok p iv (bm_indexed st) k []"
    by (simp add: hits_ok_def)
  ultimately show ?thesis
    by (simp add: bm_search_ref [OF assms] ref_search_def)
qed

interpretation bm: acl_search bm_search bm_indexed bm_inv
  by unfold_locales (rule bm_search_hits)

text \<open>
  C18: the incrementally maintained BM25 index refines the textbook one: whatever batches of
  chunks were upserted and deleted, no call raised, the chunks held are those of the dictionary
  of chunks under the same updates, and every search answers as if document frequencies, term
  frequencies, lengths and the average length were recomputed from that dictionary.
\<close>

theorem bm_run_refines:
  assumes "0 < k1" "0 \<le> b" "b \<le> 1"
  shows "\<exists>st. fold_result bm_apply calls (bm_empty k1 b) = Inr st
     \<and> bm_chunks st = fold corpus_apply calls []
     \<and> (\<forall>q top_k p iv. bm_search q top_k p iv st
           = Inr (ref_search k1 b (fold corpus_apply calls []) q top_k p iv))"
proof -
  have run: "\<exists>st'. fold_result bm_apply calls st = Inr st' \<and> bm_inv st'
      \<and> bm_chunks st' = fold corpus_apply calls (bm_chunks st) \<and> bm_k1 st' = bm_k1 st \<and> bm_b st' = bm_b st"
    if "bm_inv st" for st
    using that
  proof (induction calls arbitrary: st)
    case (Cons x calls)
    obtain st1 where "bm_apply x st = Inr st1" "bm_inv st1" "bm_chunks st1 = corpus_apply x (bm_chunks st)"
        "bm_k1 st1 = bm_k1 st" "bm_b st1 = bm_b st"
      using bm_apply_inv [OF Cons.prems, of x] by blast
    with Cons.IH [of st1] show ?case by auto
  qed simp
  obtain st where "fold_result bm_apply calls (bm_empty k1 b) = Inr st" "bm_inv st"
      "bm_chunks st = fold corpus_apply calls []" "bm_k1 st = k1" "bm_b st = b"
    using run [OF bm_empty_inv [OF assms]] by (auto simp: bm_empty_def)
  then show ?thesis
    using bm_search_ref by auto
qed

lemma bm_run_refines_witness:
  "let ch = \<lparr>ch_chunk_id = ''c1'', ch_doc_id = ''d'', ch_ordinal = 0, ch_text = ''some text'', ch_span = (0, 9),
        ch_acl = \<lparr>acl_tenant = ''acme'', acl_allow_groups = {}, acl_classification = ''internal''\<rparr>,
        ch_index_version = ''v1'', ch_embedding_model = None, ch_metadata = []\<rparr>;
      calls = [Bm_Upsert [ch, ch\<lparr>ch_chunk_id := ''c2''\<rparr>], Bm_Delete [''c1'']] in
   \<exists>st. fold_result bm_apply calls (bm_empty (3 / 2) (3 / 4)) = Inr st
     \<and> bm_chunks st = fold corpus_apply calls []
     \<and> (\<forall>q top_k p iv. bm_search q top_k p iv st
           = Inr (ref_search (3 / 2) (3 / 4) (fold corpus_apply calls []) q top_k p iv))"
  unfolding Let_def by (rule bm_run_refines) simp_all

end
