(* ===== verification/Hybrid.thy ===== *)
theory Hybrid
  imports Bm25
begin

text \<open>
  \<open>src/rag/retrieval\<close> and \<open>src/rag/rerank\<close>: reciprocal rank fusion, the hybrid retriever over a
  dense and a lexical index, and the rerankers. The searches, the embedder and the cross
  encoder's model are arguments; the locale \<open>hybrid_legs\<close> puts two \<open>acl_search\<close> indexes together
  and is interpreted on the in-memory stores.
\<close>

section \<open>Definitions\<close>

record acl_filter =
  af_tenant :: string
  af_groups :: "string set"
  af_fingerprint :: string
  af_index_version :: "string option"

definition filter_for_principal :: "principal \<Rightarrow> string option \<Rightarrow> acl_filter" where
  "filter_for_principal p iv = \<lparr>af_tenant = pr_tenant p, af_groups = pr_groups p,
     af_fingerprint = acl_fingerprint p, af_index_version = iv\<rparr>"

definition filter_as_dict :: "acl_filter \<Rightarrow> json_dict" where
  "filter_as_dict f =
     [(''tenant'', JStr (af_tenant f)),
      (''groups'', JList (map JStr (sorted_list_of_set (af_groups f)))),
      (''fingerprint'', JStr (af_fingerprint f)),
      (''index_version'', (case af_index_version f of None \<Rightarrow> JNull | Some v \<Rightarrow> JStr v))]"

text \<open>
  The two dictionaries of \<open>reciprocal_rank_fusion\<close>: the summed scores and, for every chunk id,
  the item with the best own score.
\<close>

type_synonym fusion = "(string \<times> real) list \<times> (string \<times> scored_chunk) list"

abbreviation item_id :: "scored_chunk \<Rightarrow> string" where
  "item_id h \<equiv> ch_chunk_id (sc_chunk h)"

definition fuse_item :: "int \<Rightarrow> real \<Rightarrow> scored_chunk \<Rightarrow> fusion \<Rightarrow> fusion result" where
  "fuse_item k w item f =
     (let (scores, best) = f; cid = item_id item in
      if k + int (sc_rank item) = 0 then Inl ZeroDivisionError
      else Inr
        (AList.update cid
           ((case map_of scores cid of None \<Rightarrow> 0 | Some s \<Rightarrow> s)
              + w * (1 / real_of_int (k + int (sc_rank item)))) scores,
         (case map_of best cid of
            None \<Rightarrow> AList.update cid item best
          | Some b \<Rightarrow> if sc_score b < sc_score item then AList.update cid item best else best)))"

definition fuse_list :: "int \<Rightarrow> real \<times> scored_chunk list \<Rightarrow> fusion \<Rightarrow> fusion result" where
  "fuse_list k wl f = fold_result (fuse_item k (fst wl)) (snd wl) f"

definition reciprocal_rank_fusion ::
    "scored_chunk list list \<Rightarrow> int \<Rightarrow> real list option \<Rightarrow> scored_chunk list result" where
  "reciprocal_rank_fusion ranked_lists k weights =
     (let ws = (case weights of None \<Rightarrow> replicate (length ranked_lists) 1 | Some ws \<Rightarrow> ws) in
      if length ws \<noteq> length ranked_lists then Inl (ValueError ''weights length must match ranked_lists'')
      else bind_result (fold_result (fuse_list k) (zip ws ranked_lists) ([], []))
        (\<lambda>(scores, best).
          bind_result
            (map_result (\<lambda>(cid, s). case map_of best cid of
                 None \<Rightarrow> Inl (KeyError cid) | Some b \<Rightarrow> Inr (s, sc_chunk b)) (sort_desc snd scores))
            (\<lambda>fused. Inr (ranked Fused fused))))"

record hybrid_cfg =
  hy_rrf_k :: int
  hy_dense_weight :: real
  hy_lexical_weight :: real

definition retrieve_multi ::
    "(real list \<Rightarrow> int \<Rightarrow> principal \<Rightarrow> string option \<Rightarrow> 's \<Rightarrow> scored_chunk list result)
     \<Rightarrow> (string \<Rightarrow> int \<Rightarrow> principal \<Rightarrow> string option \<Rightarrow> 't \<Rightarrow> scored_chunk list result)
     \<Rightarrow> (string list \<Rightarrow> real list list) \<Rightarrow> hybrid_cfg \<Rightarrow> 's \<Rightarrow> 't
     \<Rightarrow> string list \<Rightarrow> principal \<Rightarrow> int \<Rightarrow> string option \<Rightarrow> string list option
     \<Rightarrow> scored_chunk list result" where
  "retrieve_multi dsearch lsearch emb cfg dst lst queries p top_k iv dense_queries =
     (if queries = [] then Inr []
      else
        let dense_texts = (case dense_queries of None \<Rightarrow> queries | Some ds \<Rightarrow> if ds = [] then queries else ds) in
        if length dense_texts \<noteq> length queries
        then Inl (ValueError ''dense_queries length must match queries'')
        else
          bind_result (map_result (\<lambda>v. dsearch v top_k p iv dst) (emb dense_texts)) (\<lambda>dense_hits.
          bind_result (map_result (\<lambda>q. lsearch q top_k p iv lst) queries) (\<lambda>lexical_hits.
          bind_result
            (reciprocal_rank_fusion (dense_hits @ lexical_hits) (hy_rrf_k cfg)
              (Some (replicate (length dense_hits) (hy_dense_weight cfg)
                     @ replicate (length lexical_hits) (hy_lexical_weight cfg)))) (\<lambda>fused.
          let filtered = filter (\<lambda>s. is_allowed p (ch_acl (sc_chunk s))) fused in
          Inr (ranked Fused (map (\<lambda>s. (sc_score s, sc_chunk s)) (slice_to filtered top_k)))))))"

definition retrieve ::
    "(real list \<Rightarrow> int \<Rightarrow> principal \<Rightarrow> string option \<Rightarrow> 's \<Rightarrow> scored_chunk list result)
     \<Rightarrow> (string \<Rightarrow> int \<Rightarrow> principal \<Rightarrow> string option \<Rightarrow> 't \<Rightarrow> scored_chunk list result)
     \<Rightarrow> (string list \<Rightarrow> real list list) \<Rightarrow> hybrid_cfg \<Rightarrow> 's \<Rightarrow> 't
     \<Rightarrow> string \<Rightarrow> principal \<Rightarrow> int \<Rightarrow> string option \<Rightarrow> string option \<Rightarrow> scored_chunk list result" where
  "retrieve dsearch lsearch emb cfg dst lst q p top_k iv dense_query =
     retrieve_multi dsearch lsearch emb cfg dst lst [q] p top_k iv
       (Some [case dense_query of None \<Rightarrow> q | Some d \<Rightarrow> str_or d q])"

definition identity_rerank :: "string \<Rightarrow> scored_chunk list \<Rightarrow> int \<Rightarrow> scored_chunk list result" where
  "identity_rerank q candidates top_k =
     Inr (ranked Rerank (map (\<lambda>c. (sc_score c, sc_chunk c)) (slice_to candidates top_k)))"

definition cross_encoder_rerank ::
    "((string \<times> string) list \<Rightarrow> real list) \<Rightarrow> string \<Rightarrow> scored_chunk list \<Rightarrow> int \<Rightarrow> scored_chunk list result" where
  "cross_encoder_rerank predict q candidates top_k =
     (if candidates = [] then Inr []
      else let scores = predict (map (\<lambda>c. (q, ch_text (sc_chunk c))) candidates) in
        if length scores \<noteq> length candidates then Inl (ValueError ''zip() arguments differ in length'')
        else Inr (ranked Rerank (map (\<lambda>(c, s). (s, sc_chunk c))
               (slice_to (sort_desc snd (zip candidates scores)) top_k))))"

section \<open>Fusion computes the weighted reciprocal ranks\<close>

text \<open>The score the documentation promises: the sum of \<open>w_i / (k + rank_i)\<close>.\<close>

definition list_part :: "int \<Rightarrow> string \<Rightarrow> real \<times> scored_chunk list \<Rightarrow> real" where
  "list_part k cid wl =
     sum_list (map (\<lambda>h. fst wl * (1 / real_of_int (k + int (sc_rank h))))
       (filter (\<lambda>h. item_id h = cid) (snd wl)))"

definition rrf_total :: "int \<Rightarrow> (real \<times> scored_chunk list) list \<Rightarrow> string \<Rightarrow> real" where
  "rrf_total k wls cid = sum_list (map (list_part k cid) wls)"

definition score_of :: "(string \<times> real) list \<Rightarrow> string \<Rightarrow> real" where
  "score_of scores cid = (case map_of scores cid of None \<Rightarrow> 0 | Some s \<Rightarrow> s)"

text \<open>Both dictionaries have the same keys, once each, and \<open>best\<close> holds items of the lists.\<close>

definition fusion_ok :: "scored_chunk set \<Rightarrow> fusion \<Rightarrow> bool" where
  "fusion_ok H f \<longleftrightarrow> distinct (map fst (fst f)) \<and> dom (map_of (fst f)) = dom (map_of (snd f))
     \<and> dom (map_of (fst f)) = item_id ` H
     \<and> (\<forall>cid h. map_of (snd f) cid = Some h \<longrightarrow>
           item_id h = cid \<and> h \<in> H \<and> (\<forall>g \<in> H. item_id g = cid \<longrightarrow> sc_score g \<le> sc_score h))"

lemma fusion_okD:
  assumes "fusion_ok H (scores, best)"
  shows "distinct (map fst scores)" "dom (map_of scores) = dom (map_of best)"
    "dom (map_of scores) = item_id ` H"
    "map_of best cid = Some h \<Longrightarrow> item_id h = cid \<and> h \<in> H
        \<and> (\<forall>g \<in> H. item_id g = cid \<longrightarrow> sc_score g \<le> sc_score h)"
  using assms unfolding fusion_ok_def fst_conv snd_conv by blast+

lemma fuse_item_ok:
  assumes "fusion_ok H f" "k + int (sc_rank item) \<noteq> 0"
  shows "\<exists>f'. fuse_item k w item f = Inr f' \<and> fusion_ok (insert item H) f'
     \<and> (\<forall>cid. score_of (fst f') cid = score_of (fst f) cid
           + (if item_id item = cid then w * (1 / real_of_int (k + int (sc_rank item))) else 0))"
proof -
  obtain scores best where f: "f = (scores, best)" by fastforce
  let ?cid = "item_id item"
  let ?best = "case map_of best ?cid of None \<Rightarrow> AList.update ?cid item best
      | Some b \<Rightarrow> if sc_score b < sc_score item then AList.update ?cid item best else best"
  let ?scores = "AList.update ?cid (score_of scores ?cid + w * (1 / real_of_int (k + int (sc_rank item)))) scores"
  have eq: "fuse_item k w item f = Inr (?scores, ?best)"
    using assms(2) by (simp add: fuse_item_def f Let_def score_of_def)
  note dom = fusion_okD(2,3) [OF assms(1) [unfolded f]]
    and best = fusion_okD(4) [OF assms(1) [unfolded f]]
  have fresh: "?cid \<notin> item_id ` H" if "map_of best ?cid = None"
    using that dom by (metis domIff)
  have "fusion_ok (insert item H) (?scores, ?best)"
  proof (cases "map_of best ?cid")
    case None
    then have "\<forall>g \<in> H. item_id g \<noteq> ?cid" using fresh [OF None] by (metis imageI)
    with None dom best assms(1) show ?thesis
      by (auto simp: fusion_ok_def f distinct_update split: if_splits)
  next
    case (Some b)
    then have "?cid \<in> dom (map_of best)" by blast
    moreover have "\<forall>h \<in> H. \<exists>y. map_of best (item_id h) = Some y"
      using dom by (metis domD imageI)
    ultimately show ?thesis
      using Some dom best [of ?cid b] best assms(1)
      by (fastforce simp: fusion_ok_def f distinct_update insert_absorb split: if_splits)
  qed
  then show ?thesis
    using eq by (auto simp: score_of_def f)
qed

lemma fuse_list_ok:
  assumes "fusion_ok H f" "\<forall>h \<in> set (snd wl). k + int (sc_rank h) \<noteq> 0"
  shows "\<exists>f'. fuse_list k wl f = Inr f' \<and> fusion_ok (set (snd wl) \<union> H) f'
     \<and> (\<forall>cid. score_of (fst f') cid = score_of (fst f) cid + list_part k cid wl)"
proof -
  obtain w hs where wl: "wl = (w, hs)" by fastforce
  have "\<exists>f'. fold_result (fuse_item k w) hs f = Inr f' \<and> fusion_ok (set hs \<union> H) f'
     \<and> (\<forall>cid. score_of (fst f') cid = score_of (fst f) cid + list_part k cid (w, hs))"
    using assms unfolding wl snd_conv
  proof (induction hs arbitrary: f H)
    case Nil
    then show ?case by (simp add: list_part_def)
  next
    case (Cons h hs)
    then have "k + int (sc_rank h) \<noteq> 0" by simp
    from fuse_item_ok [OF Cons.prems(1) this] obtain f1
      where f1: "fuse_item k w h f = Inr f1" "fusion_ok (insert h H) f1"
        "\<forall>cid. score_of (fst f1) cid = score_of (fst f) cid
           + (if item_id h = cid then w * (1 / real_of_int (k + int (sc_rank h))) else 0)"
      by blast
    from Cons.IH [OF f1(2)] Cons.prems(2) obtain f2
      where "fold_result (fuse_item k w) hs f1 = Inr f2" "fusion_ok (set hs \<union> insert h H) f2"
        "\<forall>cid. score_of (fst f2) cid = score_of (fst f1) cid + list_part k cid (w, hs)"
      by auto
    with f1 show ?case
      by (auto simp: list_part_def)
  qed
  then show ?thesis by (simp add: fuse_list_def wl)
qed

lemma fuse_lists_ok:
  assumes "fusion_ok H f" "\<forall>wl \<in> set wls. \<forall>h \<in> set (snd wl). k + int (sc_rank h) \<noteq> 0"
  shows "\<exists>f'. fold_result (fuse_list k) wls f = Inr f' \<and> fusion_ok (\<Union> (set ` snd ` set wls) \<union> H) f'
     \<and> (\<forall>cid. score_of (fst f') cid = score_of (fst f) cid + rrf_total k wls cid)"
  using assms
proof (induction wls arbitrary: f H)
  case Nil
  then show ?case by (simp add: rrf_total_def)
next
  case (Cons wl wls)
  then have "\<forall>h \<in> set (snd wl). k + int (sc_rank h) \<noteq> 0" by simp
  from fuse_list_ok [OF Cons.prems(1) this] obtain f1
    where f1: "fuse_list k wl f = Inr f1" "fusion_ok (set (snd wl) \<union> H) f1"
      "\<forall>cid. score_of (fst f1) cid = score_of (fst f) cid + list_part k cid wl"
    by blast
  from Cons.IH [OF f1(2)] Cons.prems(2) obtain f2
    where "fold_result (fuse_list k) wls f1 = Inr f2"
      "fusion_ok (\<Union> (set ` snd ` set wls) \<union> (set (snd wl) \<union> H)) f2"
      "\<forall>cid. score_of (fst f2) cid = score_of (fst f1) cid + rrf_total k wls cid"
    by auto
  with f1 show ?case
    by (auto simp: rrf_total_def Un_ac)
qed

text \<open>The contract of the fused list.\<close>

definition fused_ok :: "int \<Rightarrow> (real \<times> scored_chunk list) list \<Rightarrow> scored_chunk list \<Rightarrow> bool" where
  "fused_ok k wls hits \<longleftrightarrow>
     distinct (map item_id hits)
     \<and> item_id ` set hits = item_id ` \<Union> (set ` snd ` set wls)
     \<and> (\<forall>h \<in> set hits. sc_score h = rrf_total k wls (item_id h)
          \<and> (\<exists>g \<in> \<Union> (set ` snd ` set wls). sc_chunk h = sc_chunk g))
     \<and> sorted_wrt (\<lambda>g h. sc_score h \<le> sc_score g) hits
     \<and> map sc_rank hits = [1 ..< Suc (length hits)]"

lemma rrf_ok:
  assumes "length weights = length ranked_lists"
    and "\<forall>hits \<in> set ranked_lists. \<forall>h \<in> set hits. k + int (sc_rank h) \<noteq> 0"
  shows "\<exists>hits. reciprocal_rank_fusion ranked_lists k (Some weights) = Inr hits
     \<and> fused_ok k (zip weights ranked_lists) hits"
proof -
  let ?wls = "zip weights ranked_lists"
  let ?H = "\<Union> (set ` snd ` set ?wls)"
  have "fusion_ok {} ([], [])" by (simp add: fusion_ok_def)
  moreover have "\<forall>wl \<in> set ?wls. \<forall>h \<in> set (snd wl). k + int (sc_rank h) \<noteq> 0"
    using assms(2) by (auto dest: set_zip_rightD)
  ultimately obtain scores best
    where run: "fold_result (fuse_list k) ?wls ([], []) = Inr (scores, best)"
      and ok: "fusion_ok ?H (scores, best)" and total: "\<And>cid. score_of scores cid = rrf_total k ?wls cid"
    using fuse_lists_ok [of "{}" "([], [])" ?wls k] by (fastforce simp: score_of_def)
  note keys = fusion_okD(2,3,1) [OF ok]
  let ?g = "\<lambda>(cid, s). (s, sc_chunk (the (map_of best cid)))"
  let ?sorted = "sort_desc snd scores"
  have some: "\<exists>b. map_of best cid = Some b \<and> item_id b = cid \<and> b \<in> ?H" if "(cid, s) \<in> set scores" for cid s
  proof -
    have "map_of scores cid = Some s"
      using that keys(3) by simp
    then have "cid \<in> dom (map_of best)"
      unfolding keys(1) [symmetric] by (rule domI)
    then obtain b where b: "map_of best cid = Some b" by blast
    from fusion_okD(4) [OF ok b] b show ?thesis
      by (intro exI [of _ b]) (simp only: simp_thms)
  qed
  have "map_result (\<lambda>(cid, s). case map_of best cid of None \<Rightarrow> Inl (KeyError cid)
      | Some b \<Rightarrow> Inr (s, sc_chunk b)) ?sorted = Inr (map ?g ?sorted)"
    by (rule map_result_Inr) (use some in fastforce)
  then have eq: "reciprocal_rank_fusion ranked_lists k (Some weights) = Inr (ranked Fused (map ?g ?sorted))"
    using assms(1) run by (simp add: reciprocal_rank_fusion_def)
  let ?hits = "ranked Fused (map ?g ?sorted)"
  have ids: "map item_id ?hits = map fst ?sorted"
  proof -
    have "map item_id ?hits = map ch_chunk_id (map sc_chunk ?hits)" by simp
    also have "\<dots> = map ch_chunk_id (map snd (map ?g ?sorted))" by (simp only: ranked_simps)
    also have "\<dots> = map fst ?sorted" using some by fastforce
    finally show ?thesis .
  qed
  have scores: "map sc_score ?hits = map snd ?sorted"
    by (simp add: ranked_simps split_beta)
  show ?thesis
  proof (intro exI conjI, rule eq, unfold fused_ok_def, intro conjI)
    show "distinct (map item_id ?hits)"
      using keys(3) by (simp add: ids)
    have "item_id ` set ?hits = fst ` set scores"
      using ids by (metis list.set_map set_sort_desc)
    then show "item_id ` set ?hits = item_id ` ?H"
      using keys by (simp add: dom_map_of_conv_image_fst)
    show "sorted_wrt (\<lambda>g h. sc_score h \<le> sc_score g) ?hits"
      unfolding sorted_wrt_score scores sorted_wrt_map by (rule sorted_wrt_sort_desc)
    show "map sc_rank ?hits = [1 ..< Suc (length ?hits)]"
      by (simp only: ranked_simps)
    show "\<forall>h \<in> set ?hits. sc_score h = rrf_total k ?wls (item_id h) \<and> (\<exists>g \<in> ?H. sc_chunk h = sc_chunk g)"
    proof
      fix h
      assume "h \<in> set ?hits"
      then obtain i where i: "i < length ?hits" "h = ?hits ! i" by (metis in_set_conv_nth)
      then have len: "i < length ?sorted" by (simp add: ranked_simps)
      obtain cid s where cs: "?sorted ! i = (cid, s)" by fastforce
      have mem: "(cid, s) \<in> set scores" using len cs by (metis nth_mem set_sort_desc)
      have h: "sc_score h = s" "sc_chunk h = sc_chunk (the (map_of best cid))"
        using i len cs by (simp_all add: ranked_nth)
      moreover have "item_id h = cid"
        using h(2) some [OF mem] by auto
      moreover have "score_of scores cid = s"
        using mem keys(3) by (simp add: score_of_def)
      ultimately show "sc_score h = rrf_total k ?wls (item_id h) \<and> (\<exists>g \<in> ?H. sc_chunk h = sc_chunk g)"
        using total some [OF mem] by (metis option.sel)
    qed
  qed
qed

text \<open>
  C19: reciprocal rank fusion computes what its documentation says: with one weight per list and
  ranks that keep \<open>k + rank\<close> away from zero it succeeds, lists every chunk id of the inputs
  exactly once, scores it with the sum of \<open>w_i / (k + rank_i)\<close> over its occurrences, shows a
  chunk one of the inputs held, and ranks by falling score from 1.
\<close>

theorem rrf_functional:
  assumes "length weights = length ranked_lists"
    and "\<forall>hits \<in> set ranked_lists. \<forall>h \<in> set hits. k + int (sc_rank h) \<noteq> 0"
  shows "\<exists>hits. reciprocal_rank_fusion ranked_lists k (Some weights) = Inr hits
     \<and> distinct (map item_id hits)
     \<and> item_id ` set hits = item_id ` \<Union> (set ` snd ` set (zip weights ranked_lists))
     \<and> (\<forall>h \<in> set hits. sc_score h = rrf_total k (zip weights ranked_lists) (item_id h)
          \<and> (\<exists>g \<in> \<Union> (set ` snd ` set (zip weights ranked_lists)). sc_chunk h = sc_chunk g))
     \<and> sorted_wrt (\<lambda>g h. sc_score h \<le> sc_score g) hits
     \<and> map sc_rank hits = [1 ..< Suc (length hits)]"
  using rrf_ok [OF assms] unfolding fused_ok_def .

lemma rrf_functional_witness:
  "let lss = [[example_hit ''a'' ''acme'' 5 1, example_hit ''b'' ''acme'' 4 2], [example_hit ''b'' ''acme'' 9 1]];
       ws = [1, 2]
   in \<exists>hits. reciprocal_rank_fusion lss 60 (Some ws) = Inr hits
     \<and> distinct (map item_id hits)
     \<and> item_id ` set hits = item_id ` \<Union> (set ` snd ` set (zip ws lss))
     \<and> (\<forall>h \<in> set hits. sc_score h = rrf_total 60 (zip ws lss) (item_id h)
          \<and> (\<exists>g \<in> \<Union> (set ` snd ` set (zip ws lss)). sc_chunk h = sc_chunk g))
     \<and> sorted_wrt (\<lambda>g h. sc_score h \<le> sc_score g) hits
     \<and> map sc_rank hits = [1 ..< Suc (length hits)]"
  unfolding Let_def by (rule rrf_functional) (simp_all add: example_defs)

section \<open>The hybrid retriever\<close>

text \<open>Cutting and renumbering an ordered list keeps the order.\<close>

lemma rerank_cut:
  "map sc_chunk (ranked r (map (\<lambda>s. (sc_score s, sc_chunk s)) xs)) = map sc_chunk xs"
  "map sc_score (ranked r (map (\<lambda>s. (sc_score s, sc_chunk s)) xs)) = map sc_score xs"
  "map sc_rank (ranked r (map (\<lambda>s. (sc_score s, sc_chunk s)) xs)) = [1 ..< Suc (length xs)]"
  "length (ranked r (map (\<lambda>s. (sc_score s, sc_chunk s)) xs)) = length xs"
  by (simp_all add: ranked_simps del: upt_Suc)

lemma rerank_cut_all:
  assumes "\<forall>x \<in> set xs. P (sc_chunk x)"
  shows "\<forall>h \<in> set (ranked r (map (\<lambda>s. (sc_score s, sc_chunk s)) xs)). P (sc_chunk h)"
proof -
  have "list_all P (map sc_chunk (ranked r (map (\<lambda>s. (sc_score s, sc_chunk s)) xs)))"
    unfolding rerank_cut using assms by (simp add: list_all_iff)
  then show ?thesis
    by (simp add: list_all_iff)
qed

lemma rrf_result:
  assumes "reciprocal_rank_fusion lss k (Some ws) = Inr fused"
  shows "length ws = length lss"
  using assms by (simp add: reciprocal_rank_fusion_def split: if_splits)

text \<open>What \<open>retrieve_multi\<close> returns, whatever the searches are.\<close>

lemma retrieve_multi_cases:
  assumes "retrieve_multi dsearch lsearch emb cfg dst lst queries p top_k iv dqs = Inr hits"
  obtains "hits = []"
  | dh lh fused where
      "map_result (\<lambda>v. dsearch v top_k p iv dst)
         (emb (case dqs of None \<Rightarrow> queries | Some ds \<Rightarrow> if ds = [] then queries else ds)) = Inr dh"
      "map_result (\<lambda>q. lsearch q top_k p iv lst) queries = Inr lh"
      "reciprocal_rank_fusion (dh @ lh) (hy_rrf_k cfg)
         (Some (replicate (length dh) (hy_dense_weight cfg) @ replicate (length lh) (hy_lexical_weight cfg)))
       = Inr fused"
      "hits = ranked Fused (map (\<lambda>s. (sc_score s, sc_chunk s))
         (slice_to (filter (\<lambda>s. is_allowed p (ch_acl (sc_chunk s))) fused) top_k))"
  using assms by (auto simp: retrieve_multi_def Let_def split: if_splits)

lemma retrieve_multi_safe:
  assumes "retrieve_multi dsearch lsearch emb cfg dst lst queries p top_k iv dqs = Inr hits"
  shows "(\<forall>h \<in> set hits. is_allowed p (ch_acl (sc_chunk h))) \<and> (0 \<le> top_k \<longrightarrow> int (length hits) \<le> top_k)
     \<and> map sc_rank hits = [1 ..< Suc (length hits)]"
  using assms
proof (cases rule: retrieve_multi_cases)
  case 1
  then show ?thesis by simp
next
  case (2 dh lh fused)
  let ?xs = "slice_to (filter (\<lambda>s. is_allowed p (ch_acl (sc_chunk s))) fused) top_k"
  have "\<forall>x \<in> set ?xs. is_allowed p (ch_acl (sc_chunk x))"
    using set_slice_to [of _ _ top_k] by fastforce
  then have "\<forall>h \<in> set hits. is_allowed p (ch_acl (sc_chunk h))"
    unfolding 2(4) by (rule rerank_cut_all)
  moreover have "0 \<le> top_k \<longrightarrow> int (length hits) \<le> top_k"
    using length_slice_to_bound [of top_k] unfolding 2(4) rerank_cut by blast
  moreover have "map sc_rank hits = [1 ..< Suc (length hits)]"
    unfolding 2(4) rerank_cut by (rule refl)
  ultimately show ?thesis by (intro conjI)
qed

text \<open>
  defence in depth: whatever the two indexes return, even ones that ignore access control
  and the limit altogether, every chunk the hybrid retriever returns is one the caller may see,
  there are at most \<open>top_k\<close> of them and they are ranked 1, 2, ...
\<close>

theorem retrieve_safe_any_backend:
  assumes "retrieve_multi dsearch lsearch emb cfg dst lst queries p top_k iv dqs = Inr hits"
    and "0 \<le> top_k"
  shows "(\<forall>h \<in> set hits. is_allowed p (ch_acl (sc_chunk h))) \<and> int (length hits) \<le> top_k
     \<and> map sc_rank hits = [1 ..< Suc (length hits)]"
  using retrieve_multi_safe [OF assms(1)] assms(2) by blast

lemma retrieve_safe_any_backend_witness:
  "let hits = [example_hit ''b'' ''acme'' (1 / 62) 1]
   in (\<forall>h \<in> set hits. is_allowed example_caller (ch_acl (sc_chunk h))) \<and> int (length hits) \<le> 5
     \<and> map sc_rank hits = [1 ..< Suc (length hits)]"
proof -
  let ?leak = "\<lambda>v k p iv st. Inr [example_hit ''a'' ''other'' 9 1, example_hit ''b'' ''acme'' 8 2]"
  have "retrieve_multi ?leak (\<lambda>q k p iv st. Inr []) (\<lambda>ts. [[1]])
      \<lparr>hy_rrf_k = 60, hy_dense_weight = 1, hy_lexical_weight = 1\<rparr> () () [''q''] example_caller 5 None None
    = Inr [example_hit ''b'' ''acme'' (1 / 62) 1]"
    by (simp add: retrieve_multi_def reciprocal_rank_fusion_def fuse_list_def fuse_item_def
        sort_desc_def ranked_def slice_to_def is_allowed_def Let_def example_defs)
  from retrieve_safe_any_backend [OF this] show ?thesis
    unfolding Let_def by (simp only:) simp
qed

text \<open>Two indexes that keep the search contract, side by side.\<close>

locale hybrid_legs =
  dense: acl_search dsearch dindexed dinv + lexical: acl_search lsearch lindexed linv
  for dsearch :: "real list \<Rightarrow> int \<Rightarrow> principal \<Rightarrow> string option \<Rightarrow> 's \<Rightarrow> scored_chunk list result"
    and dindexed :: "'s \<Rightarrow> chunk set" and dinv :: "'s \<Rightarrow> bool"
    and lsearch :: "string \<Rightarrow> int \<Rightarrow> principal \<Rightarrow> string option \<Rightarrow> 't \<Rightarrow> scored_chunk list result"
    and lindexed :: "'t \<Rightarrow> chunk set" and linv :: "'t \<Rightarrow> bool"
begin

lemma retrieve_multi_hits:
  assumes "dinv dst" "linv lst" "0 \<le> hy_rrf_k cfg" "0 \<le> top_k"
    and "dqs = None \<or> dqs = Some [] \<or> (\<exists>ds. dqs = Some ds \<and> length ds = length queries)"
  shows "\<exists>hits. retrieve_multi dsearch lsearch emb cfg dst lst queries p top_k iv dqs = Inr hits
     \<and> hits_ok p iv (dindexed dst \<union> lindexed lst) top_k hits"
proof (cases "queries = []")
  case True
  with assms(4) show ?thesis by (simp add: retrieve_multi_def hits_ok_def)
next
  case False
  let ?texts = "case dqs of None \<Rightarrow> queries | Some ds \<Rightarrow> if ds = [] then queries else ds"
  let ?I = "dindexed dst \<union> lindexed lst"
  obtain dh where dh: "map_result (\<lambda>v. dsearch v top_k p iv dst) (emb ?texts) = Inr dh"
      "\<forall>hits \<in> set dh. hits_ok p iv (dindexed dst) top_k hits"
    by (rule dense.search_runs [OF assms(1)])
  obtain lh where lh: "map_result (\<lambda>q. lsearch q top_k p iv lst) queries = Inr lh"
      "\<forall>hits \<in> set lh. hits_ok p iv (lindexed lst) top_k hits"
    by (rule lexical.search_runs [OF assms(2)])
  let ?ws = "replicate (length dh) (hy_dense_weight cfg) @ replicate (length lh) (hy_lexical_weight cfg)"
  let ?wls = "zip ?ws (dh @ lh)"
  have good: "visible p iv (sc_chunk h) \<and> sc_chunk h \<in> ?I \<and> 1 \<le> sc_rank h"
    if "hits \<in> set (dh @ lh)" "h \<in> set hits" for hits h
  proof -
    from that(1) dh(2) lh(2) obtain J where J: "hits_ok p iv J top_k hits" "J \<subseteq> ?I"
      by auto
    then have "sc_rank h \<in> set [1 ..< Suc (length hits)]"
      using that(2) unfolding hits_ok_def by (metis image_eqI list.set_map)
    with J that(2) show ?thesis by (auto simp: hits_ok_def)
  qed
  have nz: "\<forall>hits \<in> set (dh @ lh). \<forall>h \<in> set hits. hy_rrf_k cfg + int (sc_rank h) \<noteq> 0"
  proof (intro ballI)
    fix hits h
    assume "hits \<in> set (dh @ lh)" "h \<in> set hits"
    then have "1 \<le> sc_rank h" using good by blast
    with assms(3) show "hy_rrf_k cfg + int (sc_rank h) \<noteq> 0" by linarith
  qed
  have "length ?ws = length (dh @ lh)" by simp
  from rrf_ok [OF this nz] obtain fused
    where fused: "reciprocal_rank_fusion (dh @ lh) (hy_rrf_k cfg) (Some ?ws) = Inr fused"
      "fused_ok (hy_rrf_k cfg) ?wls fused"
    by blast
  let ?allowed = "filter (\<lambda>s. is_allowed p (ch_acl (sc_chunk s))) fused"
  let ?cut = "slice_to ?allowed top_k"
  let ?hits = "ranked Fused (map (\<lambda>s. (sc_score s, sc_chunk s)) ?cut)"
  have len: "length ?texts = length queries"
    using assms(5) by auto
  then have run: "retrieve_multi dsearch lsearch emb cfg dst lst queries p top_k iv dqs = Inr ?hits"
    using False dh(1) lh(1) fused(1) by (simp add: retrieve_multi_def Let_def)
  obtain m where m: "?cut = take m ?allowed" using slice_to_take by blast
  have "visible p iv (sc_chunk h) \<and> sc_chunk h \<in> ?I" if "h \<in> set fused" for h
  proof -
    from fused(2) that obtain g where "g \<in> \<Union> (set ` snd ` set ?wls)" "sc_chunk h = sc_chunk g"
      unfolding fused_ok_def by blast
    then obtain wl where wl: "wl \<in> set ?wls" "g \<in> set (snd wl)" by blast
    from wl(1) have "snd wl \<in> set (dh @ lh)"
      by (metis prod.collapse set_zip_rightD)
    from good [OF this wl(2)] have "visible p iv (sc_chunk g) \<and> sc_chunk g \<in> ?I"
      by (simp only: simp_thms)
    with \<open>sc_chunk h = sc_chunk g\<close> show ?thesis by (simp only:)
  qed
  moreover have "x \<in> set fused" if "x \<in> set ?cut" for x
    using set_slice_to [OF that] by (simp only: set_filter mem_Collect_eq)
  ultimately have "\<forall>x \<in> set ?cut. visible p iv (sc_chunk x) \<and> sc_chunk x \<in> ?I"
    by (intro ballI) (simp only:)
  then have vis: "\<forall>h \<in> set ?hits. visible p iv (sc_chunk h) \<and> sc_chunk h \<in> ?I"
    by (rule rerank_cut_all)
  have "distinct (map item_id ?cut)"
    unfolding m using fused(2) by (metis distinct_map_filter distinct_take fused_ok_def take_map)
  moreover have "map (ch_chunk_id \<circ> sc_chunk) ?hits = map item_id ?cut"
    using arg_cong [OF rerank_cut(1) [of Fused ?cut], of "map ch_chunk_id"] by (simp add: comp_def)
  ultimately have dist: "distinct (map (ch_chunk_id \<circ> sc_chunk) ?hits)"
    by (simp only:)
  have "sorted_wrt (\<lambda>g h. sc_score h \<le> sc_score g) ?cut"
    unfolding m using fused(2) by (intro sorted_wrt_take sorted_wrt_filter_list) (simp add: fused_ok_def)
  then have sorted: "sorted_wrt (\<lambda>g h. sc_score h \<le> sc_score g) ?hits"
    unfolding sorted_wrt_score rerank_cut .
  have "int (length ?hits) \<le> top_k"
    unfolding rerank_cut by (rule length_slice_to_bound [OF assms(4)])
  moreover have "map sc_rank ?hits = [1 ..< Suc (length ?hits)]"
    unfolding rerank_cut by (rule refl)
  ultimately show ?thesis
    using run vis dist sorted unfolding hits_ok_def by blast
qed

end

interpretation mem_legs: hybrid_legs vs_search vs_indexed vs_inv bm_search bm_indexed bm_inv
  by unfold_locales

text \<open>
  end to end over the in-memory stores, retrieval is total and keeps the search contract: it
  never raises when one dense text is given per query, every chunk it returns is held by one of
  the two indexes, is of the wanted version and may be seen by the caller, no chunk id appears
  twice, there are at most \<open>top_k\<close> and they are ranked from 1 by falling fused score.
\<close>

theorem retrieve_multi_exact:
  assumes "vs_inv dst" "bm_inv lst" "0 \<le> hy_rrf_k cfg" "0 \<le> top_k"
    and "dqs = None \<or> dqs = Some [] \<or> (\<exists>ds. dqs = Some ds \<and> length ds = length queries)"
  shows "\<exists>hits. retrieve_multi vs_search bm_search emb cfg dst lst queries p top_k iv dqs = Inr hits
     \<and> hits_ok p iv (vs_indexed dst \<union> bm_indexed lst) top_k hits"
  by (rule mem_legs.retrieve_multi_hits [OF assms])

lemma retrieve_multi_exact_witness:
  "let dst = \<lparr>vs_items = [(''a'', example_chunk ''a'' ''acme'', [1, 0]), (''b'', example_chunk ''b'' ''other'', [0, 1])],
              vs_aliases = []\<rparr>
   in \<exists>hits. retrieve_multi vs_search bm_search (\<lambda>ts. map (\<lambda>t. [1, 1]) ts)
        \<lparr>hy_rrf_k = 60, hy_dense_weight = 1, hy_lexical_weight = 1\<rparr>
        dst (bm_empty (3 / 2) (3 / 4)) [''a'', ''b''] example_caller 5 (Some ''v1'') (Some [''x'', ''y'']) = Inr hits
      \<and> hits_ok example_caller (Some ''v1'') (vs_indexed dst \<union> bm_indexed (bm_empty (3 / 2) (3 / 4))) 5 hits"
  unfolding Let_def
  by (rule retrieve_multi_exact) (simp_all add: vs_inv_def bm_empty_inv example_defs)

section \<open>Rerankers\<close>

lemma distinct_submset: "mset xs \<subseteq># mset ys \<Longrightarrow> distinct ys \<Longrightarrow> distinct xs"
  by (metis distinct_append ex_mset mset_append mset_eq_imp_distinct_iff subset_mset.le_iff_add)

text \<open>A reranker only reorders and cuts: it returns no chunk it was not given.\<close>

locale reranker =
  fixes rerank :: "string \<Rightarrow> scored_chunk list \<Rightarrow> int \<Rightarrow> scored_chunk list result"
  assumes rerank_sub: "rerank q cs k = Inr hits \<Longrightarrow> mset (map sc_chunk hits) \<subseteq># mset (map sc_chunk cs)"
    and rerank_bound: "rerank q cs k = Inr hits \<Longrightarrow> 0 \<le> k \<Longrightarrow> int (length hits) \<le> k"
    and rerank_ranks: "rerank q cs k = Inr hits \<Longrightarrow> map sc_rank hits = [1 ..< Suc (length hits)]"
begin

lemma rerank_all:
  assumes "rerank q cs k = Inr hits" "\<forall>c \<in> set cs. P (sc_chunk c)"
  shows "\<forall>h \<in> set hits. P (sc_chunk h)"
proof -
  have "set (map sc_chunk hits) \<subseteq> set (map sc_chunk cs)"
    using set_mset_mono [OF rerank_sub [OF assms(1)]] by simp
  with assms(2) show ?thesis by auto
qed

lemma rerank_distinct:
  assumes "rerank q cs k = Inr hits" "distinct (map (ch_chunk_id \<circ> sc_chunk) cs)"
  shows "distinct (map (ch_chunk_id \<circ> sc_chunk) hits)"
proof -
  have "mset (map ch_chunk_id (map sc_chunk hits)) \<subseteq># mset (map ch_chunk_id (map sc_chunk cs))"
    unfolding mset_map [of ch_chunk_id] by (rule image_mset_subseteq_mono [OF rerank_sub [OF assms(1)]])
  then have "mset (map (ch_chunk_id \<circ> sc_chunk) hits) \<subseteq># mset (map (ch_chunk_id \<circ> sc_chunk) cs)"
    by (simp add: comp_def multiset.map_comp)
  then show ?thesis using assms(2) by (rule distinct_submset)
qed

end

lemma mset_slice_to: "mset (slice_to xs n) \<subseteq># mset xs"
  by (metis append_take_drop_id mset_append mset_subset_eq_add_left slice_to_take)

interpretation ident: reranker identity_rerank
proof unfold_locales
  show "mset (map sc_chunk hits) \<subseteq># mset (map sc_chunk cs)" if "identity_rerank q cs k = Inr hits" for q cs k hits
  proof -
    have "map sc_chunk hits = map sc_chunk (slice_to cs k)"
      using that by (auto simp: identity_rerank_def rerank_cut(1))
    then show ?thesis
      using image_mset_subseteq_mono [OF mset_slice_to [of cs k], of sc_chunk] by simp
  qed
  show "int (length hits) \<le> k" if "identity_rerank q cs k = Inr hits" "0 \<le> k" for q cs k hits
    using that length_slice_to_bound [of k cs] by (auto simp: identity_rerank_def ranked_simps)
  show "map sc_rank hits = [1 ..< Suc (length hits)]" if "identity_rerank q cs k = Inr hits" for q cs k hits
    using that by (auto simp: identity_rerank_def ranked_simps simp del: upt_Suc)
qed

interpretation cross: reranker "cross_encoder_rerank predict" for predict
proof unfold_locales
  fix q cs k hits
  assume run: "cross_encoder_rerank predict q cs k = Inr hits"
  show "int (length hits) \<le> k" if "0 \<le> k"
    using run that length_slice_to_bound [OF that]
    by (auto simp: cross_encoder_rerank_def Let_def ranked_simps split: if_splits)
  show "map sc_rank hits = [1 ..< Suc (length hits)]"
    using run by (auto simp: cross_encoder_rerank_def Let_def ranked_simps split: if_splits simp del: upt_Suc)
  let ?zs = "zip cs (predict (map (\<lambda>c. (q, ch_text (sc_chunk c))) cs))"
  show "mset (map sc_chunk hits) \<subseteq># mset (map sc_chunk cs)"
  proof (cases "cs = []")
    case False
    then have len: "length (predict (map (\<lambda>c. (q, ch_text (sc_chunk c))) cs)) = length cs"
      and "map sc_chunk hits = map (sc_chunk \<circ> fst) (slice_to (sort_desc snd ?zs) k)"
      using run by (auto simp: cross_encoder_rerank_def Let_def ranked_simps split_beta comp_def split: if_splits)
    then have "mset (map sc_chunk hits) \<subseteq># image_mset (sc_chunk \<circ> fst) (mset ?zs)"
      using image_mset_subseteq_mono [OF mset_slice_to [of "sort_desc snd ?zs" k], of "sc_chunk \<circ> fst"] by simp
    also have "image_mset (sc_chunk \<circ> fst) (mset ?zs) = mset (map sc_chunk (map fst ?zs))"
      by (simp add: multiset.map_comp)
    also have "map fst ?zs = cs"
      using len by simp
    finally show ?thesis .
  qed (use run in \<open>simp add: cross_encoder_rerank_def\<close>)
qed

end
