(* ===== verification/Query.thy ===== *)
theory Query
  imports TextUtil
begin

text \<open>
  \<open>src/rag/query\<close> and \<open>src/rag/security/pii.py\<close>: rewriting, expanding and routing a query,
  the hypothetical document, and the redaction of personal data.
\<close>

section \<open>Rewriting and expanding\<close>

definition TRAILING :: rx where
  "TRAILING = Seq (rx_plus (\<lambda>c. c \<in> set ''?!.'')) Eol"

definition rewrite_query :: "string \<Rightarrow> string list" where
  "rewrite_query q =
     (let cleaned = normalize_whitespace q in
      if cleaned = [] then []
      else let alt = strip (rx_sub TRAILING (\<lambda>_. []) cleaned) in
        if alt \<noteq> [] \<and> py_lower alt \<noteq> py_lower cleaned then [cleaned, alt] else [cleaned])"

text \<open>The loop over the extra phrasings, which stops once \<open>n\<close> variants are there.\<close>

fun add_variants :: "int \<Rightarrow> string list \<Rightarrow> string list \<Rightarrow> string list" where
  "add_variants n variants [] = variants"
| "add_variants n variants (e # es) =
     (let vs = (if e \<in> set variants then variants else variants @ [e]) in
      if n \<le> int (length vs) then vs else add_variants n vs es)"

definition expand_multi_query :: "string \<Rightarrow> int \<Rightarrow> string list" where
  "expand_multi_query q n =
     (case rewrite_query q of
        [] \<Rightarrow> []
      | primary # rest \<Rightarrow>
          slice_to (add_variants n (primary # rest)
            [''information about '' @ primary, ''details on '' @ primary, ''explain '' @ primary]) n)"

definition hyde_document :: "string \<Rightarrow> string" where
  "hyde_document q =
     (let cleaned = strip q in
      if cleaned = [] then []
      else ''This document answers the question: '' @ cleaned @ ''. ''
        @ ''It provides factual background, definitions, and supporting details ''
        @ ''relevant to: '' @ cleaned @ ''.'')"

section \<open>Routing\<close>

datatype query_route = FACTUAL | PROCEDURAL | COMPLEX | CHITCHAT | REFUSE

datatype query_mode = Mode_Auto | Mode_Fast | Mode_Agent

definition COMPLEX_MARKERS :: "string list" where
  "COMPLEX_MARKERS =
     [''compare'', ''comparison'', ''versus'', '' vs '', ''vs.'', ''difference between'',
      ''differences between'', ''both '', ''relate'', ''relationship between'', ''how does'',
      ''how do '', ''multi-hop'', ''and also'', ''on the other hand'', ''pros and cons'',
      ''trade-off'', ''tradeoff'']"

definition PROCEDURAL_MARKERS :: "string list" where
  "PROCEDURAL_MARKERS = [''how do i'', ''how to'', ''steps to'', ''procedure'']"

definition route_query :: "string \<Rightarrow> query_route" where
  "route_query query =
     (let q = strip (py_lower query) in
      if q = [] then REFUSE
      else if q \<in> set [''hi'', ''hello'', ''hey'', ''thanks'', ''thank you'']
           \<or> (\<exists>p \<in> set [''hi '', ''hello '', ''hey '']. startswith q p) then CHITCHAT
      else if \<exists>m \<in> set COMPLEX_MARKERS. contains q m then COMPLEX
      else if \<exists>m \<in> set PROCEDURAL_MARKERS. contains q m then PROCEDURAL
      else FACTUAL)"

definition should_use_agent :: "string \<Rightarrow> query_mode \<Rightarrow> bool \<Rightarrow> bool" where
  "should_use_agent query mode agent_enabled =
     (if \<not> agent_enabled then False
      else if mode = Mode_Fast then False
      else if mode = Mode_Agent then True
      else route_query query = COMPLEX)"

section \<open>Redaction\<close>

definition email_local :: "char \<Rightarrow> bool" where
  "email_local c \<longleftrightarrow> ascii_alnum c \<or> c \<in> set ''._%+-''"

definition email_host :: "char \<Rightarrow> bool" where
  "email_host c \<longleftrightarrow> ascii_alnum c \<or> c \<in> set ''.-''"

definition ascii_letter :: "char \<Rightarrow> bool" where
  "ascii_letter c \<longleftrightarrow> ascii_upper c \<or> ascii_lower c"

abbreviation digits :: "nat \<Rightarrow> rx" where
  "digits n \<equiv> Rep True n (Some n) py_digit"

definition EMAIL :: rx where
  "EMAIL = Seq Word_Boundary (Seq (rx_plus email_local) (Seq (Cls (\<lambda>c. c = CHR ''@''))
     (Seq (rx_plus email_host) (Seq (Cls (\<lambda>c. c = CHR ''.''))
       (Seq (Rep True 2 None ascii_letter) Word_Boundary)))))"

definition PHONE :: rx where
  "PHONE = Seq Word_Boundary (Seq (digits 3) (Seq (Rep True 0 (Some 1) (\<lambda>c. c \<in> set ''-.''))
     (Seq (digits 3) (Seq (Rep True 0 (Some 1) (\<lambda>c. c \<in> set ''-.''))
       (Seq (digits 4) Word_Boundary)))))"

definition SSN :: rx where
  "SSN = Seq Word_Boundary (Seq (digits 3) (Seq (Cls (\<lambda>c. c = CHR ''-''))
     (Seq (digits 2) (Seq (Cls (\<lambda>c. c = CHR ''-'')) (Seq (digits 4) Word_Boundary)))))"

definition PII_PATTERNS :: "(rx \<times> string) list" where
  "PII_PATTERNS = [(EMAIL, ''[REDACTED_EMAIL]''), (PHONE, ''[REDACTED_PHONE]''), (SSN, ''[REDACTED_SSN]'')]"

definition redact_pii :: "string \<Rightarrow> string" where
  "redact_pii t = fold (\<lambda>(r, replacement) s. rx_sub r (\<lambda>_. replacement) s) PII_PATTERNS t"

section \<open>Variants\<close>

lemma add_variants_prefix: "\<exists>ys. add_variants n xs es = xs @ ys \<and> set ys \<subseteq> set es"
proof (induction es arbitrary: xs)
  case (Cons e es)
  let ?vs = "if e \<in> set xs then xs else xs @ [e]"
  obtain ys where "add_variants n ?vs es = ?vs @ ys" "set ys \<subseteq> set es"
    using Cons.IH by blast
  then show ?case by (auto simp: Let_def)
qed simp

lemma add_variants_distinct: "distinct xs \<Longrightarrow> distinct (add_variants n xs es)"
  by (induction es arbitrary: xs) (auto simp: Let_def)

lemma add_variants_length:
  assumes "distinct (xs @ es)" "int (length xs) \<le> n"
  shows "min n (int (length (xs @ es))) \<le> int (length (add_variants n xs es))"
  using assms
proof (induction es arbitrary: xs)
  case (Cons e es)
  show ?case
  proof (cases "n \<le> int (length (xs @ [e]))")
    case True
    with Cons.prems show ?thesis by (auto simp: Let_def)
  next
    case False
    then have "min n (int (length ((xs @ [e]) @ es))) \<le> int (length (add_variants n (xs @ [e]) es))"
      using Cons.prems by (intro Cons.IH) auto
    with False Cons.prems show ?thesis by (auto simp: Let_def)
  qed
qed simp

lemma length_strip_le: "length (strip s) \<le> length s"
  unfolding strip_def rstrip_def lstrip_def
  by (metis le_trans length_dropWhile_le length_rev)

text \<open>
  Expanding a query that has a word gives between one and \<open>n\<close> phrasings, all different, with
  the normalised query first; a query without words gives none.
\<close>

theorem expand_multi_query_exact:
  assumes "1 \<le> n"
  shows "if normalize_whitespace q = [] then expand_multi_query q n = []
     else expand_multi_query q n \<noteq> [] \<and> hd (expand_multi_query q n) = normalize_whitespace q
       \<and> distinct (expand_multi_query q n) \<and> int (length (expand_multi_query q n)) \<le> n"
proof (cases "normalize_whitespace q = []")
  case True
  then show ?thesis by (simp add: expand_multi_query_def rewrite_query_def)
next
  case False
  then have "\<exists>rest. rewrite_query q = normalize_whitespace q # rest
      \<and> distinct (normalize_whitespace q # rest)"
    by (auto simp: rewrite_query_def Let_def)
  then obtain rest where base: "rewrite_query q = normalize_whitespace q # rest"
      "distinct (normalize_whitespace q # rest)"
    by blast
  let ?p = "normalize_whitespace q"
  let ?es = "[''information about '' @ ?p, ''details on '' @ ?p, ''explain '' @ ?p]"
  define vs where "vs = add_variants n (?p # rest) ?es"
  obtain ys where ys: "vs = ?p # ys"
    using add_variants_prefix [of n "?p # rest" ?es] unfolding vs_def by auto
  have distinct: "distinct vs"
    unfolding vs_def by (rule add_variants_distinct [OF base(2)])
  have exp: "expand_multi_query q n = slice_to vs n"
    using base(1) by (simp add: expand_multi_query_def vs_def)
  have "slice_to vs n = ?p # take (nat n - 1) ys"
    using assms ys by (cases "nat n") (simp_all add: slice_to_def)
  moreover have "distinct (slice_to vs n)"
    using distinct by (simp add: slice_to_def)
  ultimately show ?thesis
    using False assms length_slice_to_bound [of n vs] by (simp add: exp)
qed

lemma expand_multi_query_exact_witness:
  "if normalize_whitespace ''a b'' = [] then expand_multi_query ''a b'' 3 = []
     else expand_multi_query ''a b'' 3 \<noteq> []
       \<and> hd (expand_multi_query ''a b'' 3) = normalize_whitespace ''a b''
       \<and> distinct (expand_multi_query ''a b'' 3) \<and> int (length (expand_multi_query ''a b'' 3)) \<le> 3"
  by (rule expand_multi_query_exact) simp

section \<open>Which routes are reachable\<close>

text \<open>
  The marker \<open>how do i\<close> of the procedural route is dead: every query that holds it also holds
  \<open>how do\<close> followed by a blank, which is a marker of the complex route and is tested first, so
  such a query is chit-chat or complex and, in automatic mode, goes to the agent.
\<close>

theorem route_how_do_i:
  assumes "contains (strip (py_lower query)) ''how do i''"
  shows "route_query query \<in> {CHITCHAT, COMPLEX} \<and> route_query query \<noteq> PROCEDURAL"
proof -
  have "contains ''how do i'' ''how do ''"
    by (simp add: startswith_def)
  with assms have "contains (strip (py_lower query)) ''how do ''"
    by (rule contains_trans)
  then have "\<exists>m \<in> set COMPLEX_MARKERS. contains (strip (py_lower query)) m"
    by (simp add: COMPLEX_MARKERS_def)
  moreover have "strip (py_lower query) \<noteq> []"
    using assms by auto
  ultimately show ?thesis
    unfolding route_query_def Let_def by (simp only: if_True if_False) simp
qed

lemma route_how_do_i_witness:
  "route_query ''how do i reset it'' \<in> {CHITCHAT, COMPLEX} \<and> route_query ''how do i reset it'' \<noteq> PROCEDURAL"
proof (rule route_how_do_i)
  show "contains (strip (py_lower ''how do i reset it'')) ''how do i''"
    by (simp add: py_lower_def lower_char_def ascii_upper_def code_def strip_def lstrip_def rstrip_def
        py_space_def startswith_def)
qed

end
