(* ===== verification/Config.thy ===== *)
theory Config
  imports Schemas
begin

text \<open>
  \<open>src/rag/settings.py\<close> and \<open>src/rag/security/auth.py\<close>: the settings, the check that rejects
  unsafe production settings, the typed views the pipelines read, and the choice and the
  behaviour of the authenticators. The environment and the parsed YAML are arguments; theory
  \<open>Entry\<close> holds the memo of the settings and the files behind them.
\<close>

section \<open>Settings\<close>

datatype vector_backend = VB_Memory | VB_Qdrant
datatype lexical_backend = LB_Memory | LB_OpenSearch
datatype embedding_backend = EB_Hash | EB_OpenAI
datatype llm_backend = LLM_Echo | LLM_OpenAI
datatype cache_backend = CB_Memory | CB_Redis
datatype reranker_name = RR_Identity | RR_CrossEncoder

record settings =
  se_env :: string
  se_index_version :: string
  se_collection_alias :: string
  se_collection_prefix :: string
  se_configs_root :: string
  se_index_registry_file :: "string option"
  se_vector_backend :: vector_backend
  se_lexical_backend :: lexical_backend
  se_embedding_backend :: embedding_backend
  se_llm_backend :: llm_backend
  se_chat_llm_backend :: llm_backend
  se_cache_backend :: cache_backend
  se_reranker :: reranker_name
  se_agent_enabled :: bool
  se_agent_allow_egress :: bool
  se_agent_include_trace :: bool
  se_agent_max_steps :: int
  se_agent_max_tool_calls :: int
  se_agent_max_critique_rounds :: int
  se_agent_max_tokens :: int
  se_agent_max_cost_usd :: real
  se_agent_max_wall_clock_seconds :: real
  se_agent_tool_cache_enabled :: bool
  se_agent_tool_cache_ttl_seconds :: int
  se_top_k :: int
  se_rerank_top_k :: int
  se_rrf_k :: int
  se_dense_weight :: real
  se_lexical_weight :: real
  se_rewrite_enabled :: bool
  se_multi_query_enabled :: bool
  se_multi_query_count :: int
  se_hyde_enabled :: bool
  se_refusal_score_threshold :: real
  se_cache_enabled :: bool
  se_cache_ttl_seconds :: int
  se_semantic_cache_enabled :: bool
  se_semantic_cache_threshold :: real
  se_embedding_dimensions :: int
  se_hash_embedding_dimensions :: int
  se_llm_max_attempts :: int
  se_llm_timeout_seconds :: real
  se_auth_required :: bool
  se_auth_trust_headers :: bool
  se_auth_tokens_file :: "string option"
  se_default_tenant :: string
  se_pii_redaction_enabled :: bool
  se_service_name :: string
  se_agent_max_concurrent_per_tenant :: int
  se_embedding_model :: string
  se_llm_model :: string
  se_llm_fallback_models :: "string list"
  se_llm_max_output_tokens :: int
  se_llm_temperature :: real
  se_request_timeout_seconds :: real
  se_metrics_enabled :: bool
  se_openai_api_key :: "string option"
  se_qdrant_url :: string
  se_qdrant_api_key :: "string option"
  se_opensearch_url :: string
  se_redis_url :: string
  se_data_root :: string
  se_cors_allow_origins :: "string list"
  se_log_level :: string
  se_log_json :: bool
  se_log_dir :: "string option"

text \<open>The values when the environment sets nothing.\<close>

definition default_settings :: settings where
  "default_settings =
     \<lparr>se_env = ''dev'', se_index_version = ''v1'', se_collection_alias = ''docs_live'',
      se_collection_prefix = ''docs'', se_configs_root = ''configs'', se_index_registry_file = None,
      se_vector_backend = VB_Memory, se_lexical_backend = LB_Memory, se_embedding_backend = EB_Hash,
      se_llm_backend = LLM_Echo, se_chat_llm_backend = LLM_Echo, se_cache_backend = CB_Memory,
      se_reranker = RR_Identity, se_agent_enabled = True, se_agent_allow_egress = False,
      se_agent_include_trace = False, se_agent_max_steps = 6, se_agent_max_tool_calls = 10,
      se_agent_max_critique_rounds = 2, se_agent_max_tokens = 20000, se_agent_max_cost_usd = 1 / 10,
      se_agent_max_wall_clock_seconds = 30, se_agent_tool_cache_enabled = True,
      se_agent_tool_cache_ttl_seconds = 600, se_top_k = 10, se_rerank_top_k = 5, se_rrf_k = 60,
      se_dense_weight = 1, se_lexical_weight = 1, se_rewrite_enabled = True,
      se_multi_query_enabled = False, se_multi_query_count = 3, se_hyde_enabled = False,
      se_refusal_score_threshold = 1 / 100, se_cache_enabled = True, se_cache_ttl_seconds = 3600,
      se_semantic_cache_enabled = True, se_semantic_cache_threshold = 95 / 100,
      se_embedding_dimensions = 1536, se_hash_embedding_dimensions = 64, se_llm_max_attempts = 3,
      se_llm_timeout_seconds = 30, se_auth_required = True, se_auth_trust_headers = False,
      se_auth_tokens_file = None, se_default_tenant = ''default'', se_pii_redaction_enabled = True,
      se_service_name = ''rag-api'', se_agent_max_concurrent_per_tenant = 4,
      se_embedding_model = ''text-embedding-3-small'', se_llm_model = ''gpt-4o-mini'',
      se_llm_fallback_models = [], se_llm_max_output_tokens = 1024, se_llm_temperature = 0,
      se_request_timeout_seconds = 30, se_metrics_enabled = True, se_openai_api_key = None,
      se_qdrant_url = ''http://localhost:6333'', se_qdrant_api_key = None,
      se_opensearch_url = ''http://localhost:9200'', se_redis_url = ''redis://localhost:6379/0'',
      se_data_root = ''data'', se_cors_allow_origins = [], se_log_level = ''INFO'', se_log_json = False,
      se_log_dir = None\<rparr>"

definition PRODUCTION_ENVS :: "string set" where
  "PRODUCTION_ENVS = {''prod'', ''production'', ''staging'', ''stage''}"

definition is_production :: "settings \<Rightarrow> bool" where
  "is_production s \<longleftrightarrow> py_lower (se_env s) \<in> PRODUCTION_ENVS"

definition unsafe_problems :: "settings \<Rightarrow> string list" where
  "unsafe_problems s =
     (if se_auth_trust_headers s
      then [''RAG_AUTH_TRUST_HEADERS must be false outside dev: trusting ACL headers ''
            @ ''lets any caller choose their own tenant and groups''] else [])
     @ (if \<not> se_auth_required s then [''RAG_AUTH_REQUIRED must be true outside dev''] else [])
     @ (if se_embedding_backend s = EB_Hash
        then [''RAG_EMBEDDING_BACKEND=hash is a deterministic test stub, not a real model''] else [])
     @ (if se_llm_backend s = LLM_Echo
        then [''RAG_LLM_BACKEND=echo is a test stub, not a real model''] else [])
     @ (if se_agent_enabled s \<and> se_chat_llm_backend s = LLM_Echo
        then [''RAG_AGENT_ENABLED requires RAG_CHAT_LLM_BACKEND!=echo outside ''
              @ ''dev: the agent must not run on a stub chat model in production''] else [])
     @ (if se_agent_allow_egress s
        then [''RAG_AGENT_ALLOW_EGRESS must be false outside dev until egress ''
              @ ''tools are explicitly provisioned and audited''] else [])"

definition newline :: string where
  "newline = [CHR 0x0A]"

text \<open>\<open>_reject_unsafe_production_config\<close>; \<open>repr\<close> prints the environment's name.\<close>

definition reject_unsafe :: "(string \<Rightarrow> string) \<Rightarrow> settings \<Rightarrow> settings result" where
  "reject_unsafe repr_str s =
     (if \<not> is_production s then Inr s
      else if unsafe_problems s \<noteq> []
      then Inl (ValueError (''Unsafe configuration for env='' @ repr_str (se_env s) @ '':'' @ newline
             @ ''  - '' @ py_join (newline @ ''  - '') (unsafe_problems s)))
      else Inr s)"

text \<open>\<open>_split_csv\<close>: \<open>None\<close> leaves the value to the JSON parser.\<close>

definition split_csv :: "string \<Rightarrow> string list option" where
  "split_csv v =
     (let stripped = strip v in
      if stripped = [] then Some []
      else if startswith stripped ''['' then None
      else Some (filter (\<lambda>p. p \<noteq> []) (map strip (split_char (CHR '','') stripped))))"

definition collection_for :: "settings \<Rightarrow> string option \<Rightarrow> string" where
  "collection_for s iv =
     se_collection_prefix s @ ''__''
       @ (case iv of None \<Rightarrow> se_index_version s | Some v \<Rightarrow> str_or v (se_index_version s))"

definition index_registry_path :: "settings \<Rightarrow> string" where
  "index_registry_path s =
     (case se_index_registry_file s of
        Some f \<Rightarrow> f
      | None \<Rightarrow> se_configs_root s @ ''/index_versions.yaml'')"

definition agent_budget :: "settings \<Rightarrow> budget" where
  "agent_budget s =
     \<lparr>max_steps = se_agent_max_steps s, max_tool_calls = se_agent_max_tool_calls s,
      max_critique_rounds = se_agent_max_critique_rounds s, max_tokens = se_agent_max_tokens s,
      max_cost_usd = se_agent_max_cost_usd s,
      max_wall_clock_seconds = se_agent_max_wall_clock_seconds s\<rparr>"

subsection \<open>Retrieval knobs\<close>

record retrieval_config =
  rc_top_k :: int
  rc_rerank_top_k :: int
  rc_rrf_k :: int
  rc_dense_weight :: real
  rc_lexical_weight :: real
  rc_rewrite_enabled :: bool
  rc_multi_query_enabled :: bool
  rc_multi_query_count :: int
  rc_hyde_enabled :: bool
  rc_cache_enabled :: bool
  rc_semantic_cache_enabled :: bool

definition CONFIG_FIELDS :: "string list" where
  "CONFIG_FIELDS = [''top_k'', ''rerank_top_k'', ''rrf_k'', ''dense_weight'', ''lexical_weight'',
     ''rewrite_enabled'', ''multi_query_enabled'', ''multi_query_count'', ''hyde_enabled'',
     ''cache_enabled'', ''semantic_cache_enabled'']"

text \<open>\<open>self.model_dump(include=known & set(type(self).model_fields))\<close>\<close>

definition settings_overrides :: "settings \<Rightarrow> json_dict" where
  "settings_overrides s =
     [(''top_k'', JInt (se_top_k s)), (''rerank_top_k'', JInt (se_rerank_top_k s)),
      (''rrf_k'', JInt (se_rrf_k s)), (''dense_weight'', JFloat (se_dense_weight s)),
      (''lexical_weight'', JFloat (se_lexical_weight s)),
      (''rewrite_enabled'', JBool (se_rewrite_enabled s)),
      (''multi_query_enabled'', JBool (se_multi_query_enabled s)),
      (''multi_query_count'', JInt (se_multi_query_count s)),
      (''hyde_enabled'', JBool (se_hyde_enabled s)), (''cache_enabled'', JBool (se_cache_enabled s)),
      (''semantic_cache_enabled'', JBool (se_semantic_cache_enabled s))]"

text \<open>
  Validation of one knob. Pydantic would also convert numeric strings and the like; the values
  it sees here are the settings' own, which are typed (\<open>config_from_settings\<close>).
\<close>

definition int_field :: "json_dict \<Rightarrow> string \<Rightarrow> int \<Rightarrow> int result" where
  "int_field d k dflt =
     (case map_of d k of None \<Rightarrow> Inr dflt | Some (JInt i) \<Rightarrow> Inr i | Some _ \<Rightarrow> Inl (ValueError k))"

definition float_field :: "json_dict \<Rightarrow> string \<Rightarrow> real \<Rightarrow> real result" where
  "float_field d k dflt =
     (case map_of d k of None \<Rightarrow> Inr dflt | Some (JFloat x) \<Rightarrow> Inr x
      | Some (JInt i) \<Rightarrow> Inr (real_of_int i) | Some _ \<Rightarrow> Inl (ValueError k))"

definition bool_field :: "json_dict \<Rightarrow> string \<Rightarrow> bool \<Rightarrow> bool result" where
  "bool_field d k dflt =
     (case map_of d k of None \<Rightarrow> Inr dflt | Some (JBool b) \<Rightarrow> Inr b | Some _ \<Rightarrow> Inl (ValueError k))"

definition validate_config :: "json_dict \<Rightarrow> retrieval_config result" where
  "validate_config d =
     bind_result (int_field d ''top_k'' 10) (\<lambda>k.
     bind_result (int_field d ''rerank_top_k'' 5) (\<lambda>rk.
     bind_result (int_field d ''rrf_k'' 60) (\<lambda>rrf.
     bind_result (float_field d ''dense_weight'' 1) (\<lambda>dw.
     bind_result (float_field d ''lexical_weight'' 1) (\<lambda>lw.
     bind_result (bool_field d ''rewrite_enabled'' True) (\<lambda>rw.
     bind_result (bool_field d ''multi_query_enabled'' False) (\<lambda>mq.
     bind_result (int_field d ''multi_query_count'' 3) (\<lambda>mc.
     bind_result (bool_field d ''hyde_enabled'' False) (\<lambda>hy.
     bind_result (bool_field d ''cache_enabled'' True) (\<lambda>ce.
     bind_result (bool_field d ''semantic_cache_enabled'' True) (\<lambda>sc.
       Inr \<lparr>rc_top_k = k, rc_rerank_top_k = rk, rc_rrf_k = rrf, rc_dense_weight = dw,
            rc_lexical_weight = lw, rc_rewrite_enabled = rw, rc_multi_query_enabled = mq,
            rc_multi_query_count = mc, rc_hyde_enabled = hy, rc_cache_enabled = ce,
            rc_semantic_cache_enabled = sc\<rparr>)))))))))))"

text \<open>\<open>{**base, **overrides}\<close>: later entries win and known keys keep their place.\<close>

definition dict_merge :: "json_dict \<Rightarrow> json_dict \<Rightarrow> json_dict" where
  "dict_merge base over = fold (\<lambda>(k, v). AList.update k v) over base"

definition retrieval_config :: "settings \<Rightarrow> json_dict \<Rightarrow> retrieval_config result" where
  "retrieval_config s yaml =
     validate_config (dict_merge (filter (\<lambda>(k, v). k \<in> set CONFIG_FIELDS) yaml) (settings_overrides s))"

definition cache_params :: "retrieval_config \<Rightarrow> json_dict" where
  "cache_params c =
     [(''top_k'', JInt (rc_top_k c)), (''rerank_top_k'', JInt (rc_rerank_top_k c)),
      (''rrf_k'', JInt (rc_rrf_k c)), (''dense_weight'', JFloat (rc_dense_weight c)),
      (''lexical_weight'', JFloat (rc_lexical_weight c)),
      (''rewrite_enabled'', JBool (rc_rewrite_enabled c)),
      (''multi_query_enabled'', JBool (rc_multi_query_enabled c)),
      (''multi_query_count'', JInt (rc_multi_query_count c)),
      (''hyde_enabled'', JBool (rc_hyde_enabled c))]"

text \<open>The configuration that the settings alone give.\<close>

definition config_of :: "settings \<Rightarrow> retrieval_config" where
  "config_of s =
     \<lparr>rc_top_k = se_top_k s, rc_rerank_top_k = se_rerank_top_k s, rc_rrf_k = se_rrf_k s,
      rc_dense_weight = se_dense_weight s, rc_lexical_weight = se_lexical_weight s,
      rc_rewrite_enabled = se_rewrite_enabled s, rc_multi_query_enabled = se_multi_query_enabled s,
      rc_multi_query_count = se_multi_query_count s, rc_hyde_enabled = se_hyde_enabled s,
      rc_cache_enabled = se_cache_enabled s, rc_semantic_cache_enabled = se_semantic_cache_enabled s\<rparr>"

lemma map_of_dict_merge:
  "map_of (dict_merge base over) k =
     (case map_of (rev over) k of Some v \<Rightarrow> Some v | None \<Rightarrow> map_of base k)"
proof -
  have "map_of (fold (\<lambda>(k, v). AList.update k v) over base) k =
     (case map_of (rev over) k of Some v \<Rightarrow> Some v | None \<Rightarrow> map_of base k)"
    by (induction over arbitrary: base) (auto simp: map_add_def split: option.splits)
  then show ?thesis by (simp add: dict_merge_def)
qed

lemma config_from_settings: "retrieval_config s yaml = Inr (config_of s)"
  by (simp add: retrieval_config_def validate_config_def config_of_def map_of_dict_merge
      settings_overrides_def int_field_def float_field_def bool_field_def)

text \<open>
  The YAML file never has an effect: whatever \<open>configs/retrieval.yaml\<close> holds, the
  configuration is the one of the settings, because every knob is also a field of the settings
  and its default is dumped over the file's value.
\<close>

theorem retrieval_yaml_ignored: "retrieval_config s yaml = Inr (config_of s)"
  by (rule config_from_settings)

section \<open>Authentication\<close>

record credentials =
  cr_authorization :: "string option"
  cr_tenant :: "string option"
  cr_groups :: "string option"
  cr_subject :: "string option"

text \<open>\<open>a or b\<close> for an optional string.\<close>

definition opt_or :: "string option \<Rightarrow> string \<Rightarrow> string" where
  "opt_or a b = (case a of None \<Rightarrow> b | Some s \<Rightarrow> str_or s b)"

definition parse_groups :: "string option \<Rightarrow> string set \<Rightarrow> string set" where
  "parse_groups raw dflt =
     (case raw of
        None \<Rightarrow> dflt
      | Some r \<Rightarrow>
          if r = [] then dflt
          else set (filter (\<lambda>p. p \<noteq> []) (map strip (split_char (CHR '','') r))))"

text \<open>\<open>s.split(None, 1)\<close>: the first word, and what follows the white space after it.\<close>

definition split_once :: "string \<Rightarrow> string list" where
  "split_once s =
     (case lstrip s of
        [] \<Rightarrow> []
      | c # cs \<Rightarrow>
          let w = takeWhile (\<lambda>x. \<not> py_space x) (c # cs);
              rest = lstrip (dropWhile (\<lambda>x. \<not> py_space x) (c # cs))
          in if rest = [] then [w] else [w, rest])"

definition bearer_token :: "string option \<Rightarrow> string option" where
  "bearer_token authorization =
     (case authorization of
        None \<Rightarrow> None
      | Some a \<Rightarrow>
          if a = [] then None
          else (case split_once a of
                  [scheme, token] \<Rightarrow> if py_lower scheme = ''bearer'' then Some (strip token) else None
                | _ \<Rightarrow> None))"

datatype authenticator =
    Trusted_Header string
  | Static_Token "(string \<times> principal) list"
  | Deny_All
  | Anonymous string

definition trusted_header_authenticate :: "string \<Rightarrow> credentials \<Rightarrow> principal" where
  "trusted_header_authenticate default_tenant cr =
     \<lparr>pr_subject = opt_or (cr_subject cr) (opt_or (bearer_token (cr_authorization cr)) ''anonymous''),
      pr_groups = parse_groups (cr_groups cr) {''public''},
      pr_tenant = opt_or (cr_tenant cr) default_tenant\<rparr>"

text \<open>\<open>hmac.compare_digest\<close> on two strings raises unless both are ASCII.\<close>

definition ascii :: "string \<Rightarrow> bool" where
  "ascii s \<longleftrightarrow> (\<forall>c \<in> set s. code c < 128)"

definition compare_digest :: "string \<Rightarrow> string \<Rightarrow> bool result" where
  "compare_digest a b =
     (if ascii a \<and> ascii b then Inr (a = b)
      else Inl (TypeError ''comparing strings with non-ASCII characters is not supported''))"

fun find_token :: "string \<Rightarrow> (string \<times> principal) list \<Rightarrow> principal result" where
  "find_token token [] = Inl (AuthError ''invalid_token'')"
| "find_token token ((known, p) # ps) =
     bind_result (compare_digest token known) (\<lambda>eq. if eq then Inr p else find_token token ps)"

definition static_token_authenticate :: "(string \<times> principal) list \<Rightarrow> credentials \<Rightarrow> principal result" where
  "static_token_authenticate principals cr =
     (case bearer_token (cr_authorization cr) of
        None \<Rightarrow> Inl (AuthError ''missing_bearer_token'')
      | Some token \<Rightarrow>
          if token = [] then Inl (AuthError ''missing_bearer_token'') else find_token token principals)"

definition anonymous_authenticate :: "string \<Rightarrow> principal" where
  "anonymous_authenticate tenant =
     \<lparr>pr_subject = ''anonymous'', pr_groups = {''public''}, pr_tenant = tenant\<rparr>"

fun authenticate :: "authenticator \<Rightarrow> credentials \<Rightarrow> principal result" where
  "authenticate (Trusted_Header t) cr = Inr (trusted_header_authenticate t cr)"
| "authenticate (Static_Token ps) cr = static_token_authenticate ps cr"
| "authenticate Deny_All cr = Inl (AuthError ''no_authenticator_configured'')"
| "authenticate (Anonymous t) cr = Inr (anonymous_authenticate t)"

text \<open>
  \<open>from_file\<close> on the parsed YAML; \<open>py_str\<close> is Python's \<open>str\<close> on the values of the file.
\<close>

definition entry_field :: "json \<Rightarrow> string \<Rightarrow> json result" where
  "entry_field entry k =
     (case entry of
        JDict d \<Rightarrow> (case map_of d k of None \<Rightarrow> Inl (KeyError k) | Some v \<Rightarrow> Inr v)
      | _ \<Rightarrow> Inl (TypeError ''indices must be integers''))"

definition entry_groups :: "(json \<Rightarrow> string) \<Rightarrow> json \<Rightarrow> string set result" where
  "entry_groups py_str entry =
     (case entry of
        JDict d \<Rightarrow>
          (case map_of d ''groups'' of
             None \<Rightarrow> Inr {}
           | Some (JList gs) \<Rightarrow> Inr (set (map py_str gs))
           | Some (JStr s) \<Rightarrow> Inr (set (map (\<lambda>c. [c]) s))
           | Some (JDict kvs) \<Rightarrow> Inr (set (map fst kvs))
           | Some _ \<Rightarrow> Inl (TypeError ''object is not iterable''))
      | _ \<Rightarrow> Inl (TypeError ''object has no get''))"

definition token_entry :: "(json \<Rightarrow> string) \<Rightarrow> json \<Rightarrow> (string \<times> principal) list \<Rightarrow> (string \<times> principal) list result" where
  "token_entry py_str entry ps =
     bind_result (entry_field entry ''token'') (\<lambda>token.
     bind_result (entry_field entry ''subject'') (\<lambda>subject.
     bind_result (entry_field entry ''tenant'') (\<lambda>tenant.
     bind_result (entry_groups py_str entry) (\<lambda>groups.
       Inr (AList.update (py_str token)
         \<lparr>pr_subject = py_str subject, pr_groups = groups, pr_tenant = py_str tenant\<rparr> ps)))))"

definition static_token_from_yaml :: "(json \<Rightarrow> string) \<Rightarrow> json \<Rightarrow> authenticator result" where
  "static_token_from_yaml py_str data =
     (let entries = (case data of
                       JDict d \<Rightarrow> (case map_of d ''tokens'' of
                                    None \<Rightarrow> Inr [] | Some (JList es) \<Rightarrow> Inr es
                                  | Some _ \<Rightarrow> Inl (TypeError ''object is not iterable''))
                     | _ \<Rightarrow> Inr [])
      in bind_result entries (\<lambda>es.
           bind_result (fold_result (token_entry py_str) es []) (\<lambda>ps. Inr (Static_Token ps))))"

definition build_authenticator ::
    "(json \<Rightarrow> string) \<Rightarrow> (string \<Rightarrow> json result) \<Rightarrow> settings \<Rightarrow> authenticator result" where
  "build_authenticator py_str load_yaml s =
     (case se_auth_tokens_file s of
        Some path \<Rightarrow> bind_result (load_yaml path) (static_token_from_yaml py_str)
      | None \<Rightarrow>
          if se_auth_trust_headers s then Inr (Trusted_Header (se_default_tenant s))
          else if \<not> se_auth_required s then Inr (Anonymous (se_default_tenant s))
          else Inr Deny_All)"

subsection \<open>Who gets in\<close>

lemma find_token_known: "find_token token ps = Inr p \<Longrightarrow> map_of ps token = Some p"
  by (induction ps) (auto simp: compare_digest_def split: if_splits)

lemma static_token_sound:
  "static_token_authenticate ps cr = Inr p \<Longrightarrow>
     \<exists>token. bearer_token (cr_authorization cr) = Some token \<and> map_of ps token = Some p"
  by (auto simp: static_token_authenticate_def find_token_known split: option.splits if_splits)

text \<open>
  C22: a production deployment fails closed: once its settings passed the check, the authenticator
  it builds is the token table or the one that rejects everybody, and a caller who gets in
  presented a bearer token of the table and is the principal of that entry; the headers that
  name a tenant, groups or a subject play no part.
\<close>

theorem production_authentication:
  assumes "reject_unsafe repr_str s = Inr s'" "is_production s"
    and "build_authenticator py_str load_yaml s' = Inr auth"
    and "authenticate auth cr = Inr p"
  shows "\<exists>ps token. auth = Static_Token ps
     \<and> bearer_token (cr_authorization cr) = Some token \<and> map_of ps token = Some p"
proof -
  have s': "s' = s" "unsafe_problems s = []"
    using assms(1,2) by (auto simp: reject_unsafe_def split: if_splits)
  then have "\<not> se_auth_trust_headers s" "se_auth_required s"
    by (auto simp: unsafe_problems_def split: if_splits)
  then have "\<exists>ps. auth = Static_Token ps \<or> auth = Deny_All"
    using assms(3) by (auto simp: s'(1) build_authenticator_def static_token_from_yaml_def
        split: option.splits)
  with assms(4) show ?thesis
    by (auto dest: static_token_sound)
qed

lemma production_authentication_witness:
  "let p = \<lparr>pr_subject = ''svc'', pr_groups = {''hr''}, pr_tenant = ''acme''\<rparr>;
       auth = Static_Token [(''k'', p)];
       cr = \<lparr>cr_authorization = Some ''bearer k'', cr_tenant = Some ''other'', cr_groups = None, cr_subject = None\<rparr>
   in \<exists>ps token. auth = Static_Token ps
     \<and> bearer_token (cr_authorization cr) = Some token \<and> map_of ps token = Some p"
proof -
  let ?s = "default_settings\<lparr>se_env := ''prod'', se_embedding_backend := EB_OpenAI, se_llm_backend := LLM_OpenAI,
      se_chat_llm_backend := LLM_OpenAI, se_auth_tokens_file := Some ''tokens''\<rparr>"
  let ?p = "\<lparr>pr_subject = ''svc'', pr_groups = {''hr''}, pr_tenant = ''acme''\<rparr>"
  let ?str = "\<lambda>j. case j of JStr s \<Rightarrow> s | _ \<Rightarrow> []"
  let ?yaml = "JDict [(''tokens'', JList [JDict [(''token'', JStr ''k''), (''subject'', JStr ''svc''),
      (''tenant'', JStr ''acme''), (''groups'', JList [JStr ''hr''])]])]"
  have "reject_unsafe id ?s = Inr ?s"
    by (simp add: reject_unsafe_def unsafe_problems_def default_settings_def)
  moreover have "is_production ?s"
    by (simp add: is_production_def PRODUCTION_ENVS_def py_lower_def lower_char_def ascii_upper_def code_def)
  moreover have "build_authenticator ?str (\<lambda>_. Inr ?yaml) ?s = Inr (Static_Token [(''k'', ?p)])"
    by (simp add: build_authenticator_def static_token_from_yaml_def token_entry_def entry_field_def
        entry_groups_def)
  moreover have "authenticate (Static_Token [(''k'', ?p)])
      \<lparr>cr_authorization = Some ''bearer k'', cr_tenant = Some ''other'', cr_groups = None, cr_subject = None\<rparr> = Inr ?p"
    by (simp add: static_token_authenticate_def bearer_token_def split_once_def lstrip_def rstrip_def
        strip_def py_space_def py_lower_def lower_char_def ascii_upper_def code_def compare_digest_def ascii_def)
  ultimately show ?thesis
    unfolding Let_def by (rule production_authentication)
qed

text \<open>
  A bearer token with a non-ASCII character is not answered with an authentication error: as
  soon as the table has an entry, comparing the digests raises \<open>TypeError\<close>.
\<close>

theorem non_ascii_token_raises:
  assumes "bearer_token (cr_authorization cr) = Some token" "\<not> ascii token" "ps \<noteq> []"
  shows "authenticate (Static_Token ps) cr
     = Inl (TypeError ''comparing strings with non-ASCII characters is not supported'')"
proof -
  have "token \<noteq> []" using assms(2) by (auto simp: ascii_def)
  moreover obtain known p rest where "ps = (known, p) # rest"
    using assms(3) by (cases ps) auto
  ultimately show ?thesis
    using assms(1,2) by (simp add: static_token_authenticate_def compare_digest_def)
qed

lemma non_ascii_token_raises_witness:
  "authenticate (Static_Token [(''k'', \<lparr>pr_subject = ''svc'', pr_groups = {}, pr_tenant = ''acme''\<rparr>)])
      \<lparr>cr_authorization = Some (''bearer '' @ [CHR 0xE9]), cr_tenant = None, cr_groups = None, cr_subject = None\<rparr>
     = Inl (TypeError ''comparing strings with non-ASCII characters is not supported'')"
  by (rule non_ascii_token_raises [where token = "[CHR 0xE9]"])
     (simp_all add: bearer_token_def split_once_def lstrip_def rstrip_def
        strip_def py_space_def py_lower_def lower_char_def ascii_upper_def code_def ascii_def)

end
