(* ===== verification/Llm.thy ===== *)
theory Llm
  imports Schemas
begin

text \<open>
  \<open>src/rag/llm\<close>: messages, the cost estimate, the retry policy and the resilience wrapper that
  both the completion and the chat client use (\<open>resilient.py\<close> and \<open>resilient_chat.py\<close> run the
  same loop; the request is the prompt, or the messages with the tools). A client is a record
  of its name and its two ways of being called: plain, and within a time limit, where \<open>None\<close>
  says that the limit ran out; a \<open>TimeoutError\<close> of the client itself is caught by the same
  handler. The world \<open>'w\<close> is what the calls change.
\<close>

section \<open>Messages\<close>

datatype role = System | User | Assistant | Tool_role

record message =
  m_role :: role
  m_content :: string
  m_name :: "string option"
  m_tool_call_id :: "string option"
  m_tool_calls :: "tool_call list"

record tool_spec =
  ts_name :: string
  ts_description :: string
  ts_parameters :: json_dict

datatype finish_reason = Fin_Stop | Fin_Tool_Calls | Fin_Length | Fin_Content_Filter

record chat_completion =
  cc_message :: message
  cc_usage :: usage
  cc_finish_reason :: finish_reason

definition completion_text :: "chat_completion \<Rightarrow> string" where
  "completion_text c = m_content (cc_message c)"

definition completion_tool_calls :: "chat_completion \<Rightarrow> tool_call list" where
  "completion_tool_calls c = m_tool_calls (cc_message c)"

section \<open>Costs\<close>

definition DEFAULT_RATES :: "(string \<times> (real \<times> real)) list" where
  "DEFAULT_RATES =
     [(''echo'', (0, 0)), (''gpt-4o-mini'', (15 / 100, 60 / 100)), (''text-embedding-3-small'', (2 / 100, 0))]"

definition estimate_cost_usd :: "string \<Rightarrow> int \<Rightarrow> int \<Rightarrow> real" where
  "estimate_cost_usd model prompt_tokens completion_tokens =
     (let (pr, cr) = (case map_of DEFAULT_RATES model of None \<Rightarrow> (1, 3) | Some r \<Rightarrow> r)
      in (real_of_int prompt_tokens * pr + real_of_int completion_tokens * cr) / 1000000)"

section \<open>Errors\<close>

text \<open>\<open>LLMError\<close> and its subclasses.\<close>

fun is_llm_error :: "py_exn \<Rightarrow> bool" where
  "is_llm_error (LLMTimeoutError m t) = True"
| "is_llm_error (LLMUnavailableError ms e) = True"
| "is_llm_error _ = False"

section \<open>Retry policy\<close>

record retry_policy =
  rp_max_attempts :: int
  rp_base_delay_seconds :: real
  rp_max_delay_seconds :: real
  rp_timeout_seconds :: real
  rp_jitter :: bool

definition default_policy :: retry_policy where
  "default_policy = \<lparr>rp_max_attempts = 3, rp_base_delay_seconds = 2 / 10,
     rp_max_delay_seconds = 5, rp_timeout_seconds = 30, rp_jitter = True\<rparr>"

text \<open>\<open>r\<close> is the value \<open>random.random()\<close> returns, in \<open>[0, 1)\<close>.\<close>

definition delay_for :: "retry_policy \<Rightarrow> real \<Rightarrow> int \<Rightarrow> real" where
  "delay_for pol r attempt =
     (if attempt < 1 then 0
      else let raw = rp_base_delay_seconds pol * 2 ^ nat (attempt - 1);
               capped = min raw (rp_max_delay_seconds pol)
           in if \<not> rp_jitter pol then capped else capped * (1 / 2 + r / 2))"

section \<open>The wrapper\<close>

record ('q, 'r, 'w) client =
  cl_model :: string
  cl_call :: "'q \<Rightarrow> 'w \<Rightarrow> 'r result \<times> 'w"
  cl_call_within :: "real \<Rightarrow> 'q \<Rightarrow> 'w \<Rightarrow> 'r result option \<times> 'w"

definition attempt_call :: "retry_policy \<Rightarrow> ('q, 'r, 'w) client \<Rightarrow> 'q \<Rightarrow> 'w \<Rightarrow> 'r result \<times> 'w" where
  "attempt_call pol cl q w =
     (if rp_timeout_seconds pol \<le> 0 then cl_call cl q w
      else (case cl_call_within cl (rp_timeout_seconds pol) q w of
              (None, w') \<Rightarrow> (Inl (LLMTimeoutError (cl_model cl) (rp_timeout_seconds pol)), w')
            | (Some r, w') \<Rightarrow>
                (if r = Inl TimeoutError
                 then Inl (LLMTimeoutError (cl_model cl) (rp_timeout_seconds pol)) else r, w')))"

text \<open>
  The attempts \<open>i, i + 1, ..., max_attempts\<close> at one model. The result is the value of the first
  attempt that succeeds, or the text of the last error. \<open>rest\<close> draws the jitter and sleeps.
\<close>

function try_client ::
    "(py_exn \<Rightarrow> string) \<Rightarrow> (int \<Rightarrow> 'w \<Rightarrow> 'w) \<Rightarrow> retry_policy \<Rightarrow> ('q, 'r, 'w) client \<Rightarrow> 'q
     \<Rightarrow> int \<Rightarrow> string \<Rightarrow> 'w \<Rightarrow> (string + 'r) \<times> 'w" where
  "try_client exn_text rest pol cl q i last_error w =
     (if rp_max_attempts pol < i then (Inl last_error, w)
      else (case attempt_call pol cl q w of
              (Inr r, w') \<Rightarrow> (Inr r, w')
            | (Inl e, w') \<Rightarrow>
                try_client exn_text rest pol cl q (i + 1) (exn_text e)
                  (if i < rp_max_attempts pol then rest i w' else w')))"
  by pat_completeness auto
termination
  by (relation "measure (\<lambda>(exn_text, rest, pol, cl, q, i, e, w). nat (rp_max_attempts pol + 1 - i))") auto

declare try_client.simps [simp del]

fun try_chain ::
    "(py_exn \<Rightarrow> string) \<Rightarrow> (int \<Rightarrow> 'w \<Rightarrow> 'w) \<Rightarrow> retry_policy \<Rightarrow> ('q, 'r, 'w) client list \<Rightarrow> 'q
     \<Rightarrow> string \<Rightarrow> 'w \<Rightarrow> (string + 'r) \<times> 'w" where
  "try_chain exn_text rest pol [] q last_error w = (Inl last_error, w)"
| "try_chain exn_text rest pol (cl # cls) q last_error w =
     (case try_client exn_text rest pol cl q 1 last_error w of
        (Inr r, w') \<Rightarrow> (Inr r, w')
      | (Inl e, w') \<Rightarrow> try_chain exn_text rest pol cls q e w')"

definition resilient_call ::
    "(py_exn \<Rightarrow> string) \<Rightarrow> (int \<Rightarrow> 'w \<Rightarrow> 'w) \<Rightarrow> retry_policy \<Rightarrow> ('q, 'r, 'w) client
     \<Rightarrow> ('q, 'r, 'w) client list \<Rightarrow> 'q \<Rightarrow> 'w \<Rightarrow> 'r result \<times> 'w" where
  "resilient_call exn_text rest pol primary fallbacks q w =
     (case try_chain exn_text rest pol (primary # fallbacks) q ''none'' w of
        (Inr r, w') \<Rightarrow> (Inr r, w')
      | (Inl e, w') \<Rightarrow> (Inl (LLMUnavailableError (map cl_model (primary # fallbacks)) e), w'))"

section \<open>What the wrapper promises\<close>

lemma delay_bounds:
  assumes "0 \<le> rp_base_delay_seconds pol" "0 \<le> rp_max_delay_seconds pol" "0 \<le> r" "r < 1"
  shows "0 \<le> delay_for pol r attempt \<and> delay_for pol r attempt \<le> rp_max_delay_seconds pol"
proof -
  let ?c = "min (rp_base_delay_seconds pol * 2 ^ nat (attempt - 1)) (rp_max_delay_seconds pol)"
  have c: "0 \<le> ?c" "?c \<le> rp_max_delay_seconds pol"
    using assms by (simp_all add: min_def)
  have "?c * (1 / 2 + r / 2) \<le> ?c * 1"
    using c(1) assms by (intro mult_left_mono) auto
  with c assms show ?thesis
    by (auto simp: delay_for_def Let_def)
qed

text \<open>A count of calls that only attempts raise, by at most one each.\<close>

definition counts_attempts ::
    "('w \<Rightarrow> nat) \<Rightarrow> (int \<Rightarrow> 'w \<Rightarrow> 'w) \<Rightarrow> retry_policy \<Rightarrow> ('q, 'r, 'w) client list \<Rightarrow> bool" where
  "counts_attempts n rest pol cls \<longleftrightarrow>
     (\<forall>i w. n (rest i w) = n w) \<and> (\<forall>cl \<in> set cls. \<forall>q w. n (snd (attempt_call pol cl q w)) = Suc (n w))"

lemma try_client_count:
  assumes "counts_attempts n rest pol [cl]"
  shows "n (snd (try_client exn_text rest pol cl q i e w)) \<le> n w + nat (rp_max_attempts pol + 1 - i)"
  using assms
proof (induction exn_text rest pol cl q i e w rule: try_client.induct)
  case (1 exn_text rest pol cl q i e w)
  show ?case
  proof (cases "rp_max_attempts pol < i")
    case True
    then show ?thesis by (simp add: try_client.simps)
  next
    case False
    obtain r w' where a: "attempt_call pol cl q w = (r, w')" by fastforce
    then have n: "n w' = Suc (n w)"
      using 1(2) unfolding counts_attempts_def by (metis list.set_intros(1) snd_conv)
    show ?thesis
    proof (cases r)
      case (Inl x)
      let ?w = "if i < rp_max_attempts pol then rest i w' else w'"
      have "n ?w = Suc (n w)"
        using n 1(2) by (simp add: counts_attempts_def)
      moreover have "n (snd (try_client exn_text rest pol cl q (i + 1) (exn_text x) ?w))
          \<le> n ?w + nat (rp_max_attempts pol + 1 - (i + 1))"
        using 1(1) [OF False a [symmetric] Inl 1(2)] a Inl by simp
      ultimately show ?thesis
        using False a Inl by (simp add: try_client.simps [of _ _ _ _ _ i])
    next
      case (Inr x)
      then show ?thesis using False a n by (simp add: try_client.simps)
    qed
  qed
qed

lemma try_chain_count:
  assumes "counts_attempts n rest pol cls"
  shows "n (snd (try_chain exn_text rest pol cls q e w)) \<le> n w + length cls * nat (rp_max_attempts pol)"
  using assms
proof (induction cls arbitrary: e w)
  case (Cons cl cls)
  obtain r w' where c: "try_client exn_text rest pol cl q 1 e w = (r, w')" by fastforce
  have "counts_attempts n rest pol [cl]" "counts_attempts n rest pol cls"
    using Cons.prems by (auto simp: counts_attempts_def)
  then have "n w' \<le> n w + nat (rp_max_attempts pol)"
      "\<And>e. n (snd (try_chain exn_text rest pol cls q e w')) \<le> n w' + length cls * nat (rp_max_attempts pol)"
    using try_client_count [of n rest pol cl exn_text q 1 e w] Cons.IH c by auto
  then have "n (snd (try_chain exn_text rest pol cls q e' w'))
      \<le> n w + (nat (rp_max_attempts pol) + length cls * nat (rp_max_attempts pol))" for e'
    by (meson add_le_mono le_trans order_refl add.assoc [THEN eq_refl])
  with \<open>n w' \<le> n w + nat (rp_max_attempts pol)\<close> c show ?case
    by (cases r) auto
qed simp

lemma try_client_result:
  "try_client exn_text rest pol cl q i e w = (Inr r, w') \<Longrightarrow> \<exists>v v'. attempt_call pol cl q v = (Inr r, v')"
proof (induction exn_text rest pol cl q i e w rule: try_client.induct)
  case (1 exn_text rest pol cl q i e w)
  have go: "\<not> rp_max_attempts pol < i"
    using 1(2) by (auto simp: try_client.simps [of _ _ _ _ _ i])
  obtain x v where a: "attempt_call pol cl q w = (x, v)" by fastforce
  show ?case
  proof (cases x)
    case (Inl e)
    from 1(1) [OF go a [symmetric] Inl] 1(2) go a Inl show ?thesis
      by (simp add: try_client.simps [of _ _ _ _ _ i])
  next
    case (Inr y)
    with 1(2) go a show ?thesis
      by (auto simp: try_client.simps [of _ _ _ _ _ i])
  qed
qed

lemma try_chain_result:
  "try_chain exn_text rest pol cls q e w = (Inr r, w') \<Longrightarrow>
     \<exists>cl \<in> set cls. \<exists>v v'. attempt_call pol cl q v = (Inr r, v')"
  by (induction cls arbitrary: e w) (auto split: prod.splits sum.splits dest: try_client_result)

text \<open>
  the resilience wrapper makes at most \<open>max_attempts\<close> attempts at each model of the chain, and
  ends in one of two ways only: with a value that one of the models returned, or with
  \<open>LLMUnavailableError\<close> naming the whole chain. No other exception gets out, whatever the
  models raise.
\<close>

theorem resilient_call_bounded:
  assumes "counts_attempts n rest pol (primary # fallbacks)"
    and "resilient_call exn_text rest pol primary fallbacks q w = (r, w')"
  shows "n w' \<le> n w + Suc (length fallbacks) * nat (rp_max_attempts pol)
     \<and> (case r of
          Inr x \<Rightarrow> \<exists>cl \<in> set (primary # fallbacks). \<exists>v v'. attempt_call pol cl q v = (Inr x, v')
        | Inl e \<Rightarrow> \<exists>last. e = LLMUnavailableError (map cl_model (primary # fallbacks)) last)"
proof -
  obtain c v where c: "try_chain exn_text rest pol (primary # fallbacks) q ''none'' w = (c, v)"
    by fastforce
  have "n v \<le> n w + Suc (length fallbacks) * nat (rp_max_attempts pol)"
    using try_chain_count [OF assms(1), of exn_text q "''none''" w] by (simp only: c snd_conv length_Cons)
  moreover have "\<exists>cl \<in> set (primary # fallbacks). \<exists>v v'. attempt_call pol cl q v = (Inr x, v')"
    if "c = Inr x" for x
    by (rule try_chain_result) (use c that in blast)
  moreover have "w' = v" "r = (case c of Inr x \<Rightarrow> Inr x
      | Inl e \<Rightarrow> Inl (LLMUnavailableError (map cl_model (primary # fallbacks)) e))"
    using assms(2) c by (cases c; simp add: resilient_call_def del: try_chain.simps)+
  ultimately show ?thesis
    by (cases c) (simp_all only: sum.case, blast+)
qed

lemma resilient_call_bounded_witness:
  "let pol = default_policy\<lparr>rp_timeout_seconds := 0\<rparr>;
       down = \<lparr>cl_model = ''a'', cl_call = (\<lambda>(q :: string) w. (Inl (RuntimeError ''down''), Suc w)), cl_call_within = (\<lambda>t q w. (None, Suc w))\<rparr>;
       up = \<lparr>cl_model = ''b'', cl_call = (\<lambda>(q :: string) w. (Inr (''answer'' :: string), Suc w)), cl_call_within = (\<lambda>t q w. (None, Suc w))\<rparr>
   in (4 :: nat) \<le> 0 + Suc (length [up]) * nat (rp_max_attempts pol)
     \<and> (\<exists>cl \<in> set (down # [up]). \<exists>v v'. attempt_call pol cl ''q'' v = (Inr ''answer'', v'))"
proof -
  let ?pol = "default_policy\<lparr>rp_timeout_seconds := 0\<rparr>"
  let ?down = "\<lparr>cl_model = ''a'', cl_call = (\<lambda>(q :: string) w. (Inl (RuntimeError ''down''), Suc w)), cl_call_within = (\<lambda>t q w. (None, Suc w))\<rparr>"
  let ?up = "\<lparr>cl_model = ''b'', cl_call = (\<lambda>(q :: string) w. (Inr (''answer'' :: string), Suc w)), cl_call_within = (\<lambda>t q w. (None, Suc w))\<rparr>"
  have "counts_attempts id (\<lambda>i w. w) ?pol (?down # [?up])"
    by (simp add: counts_attempts_def attempt_call_def)
  moreover have "resilient_call (\<lambda>e. ''error'') (\<lambda>i w. w) ?pol ?down [?up] ''q'' 0 = (Inr ''answer'', 4)"
    by (simp add: resilient_call_def try_client.simps attempt_call_def default_policy_def)
  ultimately show ?thesis
    unfolding Let_def using resilient_call_bounded [of id "\<lambda>i w. w" ?pol ?down "[?up]" "\<lambda>e. ''error''" "''q''" 0 "Inr ''answer''" 4]
    by (simp only: sum.case id_apply)
qed

end
