(* ===== verification/Generate.thy ===== *)
theory Generate
  imports Acl Query Llm
begin

text \<open>
  \<open>src/rag/generation\<close> and \<open>src/rag/prompts\<close>: prompt templates, citation markers, refusals and
  grounded generation. The model call and the template files are arguments; spans and metrics
  are left out.
\<close>

section \<open>Templates\<close>

record prompt_template =
  pt_name :: string
  pt_version :: string
  pt_body :: string

definition PLACEHOLDER :: rx where
  "PLACEHOLDER = Seq (rx_text ''{{'') (Seq (Rep True 0 None py_space)
     (Seq (rx_plus py_word_char) (Seq (Rep True 0 None py_space) (rx_text ''}}''))))"

text \<open>Group 1 of a match: what is left between the braces without the white space.\<close>

definition placeholder_name :: "string \<Rightarrow> string" where
  "placeholder_name m = strip (drop 2 (take (length m - 2) m))"

definition render :: "prompt_template \<Rightarrow> (string \<times> string) list \<Rightarrow> string result" where
  "render t kwargs =
     (let names = map (\<lambda>(a, b). placeholder_name (substr (pt_body t) a b)) (finditer PLACEHOLDER (pt_body t));
          missing = filter (\<lambda>n. map_of kwargs n = None) (remdups names) in
      if missing \<noteq> []
      then Inl (KeyError (''Missing placeholders for '' @ pt_name t @ ''@'' @ pt_version t @ '': ''
             @ ''['' @ py_join '', '' (map (\<lambda>n. [CHR 0x27] @ n @ [CHR 0x27]) (sort missing)) @ '']''))
      else Inr (rx_sub PLACEHOLDER
        (\<lambda>m. case map_of kwargs (placeholder_name m) of None \<Rightarrow> [] | Some v \<Rightarrow> v) (pt_body t)))"

section \<open>Citations\<close>

definition cite_char :: "char \<Rightarrow> bool" where
  "cite_char c \<longleftrightarrow> ascii_alnum c \<or> c \<in> set ''_.:-/''"

definition CITATION :: rx where
  "CITATION = Seq (Cls (\<lambda>c. c = CHR ''['')) (Seq (Rep True 4 (Some 128) cite_char) (Cls (\<lambda>c. c = CHR '']'')))"

definition citation_tokens :: "string \<Rightarrow> string list" where
  "citation_tokens t = map (\<lambda>(a, b). substr t (Suc a) (b - 1)) (finditer CITATION t)"

definition citation_from_scored :: "scored_chunk \<Rightarrow> citation" where
  "citation_from_scored s =
     \<lparr>ct_chunk_id = ch_chunk_id (sc_chunk s), ct_doc_id = ch_doc_id (sc_chunk s),
      ct_quote = take 200 (ch_text (sc_chunk s)), ct_score = sc_score s, ct_kind = Chunk_kind,
      ct_ref = ch_chunk_id (sc_chunk s), ct_url = None, ct_title = []\<rparr>"

definition citation_from_source :: "source \<Rightarrow> citation" where
  "citation_from_source s =
     \<lparr>ct_chunk_id = (if src_kind s = Chunk_kind then src_ref s else []), ct_doc_id = src_doc_id s,
      ct_quote = take 200 (src_quote s), ct_score = src_score s, ct_kind = src_kind s,
      ct_ref = src_ref s, ct_url = src_url s, ct_title = src_title s\<rparr>"

definition retriever_name :: "retriever \<Rightarrow> string" where
  "retriever_name r = (case r of Dense \<Rightarrow> ''dense'' | Lexical \<Rightarrow> ''lexical'' | Fused \<Rightarrow> ''fused'' | Rerank \<Rightarrow> ''rerank'')"

definition source_from_scored :: "(json \<Rightarrow> string) \<Rightarrow> scored_chunk \<Rightarrow> source" where
  "source_from_scored py_str s =
     \<lparr>src_kind = Chunk_kind, src_ref = ch_chunk_id (sc_chunk s), src_doc_id = ch_doc_id (sc_chunk s),
      src_title = (case map_of (ch_metadata (sc_chunk s)) ''title'' of
                     None \<Rightarrow> ch_doc_id (sc_chunk s) | Some v \<Rightarrow> py_str v),
      src_quote = take 500 (ch_text (sc_chunk s)), src_score = sc_score s, src_url = None,
      src_acl = Some (ch_acl (sc_chunk s)),
      src_metadata = [(''retriever'', JStr (retriever_name (sc_retriever s))), (''rank'', JInt (int (sc_rank s)))]\<rparr>"

text \<open>A token resolves to the entry of that id, or to the first one that shares a prefix with it.\<close>

fun find_prefix :: "string \<Rightarrow> (string \<times> 'a) list \<Rightarrow> 'a option" where
  "find_prefix token [] = None"
| "find_prefix token ((k, v) # d) =
     (if startswith k token \<or> startswith token (take 12 k) then Some v else find_prefix token d)"

definition find_cited :: "string \<Rightarrow> (string \<times> 'a) list \<Rightarrow> 'a option" where
  "find_cited token d = (case map_of d token of Some v \<Rightarrow> Some v | None \<Rightarrow> find_prefix token d)"

text \<open>The loop over the markers; \<open>seen\<close> keeps an id from being cited twice.\<close>

fun collect_hits :: "('a \<Rightarrow> string) \<Rightarrow> (string \<times> 'a) list \<Rightarrow> string set \<Rightarrow> string list \<Rightarrow> 'a list" where
  "collect_hits ident d seen [] = []"
| "collect_hits ident d seen (token # ts) =
     (case find_cited token d of
        None \<Rightarrow> collect_hits ident d seen ts
      | Some hit \<Rightarrow>
          if ident hit \<in> seen then collect_hits ident d seen ts
          else hit # collect_hits ident d (insert (ident hit) seen) ts)"

definition by_key :: "('a \<Rightarrow> string) \<Rightarrow> 'a list \<Rightarrow> (string \<times> 'a) list" where
  "by_key ident xs = fold (\<lambda>x. AList.update (ident x) x) xs []"

definition resolve_citations :: "string \<Rightarrow> scored_chunk list \<Rightarrow> citation list" where
  "resolve_citations t scored =
     (let ident = (\<lambda>s. ch_chunk_id (sc_chunk s));
          cs = map citation_from_scored (collect_hits ident (by_key ident scored) {} (citation_tokens t))
      in if cs = [] \<and> scored \<noteq> [] then [citation_from_scored (hd scored)] else cs)"

definition resolve_source_citations :: "string \<Rightarrow> source list \<Rightarrow> bool \<Rightarrow> citation list" where
  "resolve_source_citations t sources require_explicit =
     (let cs = map citation_from_source (collect_hits src_ref (by_key src_ref sources) {} (citation_tokens t))
      in if cs = [] \<and> \<not> require_explicit \<and> sources \<noteq> [] then [citation_from_source (hd sources)] else cs)"

section \<open>Refusals\<close>

definition should_refuse :: "scored_chunk list \<Rightarrow> citation list \<Rightarrow> real \<Rightarrow> bool \<times> string option" where
  "should_refuse scored citations threshold =
     (if scored = [] then (True, Some ''no_retrieved_context'')
      else if sc_score (hd scored) < threshold then (True, Some ''low_confidence_score'')
      else if citations = [] then (True, Some ''zero_resolvable_citations'')
      else (False, None))"

definition refused_answer :: "string \<Rightarrow> usage \<Rightarrow> string \<Rightarrow> answer" where
  "refused_answer reason u trace_id =
     \<lparr>a_text = ''I don''@[CHR 0x27]@''t know based on the available documents.'', a_citations = [],
      a_refused = True, a_refusal_reason = Some reason, a_usage = u, a_trace_id = trace_id,
      a_index_version = [], a_latency_ms = 0, a_cached = False\<rparr>"

section \<open>Grounded generation\<close>

text \<open>\<open>f"{x:.4f}"\<close>: four decimals, halves to even.\<close>

definition round_even :: "real \<Rightarrow> int" where
  "round_even x =
     (let f = \<lfloor>x\<rfloor>; d = x - real_of_int f in
      if d < 1 / 2 then f else if 1 / 2 < d then f + 1 else if even f then f else f + 1)"

definition pad4 :: "string \<Rightarrow> string" where
  "pad4 s = replicate (4 - length s) (CHR ''0'') @ s"

definition fmt4 :: "real \<Rightarrow> string" where
  "fmt4 x =
     (let n = nat (round_even (\<bar>x\<bar> * 10000))
      in (if x < 0 then ''-'' else []) @ show_nat (n div 10000) @ ''.'' @ pad4 (show_nat (n mod 10000)))"

definition format_context :: "scored_chunk list \<Rightarrow> string" where
  "format_context scored =
     py_join [CHR 0x0A, CHR 0x0A]
       (map (\<lambda>s. ''[chunk_id='' @ ch_chunk_id (sc_chunk s) @ ''] doc='' @ ch_doc_id (sc_chunk s)
               @ '' score='' @ fmt4 (sc_score s) @ [CHR 0x0A] @ ch_text (sc_chunk s)) scored)"

text \<open>A completion client, as the code sees it.\<close>

record 'w llm =
  llm_model_name :: string
  llm_complete :: "string \<Rightarrow> 'w \<Rightarrow> (string \<times> usage) result \<times> 'w"

definition plain_usage :: "string \<Rightarrow> string \<Rightarrow> usage" where
  "plain_usage model prompt_version = default_usage\<lparr>u_model := model, u_prompt_version := prompt_version\<rparr>"

text \<open>\<open>reason or "unknown"\<close>\<close>

definition opt_str :: "string option \<Rightarrow> string" where
  "opt_str r = (case r of None \<Rightarrow> ''unknown'' | Some s \<Rightarrow> str_or s ''unknown'')"

definition generate_grounded ::
    "(string \<Rightarrow> string \<Rightarrow> prompt_template result) \<Rightarrow> 'w llm \<Rightarrow> string \<Rightarrow> string \<Rightarrow> scored_chunk list \<Rightarrow> real
     \<Rightarrow> string \<Rightarrow> string \<Rightarrow> bool \<Rightarrow> 'w \<Rightarrow> answer result \<times> 'w" where
  "generate_grounded get_prompt m trace_id question scored threshold prompt_name prompt_version redact w =
     (let (early_refuse, early_reason) = should_refuse scored [] threshold in
      if early_refuse \<and> early_reason \<in> {Some ''no_retrieved_context'', Some ''low_confidence_score''}
      then (Inr (refused_answer (opt_str early_reason) (plain_usage (llm_model_name m) prompt_version) trace_id), w)
      else
        (case bind_result (get_prompt prompt_name prompt_version)
                (\<lambda>t. render t [(''question'', question), (''context'', format_context scored),
                               (''prompt_version'', prompt_version)]) of
           Inl e \<Rightarrow> (Inl e, w)
         | Inr prompt \<Rightarrow>
             (case llm_complete m prompt w of
                (Inl e, w') \<Rightarrow> (Inl e, w')
              | (Inr (raw_text, raw_usage), w') \<Rightarrow>
                  (let u = raw_usage\<lparr>u_prompt_version := prompt_version\<rparr>;
                       t = (if redact then redact_pii raw_text else raw_text);
                       citations = resolve_citations t scored;
                       (refuse, reason) = should_refuse scored citations threshold
                   in if refuse then (Inr (refused_answer (opt_str reason) u trace_id), w')
                      else (Inr \<lparr>a_text = t, a_citations = citations, a_refused = False,
                                 a_refusal_reason = None, a_usage = u, a_trace_id = trace_id,
                                 a_index_version = [], a_latency_ms = 0, a_cached = False\<rparr>, w')))))"

section \<open>Markers are resolved soundly\<close>

lemma by_key_entry: "(k, v) \<in> set (by_key ident xs) \<Longrightarrow> v \<in> set xs \<and> k = ident v"
proof -
  have "(k, v) \<in> set (fold (\<lambda>x. AList.update (ident x) x) xs d) \<Longrightarrow>
      (k, v) \<in> set d \<or> (v \<in> set xs \<and> k = ident v)" for d
    by (induction xs arbitrary: d) (auto dest: in_update)
  from this [of "[]"] show "(k, v) \<in> set (by_key ident xs) \<Longrightarrow> v \<in> set xs \<and> k = ident v"
    by (simp add: by_key_def)
qed

text \<open>How a marker may name an entry.\<close>

definition names :: "string \<Rightarrow> string \<Rightarrow> bool" where
  "names token k \<longleftrightarrow> token = k \<or> startswith k token \<or> startswith token (take 12 k)"

lemma find_prefix_sound: "find_prefix token d = Some v \<Longrightarrow> \<exists>k. (k, v) \<in> set d \<and> names token k"
  by (induction token d rule: find_prefix.induct) (auto simp: names_def split: if_splits)

lemma find_cited_sound: "find_cited token d = Some v \<Longrightarrow> \<exists>k. (k, v) \<in> set d \<and> names token k"
proof (cases "map_of d token")
  case None
  then show "find_cited token d = Some v \<Longrightarrow> ?thesis"
    by (simp add: find_cited_def find_prefix_sound)
next
  case (Some u)
  then show "find_cited token d = Some v \<Longrightarrow> ?thesis"
    by (auto simp: find_cited_def names_def dest: map_of_SomeD)
qed

lemma collect_hits_sound:
  "h \<in> set (collect_hits ident d seen ts) \<Longrightarrow> \<exists>token \<in> set ts. find_cited token d = Some h"
  by (induction ident d seen ts rule: collect_hits.induct) (auto split: option.splits if_splits)

lemma collect_hits_distinct:
  "distinct (map ident (collect_hits ident d seen ts))
   \<and> seen \<inter> ident ` set (collect_hits ident d seen ts) = {}"
  by (induction ident d seen ts rule: collect_hits.induct) (auto split: option.splits)

lemma collect_by_key:
  assumes "h \<in> set (collect_hits ident (by_key ident xs) {} ts)"
  shows "h \<in> set xs \<and> (\<exists>token \<in> set ts. names token (ident h))"
proof -
  obtain token where token: "token \<in> set ts" "find_cited token (by_key ident xs) = Some h"
    using collect_hits_sound [OF assms] by blast
  from find_cited_sound [OF this(2)] obtain k where k: "(k, h) \<in> set (by_key ident xs)" "names token k"
    by blast
  from by_key_entry [OF k(1)] k(2) token(1) show ?thesis by blast
qed

lemma resolve_citations_sound:
  "\<forall>c \<in> set (resolve_citations t scored). \<exists>s \<in> set scored. c = citation_from_scored s"
  "distinct (map ct_chunk_id (resolve_citations t scored))"
  "scored \<noteq> [] \<Longrightarrow> resolve_citations t scored \<noteq> []"
proof -
  let ?ident = "\<lambda>s. ch_chunk_id (sc_chunk s)"
  let ?hits = "collect_hits ?ident (by_key ?ident scored) {} (citation_tokens t)"
  have ids: "ct_chunk_id \<circ> citation_from_scored = ?ident"
    by (simp add: citation_from_scored_def comp_def)
  show "\<forall>c \<in> set (resolve_citations t scored). \<exists>s \<in> set scored. c = citation_from_scored s"
    using collect_by_key [of _ ?ident scored] by (auto simp: resolve_citations_def Let_def)
  show "distinct (map ct_chunk_id (resolve_citations t scored))"
    using collect_hits_distinct [of ?ident "by_key ?ident scored" "{}" "citation_tokens t"]
    by (simp add: resolve_citations_def Let_def ids)
  show "scored \<noteq> [] \<Longrightarrow> resolve_citations t scored \<noteq> []"
    by (simp add: resolve_citations_def Let_def)
qed

text \<open>
  With explicit citations required, as the agent does, every citation of an answer comes from
  one of the given sources and from a marker that stands in the text and names it, no source is
  cited twice, and a text without a marker yields no citation at all: grounding is never
  invented.
\<close>

theorem source_citations_explicit:
  "(\<forall>c \<in> set (resolve_source_citations t sources True).
      \<exists>s \<in> set sources. c = citation_from_source s \<and> (\<exists>token \<in> set (citation_tokens t). names token (src_ref s)))
   \<and> distinct (map ct_ref (resolve_source_citations t sources True))
   \<and> (citation_tokens t = [] \<longrightarrow> resolve_source_citations t sources True = [])"
proof -
  let ?hits = "collect_hits src_ref (by_key src_ref sources) {} (citation_tokens t)"
  have eq: "resolve_source_citations t sources True = map citation_from_source ?hits"
    by (simp add: resolve_source_citations_def Let_def)
  have ids: "map ct_ref (map citation_from_source xs) = map src_ref xs" for xs
    by (simp add: citation_from_source_def)
  have "\<forall>c \<in> set (map citation_from_source ?hits). \<exists>s \<in> set sources.
      c = citation_from_source s \<and> (\<exists>token \<in> set (citation_tokens t). names token (src_ref s))"
    using collect_by_key [of _ src_ref sources] by fastforce
  moreover have "distinct (map ct_ref (map citation_from_source ?hits))"
    unfolding ids using collect_hits_distinct by blast
  ultimately show ?thesis unfolding eq by simp
qed

lemma source_citations_explicit_witness:
  "let s = \<lparr>src_kind = Web, src_ref = ''web:1'', src_doc_id = [], src_title = ''t'', src_quote = ''q'', src_score = 1,
        src_url = None, src_acl = None, src_metadata = []\<rparr>
   in resolve_source_citations [] [s] True = []"
proof -
  have "citation_tokens [] = []"
    by (simp add: citation_tokens_def finditer_def rx_spans.simps [of _ "[]"] CITATION_def class_at_def char_at_def)
  then show ?thesis
    unfolding Let_def using source_citations_explicit [of "[]"] by blast
qed

lemma grounded_outcome:
  assumes "generate_grounded get_prompt m trace_id question scored threshold pn pv redact w = (Inr a, w')"
  shows "if a_refused a
     then a_citations a = [] \<and> w' = w
       \<and> a_refusal_reason a = (if scored = [] then Some ''no_retrieved_context'' else Some ''low_confidence_score'')
       \<and> (scored = [] \<or> sc_score (hd scored) < threshold)
     else a_citations a \<noteq> [] \<and> distinct (map ct_chunk_id (a_citations a)) \<and> a_refusal_reason a = None
       \<and> (\<forall>c \<in> set (a_citations a). \<exists>s \<in> set scored. c = citation_from_scored s)
       \<and> scored \<noteq> [] \<and> threshold \<le> sc_score (hd scored)"
proof (cases "scored = [] \<or> sc_score (hd scored) < threshold")
  case True
  then have "a = refused_answer (if scored = [] then ''no_retrieved_context'' else ''low_confidence_score'')
      (plain_usage (llm_model_name m) pv) trace_id \<and> w' = w"
    using assms by (auto simp: generate_grounded_def should_refuse_def opt_str_def str_or_def)
  with True show ?thesis by (simp add: refused_answer_def)
next
  case False
  then obtain t u where "a_citations a = resolve_citations t scored" "\<not> a_refused a" "a_refusal_reason a = None"
    using assms resolve_citations_sound(3) [of scored]
    by (auto simp: generate_grounded_def should_refuse_def Let_def split: sum.splits prod.splits)
  with False show ?thesis
    using resolve_citations_sound [where t = t and scored = scored] by simp
qed

text \<open>
  C21: grounded generation is all or nothing. A refusal has no citation, costs no model call and
  has one of two reasons, which the retrieval alone decides; the third documented reason,
  \<open>zero_resolvable_citations\<close>, never occurs. Any other answer has at least one citation, each
  citation is a retrieved chunk, none is repeated, and the best chunk reached the threshold.
\<close>

theorem generate_grounded_outcome:
  assumes "generate_grounded get_prompt m trace_id question scored threshold pn pv redact w = (Inr a, w')"
  shows "if a_refused a
     then a_citations a = [] \<and> w' = w
       \<and> a_refusal_reason a = (if scored = [] then Some ''no_retrieved_context'' else Some ''low_confidence_score'')
       \<and> (scored = [] \<or> sc_score (hd scored) < threshold)
     else a_citations a \<noteq> [] \<and> distinct (map ct_chunk_id (a_citations a)) \<and> a_refusal_reason a = None
       \<and> (\<forall>c \<in> set (a_citations a). \<exists>s \<in> set scored. c = citation_from_scored s)
       \<and> scored \<noteq> [] \<and> threshold \<le> sc_score (hd scored)"
  by (rule grounded_outcome [OF assms])

lemma generate_grounded_outcome_witness:
  "let scored = [example_hit ''c1'' ''acme'' (1 / 61) 1] in
   \<exists>a w'. generate_grounded (\<lambda>n v. Inr \<lparr>pt_name = n, pt_version = v, pt_body = []\<rparr>)
        \<lparr>llm_model_name = ''echo'', llm_complete = (\<lambda>p w. (Inr (''ok'', default_usage), Suc w))\<rparr>
        ''t'' ''q'' scored (1 / 100) ''answer_grounded'' ''v1'' False 0 = (Inr a, w')
     \<and> (if a_refused a
        then a_citations a = [] \<and> w' = 0
          \<and> a_refusal_reason a = (if scored = [] then Some ''no_retrieved_context'' else Some ''low_confidence_score'')
          \<and> (scored = [] \<or> sc_score (hd scored) < 1 / 100)
        else a_citations a \<noteq> [] \<and> distinct (map ct_chunk_id (a_citations a)) \<and> a_refusal_reason a = None
          \<and> (\<forall>c \<in> set (a_citations a). \<exists>s \<in> set scored. c = citation_from_scored s)
          \<and> scored \<noteq> [] \<and> 1 / 100 \<le> sc_score (hd scored))"
proof -
  let ?scored = "[example_hit ''c1'' ''acme'' (1 / 61) 1]"
  have "\<exists>a w'. generate_grounded (\<lambda>n v. Inr \<lparr>pt_name = n, pt_version = v, pt_body = []\<rparr>)
        \<lparr>llm_model_name = ''echo'', llm_complete = (\<lambda>p w. (Inr (''ok'', default_usage), Suc w))\<rparr>
        ''t'' ''q'' ?scored (1 / 100) ''answer_grounded'' ''v1'' False 0 = (Inr a, w')"
    by (simp add: generate_grounded_def should_refuse_def render_def finditer_def
        rx_spans.simps [of _ "[]"] PLACEHOLDER_def class_at_def char_at_def example_defs Let_def
        resolve_citations_def split: prod.split)
  then obtain a w' where run: "generate_grounded (\<lambda>n v. Inr \<lparr>pt_name = n, pt_version = v, pt_body = []\<rparr>)
        \<lparr>llm_model_name = ''echo'', llm_complete = (\<lambda>p w. (Inr (''ok'', default_usage), Suc w))\<rparr>
        ''t'' ''q'' ?scored (1 / 100) ''answer_grounded'' ''v1'' False 0 = (Inr a, w')"
    by blast
  show ?thesis
    unfolding Let_def by (intro exI conjI, rule run, rule generate_grounded_outcome [OF run])
qed

end
