(* ===== verification/Online.thy ===== *)
theory Online
  imports Hybrid Generate Config
begin

text \<open>
  \<open>src/rag/pipelines/online.py\<close>: the query pipeline, from the caches over retrieval, reranking and
  grounded generation back to the caches. Its backends are the fields of \<open>pipeline\<close>; what they
  change is the state \<open>online_state\<close>. \<open>on_dump\<close> and \<open>on_load\<close> are pydantic's JSON writer and
  reader of an answer, \<open>on_elapsed\<close> the milliseconds since the request began. The locale
  \<open>online\<close> needs only a cache and a reranker that keep their contracts; the indexes may do
  anything.
\<close>

section \<open>Definitions\<close>

record ('s, 't, 'c, 'w) pipeline =
  on_settings :: settings
  on_yaml :: json_dict
  on_dsearch :: "real list \<Rightarrow> int \<Rightarrow> principal \<Rightarrow> string option \<Rightarrow> 's \<Rightarrow> scored_chunk list result"
  on_lsearch :: "string \<Rightarrow> int \<Rightarrow> principal \<Rightarrow> string option \<Rightarrow> 't \<Rightarrow> scored_chunk list result"
  on_resolve_alias :: "string \<Rightarrow> 's \<Rightarrow> string option result"
  on_count :: "string option \<Rightarrow> 's \<Rightarrow> nat result"
  on_embed :: "string list \<Rightarrow> real list list"
  on_embed_query :: "string \<Rightarrow> real list"
  on_hybrid :: hybrid_cfg
  on_rerank :: "string \<Rightarrow> scored_chunk list \<Rightarrow> int \<Rightarrow> scored_chunk list result"
  on_llm :: "'w llm"
  on_get :: "string \<Rightarrow> 'c \<Rightarrow> string option \<times> 'c"
  on_set :: "string \<Rightarrow> string \<Rightarrow> int option \<Rightarrow> 'c \<Rightarrow> 'c"
  on_prompt_version :: string
  on_fallback_version :: "string option"
  on_get_prompt :: "string \<Rightarrow> string \<Rightarrow> prompt_template result"
  on_semantic_max :: int
  on_sha :: "string \<Rightarrow> string"
  on_frepr :: "real \<Rightarrow> string"
  on_dump :: "answer \<Rightarrow> string"
  on_load :: "string \<Rightarrow> answer result"
  on_elapsed :: "'w \<Rightarrow> real"

record ('s, 't, 'c, 'w) online_state =
  ol_dense :: 's
  ol_lexical :: 't
  ol_cache :: 'c
  ol_semantic :: "sem_cache option"
  ol_world :: 'w

definition active_index_version :: "('s, 't, 'c, 'w) pipeline \<Rightarrow> ('s, 't, 'c, 'w) online_state \<Rightarrow> string result" where
  "active_index_version P st =
     bind_result (on_resolve_alias P (se_collection_alias (on_settings P)) (ol_dense st))
       (\<lambda>resolved. Inr (opt_or resolved (opt_or (on_fallback_version P) (se_index_version (on_settings P)))))"

definition query_variants :: "string \<Rightarrow> retrieval_config \<Rightarrow> string list" where
  "query_variants q cfg =
     (let variants = (if rc_multi_query_enabled cfg then expand_multi_query q (rc_multi_query_count cfg)
                      else if rc_rewrite_enabled cfg then rewrite_query q else [q])
      in if variants = [] then [q] else variants)"

definition online_retrieve ::
    "('s, 't, 'c, 'w) pipeline \<Rightarrow> string \<Rightarrow> string \<Rightarrow> principal \<Rightarrow> retrieval_config \<Rightarrow> string
     \<Rightarrow> ('s, 't, 'c, 'w) online_state \<Rightarrow> query_result result" where
  "online_retrieve P trace_id q p cfg iv st =
     (let variants = query_variants q cfg;
          dense_variants = (if rc_hyde_enabled cfg then map (\<lambda>v. str_or (hyde_document v) v) variants else variants)
      in bind_result
           (retrieve_multi (on_dsearch P) (on_lsearch P) (on_embed P) (on_hybrid P) (ol_dense st) (ol_lexical st)
              variants p (rc_top_k cfg) (Some iv) (Some dense_variants)) (\<lambda>scored.
         bind_result (on_rerank P (hd variants) scored (rc_rerank_top_k cfg)) (\<lambda>scored.
           Inr \<lparr>qr_query = q, qr_rewritten = variants, qr_results = scored, qr_index_version = iv,
                qr_trace_id = trace_id, qr_latency_ms = on_elapsed P (ol_world st), qr_cache_hit = False\<rparr>)))"

definition lookup_cache ::
    "('s, 't, 'c, 'w) pipeline \<Rightarrow> string \<Rightarrow> string \<Rightarrow> string \<Rightarrow> ('s, 't, 'c, 'w) online_state
     \<Rightarrow> answer option result \<times> ('s, 't, 'c, 'w) online_state" where
  "lookup_cache P key scope q st =
     (if \<not> se_cache_enabled (on_settings P) then (Inr None, st)
      else
        (let (exact, c') = on_get P key (ol_cache st); st' = st\<lparr>ol_cache := c'\<rparr> in
         case exact of
           Some v \<Rightarrow> (bind_result (on_load P v) (\<lambda>a. Inr (Some a)), st')
         | None \<Rightarrow>
             (case (case ol_semantic st of
                      None \<Rightarrow> None
                    | Some sc \<Rightarrow> semantic_get (on_embed_query P)
                                  (se_semantic_cache_threshold (on_settings P)) q scope sc) of
                Some v \<Rightarrow> (bind_result (on_load P v) (\<lambda>a. Inr (Some a)), st')
              | None \<Rightarrow> (Inr None, st'))))"

definition should_cache :: "('s, 't, 'c, 'w) pipeline \<Rightarrow> answer \<Rightarrow> bool" where
  "should_cache P a \<longleftrightarrow> se_cache_enabled (on_settings P) \<and> \<not> a_refused a"

definition REFUSAL_TEXT :: string where
  "REFUSAL_TEXT = ''I don'' @ [CHR 0x27] @ ''t know based on the available documents.''"

definition online_refuse :: "('s, 't, 'c, 'w) pipeline \<Rightarrow> string \<Rightarrow> string \<Rightarrow> answer" where
  "online_refuse P reason trace_id =
     \<lparr>a_text = REFUSAL_TEXT, a_citations = [], a_refused = True, a_refusal_reason = Some reason,
      a_usage = plain_usage (llm_model_name (on_llm P)) (on_prompt_version P), a_trace_id = trace_id,
      a_index_version = [], a_latency_ms = 0, a_cached = False\<rparr>"

definition greeting :: "('s, 't, 'c, 'w) pipeline \<Rightarrow> string \<Rightarrow> answer" where
  "greeting P trace_id =
     \<lparr>a_text = ''Hello. Ask me a question about the indexed documents.'', a_citations = [],
      a_refused = False, a_refusal_reason = None,
      a_usage = plain_usage (llm_model_name (on_llm P)) (on_prompt_version P), a_trace_id = trace_id,
      a_index_version = [], a_latency_ms = 0, a_cached = False\<rparr>"

definition store_answer ::
    "('s, 't, 'c, 'w) pipeline \<Rightarrow> string \<Rightarrow> string \<Rightarrow> string \<Rightarrow> answer \<Rightarrow> ('s, 't, 'c, 'w) online_state
     \<Rightarrow> ('s, 't, 'c, 'w) online_state" where
  "store_answer P key scope q a st =
     (if should_cache P a
      then let payload = on_dump P a in
        st\<lparr>ol_cache := on_set P key payload (Some (se_cache_ttl_seconds (on_settings P))) (ol_cache st),
           ol_semantic := map_option (semantic_set (on_embed_query P) (on_semantic_max P) q payload scope)
                            (ol_semantic st)\<rparr>
      else st)"

text \<open>The part of \<open>answer\<close> after a cache miss.\<close>

definition online_generate ::
    "('s, 't, 'c, 'w) pipeline \<Rightarrow> string \<Rightarrow> string \<Rightarrow> principal \<Rightarrow> retrieval_config \<Rightarrow> string \<Rightarrow> string \<Rightarrow> string
     \<Rightarrow> ('s, 't, 'c, 'w) online_state \<Rightarrow> answer result \<times> ('s, 't, 'c, 'w) online_state" where
  "online_generate P trace_id q p cfg iv key scope st =
     (if route_query q = REFUSE then (Inr (online_refuse P ''empty_query'' trace_id), st)
      else if route_query q = CHITCHAT then (Inr (greeting P trace_id), st)
      else
        (case online_retrieve P trace_id q p cfg iv st of
           Inl e \<Rightarrow> (Inl e, st)
         | Inr res \<Rightarrow>
             (case generate_grounded (on_get_prompt P) (on_llm P) trace_id q (qr_results res)
                     (se_refusal_score_threshold (on_settings P)) ''answer_grounded'' (on_prompt_version P)
                     (se_pii_redaction_enabled (on_settings P)) (ol_world st) of
                (Inl e, w) \<Rightarrow>
                  if is_llm_error e then (Inr (online_refuse P ''llm_unavailable'' trace_id), st\<lparr>ol_world := w\<rparr>)
                  else (Inl e, st\<lparr>ol_world := w\<rparr>)
              | (Inr a, w) \<Rightarrow>
                  (let a' = a\<lparr>a_trace_id := trace_id, a_index_version := iv\<rparr>
                   in (Inr (a'\<lparr>a_latency_ms := on_elapsed P w\<rparr>),
                       store_answer P key scope q a' (st\<lparr>ol_world := w\<rparr>))))))"

definition online_answer ::
    "('s, 't, 'c, 'w) pipeline \<Rightarrow> string \<Rightarrow> string \<Rightarrow> principal \<Rightarrow> ('s, 't, 'c, 'w) online_state
     \<Rightarrow> answer result \<times> ('s, 't, 'c, 'w) online_state" where
  "online_answer P trace_id q p st =
     (case bind_result (retrieval_config (on_settings P) (on_yaml P)) (\<lambda>cfg.
             bind_result (active_index_version P st) (\<lambda>iv. Inr (cfg, iv))) of
        Inl e \<Rightarrow> (Inl e, st)
      | Inr (cfg, iv) \<Rightarrow>
          (let params = Some (cache_params cfg);
               key = cache_key (on_sha P) (on_frepr P) q p iv (on_prompt_version P) params;
               scope = cache_scope (on_sha P) (on_frepr P) p iv (on_prompt_version P) params
           in (case lookup_cache P key scope q st of
                 (Inl e, st') \<Rightarrow> (Inl e, st')
               | (Inr (Some a), st') \<Rightarrow> (Inr (a\<lparr>a_trace_id := trace_id, a_cached := True\<rparr>), st')
               | (Inr None, st') \<Rightarrow> online_generate P trace_id q p cfg iv key scope st')))"

definition retrieve_only ::
    "('s, 't, 'c, 'w) pipeline \<Rightarrow> string \<Rightarrow> string \<Rightarrow> principal \<Rightarrow> ('s, 't, 'c, 'w) online_state
     \<Rightarrow> query_result result" where
  "retrieve_only P trace_id q p st =
     bind_result (retrieval_config (on_settings P) (on_yaml P)) (\<lambda>cfg.
     bind_result (active_index_version P st) (\<lambda>iv. online_retrieve P trace_id q p cfg iv st))"

text \<open>\<open>readiness\<close>: the checks; \<open>ping\<close> is \<open>None\<close> for a cache without that method.\<close>

definition readiness_checks ::
    "('s, 't, 'c, 'w) pipeline \<Rightarrow> bool option \<Rightarrow> ('s, 't, 'c, 'w) online_state \<Rightarrow> (string \<times> bool) list" where
  "readiness_checks P ping st =
     (let alias = on_resolve_alias P (se_collection_alias (on_settings P)) (ol_dense st);
          version = (case alias of Inl e \<Rightarrow> None | Inr v \<Rightarrow> v)
      in [(''index_alias'', version \<noteq> None \<and> version \<noteq> Some []),
          (''index_populated'', (case on_count P version (ol_dense st) of Inl e \<Rightarrow> False | Inr n \<Rightarrow> 0 < n))]
         @ (case ping of None \<Rightarrow> [] | Some b \<Rightarrow> [(''cache'', b)]))"

definition ready :: "('s, 't, 'c, 'w) pipeline \<Rightarrow> bool option \<Rightarrow> ('s, 't, 'c, 'w) online_state \<Rightarrow> bool" where
  "ready P ping st \<longleftrightarrow> (\<forall>(name, ok) \<in> set (readiness_checks P ping st). ok)"

section \<open>What may stand in a cache\<close>

text \<open>Every citation shows a chunk that the caller may see.\<close>

definition grounded_for :: "principal \<Rightarrow> answer \<Rightarrow> bool" where
  "grounded_for p a \<longleftrightarrow>
     (\<forall>c \<in> set (a_citations a). \<exists>h. is_allowed p (ch_acl (sc_chunk h)) \<and> c = citation_from_scored h)"

definition cacheable_for :: "principal \<Rightarrow> answer \<Rightarrow> bool" where
  "cacheable_for p a \<longleftrightarrow> \<not> a_refused a \<and> a_citations a \<noteq> [] \<and> grounded_for p a"

text \<open>The texts a request hashes, and the floats it prints, lie in \<open>R\<close> and \<open>F\<close>.\<close>

definition covered :: "('s, 't, 'c, 'w) pipeline \<Rightarrow> string set \<Rightarrow> real set \<Rightarrow> principal \<Rightarrow> string \<Rightarrow> json_dict option \<Rightarrow> bool" where
  "covered P R F p iv ps \<longleftrightarrow> clean_principal p
     \<and> json_dumps (on_frepr P) (scope_payload p iv (on_prompt_version P) ps) \<in> R
     \<and> json_floats (scope_payload p iv (on_prompt_version P) ps) \<subseteq> F"

definition key_text :: "('s, 't, 'c, 'w) pipeline \<Rightarrow> string \<Rightarrow> principal \<Rightarrow> string \<Rightarrow> json_dict option \<Rightarrow> string" where
  "key_text P q p iv ps =
     cache_scope (on_sha P) (on_frepr P) p iv (on_prompt_version P) ps @ ''|'' @ normalize_query q"

text \<open>
  The agent keeps its answers in the same cache, under keys whose parameters have the field \<open>agent\<close>
  (\<open>Api\<close>) and whose prompt version is its own.
\<close>

definition covered_at ::
    "('s, 't, 'c, 'w) pipeline \<Rightarrow> string set \<Rightarrow> real set \<Rightarrow> string \<Rightarrow> principal \<Rightarrow> string \<Rightarrow> string \<Rightarrow> json_dict \<Rightarrow> bool" where
  "covered_at P R F q p iv pv ps \<longleftrightarrow> clean_principal p
     \<and> json_dumps (on_frepr P) (scope_payload p iv pv (Some ps)) \<in> R
     \<and> json_floats (scope_payload p iv pv (Some ps)) \<subseteq> F
     \<and> cache_scope (on_sha P) (on_frepr P) p iv pv (Some ps) @ ''|'' @ normalize_query q \<in> R"

definition agent_key :: "('s, 't, 'c, 'w) pipeline \<Rightarrow> string set \<Rightarrow> real set \<Rightarrow> string \<Rightarrow> bool" where
  "agent_key P R F key \<longleftrightarrow>
     (\<exists>q p iv pv ps. key = cache_key (on_sha P) (on_frepr P) q p iv pv (Some ps)
        \<and> ''agent'' \<in> fst ` set ps \<and> covered_at P R F q p iv pv ps)"

text \<open>
  An entry belongs to a caller for whom its answer was made. The agent also keeps the results of its
  tools in the cache, under keys of their own (\<open>Tools\<close>).
\<close>

definition entry_ok ::
    "('s, 't, 'c, 'w) pipeline \<Rightarrow> string set \<Rightarrow> real set \<Rightarrow> string \<Rightarrow> string \<Rightarrow> bool" where
  "entry_ok P R F key v \<longleftrightarrow> startswith key ''tool:'' \<or> agent_key P R F key \<or>
     (\<exists>q p iv ps a. key = cache_key (on_sha P) (on_frepr P) q p iv (on_prompt_version P) ps
        \<and> covered P R F p iv ps \<and> key_text P q p iv ps \<in> R \<and> v = on_dump P a \<and> cacheable_for p a)"

definition scope_ok ::
    "('s, 't, 'c, 'w) pipeline \<Rightarrow> string set \<Rightarrow> real set \<Rightarrow> string \<Rightarrow> string \<Rightarrow> string \<Rightarrow> bool" where
  "scope_ok P R F scope n v \<longleftrightarrow>
     (\<exists>p iv ps a. scope = cache_scope (on_sha P) (on_frepr P) p iv (on_prompt_version P) ps
        \<and> covered P R F p iv ps \<and> v = on_dump P a \<and> cacheable_for p a)"

text \<open>
  What the model relies on about the hash, the float printer and the answer reader: an answer
  that is read back is the one that was written.
\<close>

definition faithful_libs :: "('s, 't, 'c, 'w) pipeline \<Rightarrow> string set \<Rightarrow> real set \<Rightarrow> bool" where
  "faithful_libs P R F \<longleftrightarrow> inj_on (on_sha P) R \<and> hex_digest (on_sha P) \<and> float_text (on_frepr P) F
     \<and> (\<forall>a b. on_load P (on_dump P a) = Inr b \<longrightarrow> b = a)"

section \<open>Keys and scopes tell callers apart\<close>

lemma float_text_mono: "float_text frepr F \<Longrightarrow> G \<subseteq> F \<Longrightarrow> float_text frepr G"
  by (auto simp: float_text_def intro: inj_on_subset)

lemma scope_same_reach:
  assumes "faithful_libs P R F" "covered P R F p iv ps" "covered P R F q iw qs"
    and "cache_scope (on_sha P) (on_frepr P) p iv (on_prompt_version P) ps
         = cache_scope (on_sha P) (on_frepr P) q iw (on_prompt_version P) qs"
  shows "pr_tenant p = pr_tenant q \<and> pr_groups p = pr_groups q"
proof -
  let ?a = "scope_payload p iv (on_prompt_version P) ps"
  let ?b = "scope_payload q iw (on_prompt_version P) qs"
  have "json_dumps (on_frepr P) ?a = json_dumps (on_frepr P) ?b"
    using assms by (auto simp: cache_scope_def covered_def faithful_libs_def dest: inj_onD)
  moreover have "float_text (on_frepr P) (json_floats ?a \<union> json_floats ?b)"
    using assms(1,2,3) float_text_mono [of "on_frepr P" F]
    by (simp add: faithful_libs_def covered_def)
  ultimately have "json_norm ?a = json_norm ?b"
    by (simp add: json_dumps_inject)
  from scope_payload_inject [OF this] show ?thesis
    using assms(2,3) acl_fingerprint_inject by (auto simp: covered_def)
qed

lemma key_same_scope:
  assumes "faithful_libs P R F" "key_text P a p iv ps \<in> R" "key_text P b q iw qs \<in> R"
    and "cache_key (on_sha P) (on_frepr P) a p iv (on_prompt_version P) ps
         = cache_key (on_sha P) (on_frepr P) b q iw (on_prompt_version P) qs"
  shows "cache_scope (on_sha P) (on_frepr P) p iv (on_prompt_version P) ps
       = cache_scope (on_sha P) (on_frepr P) q iw (on_prompt_version P) qs"
proof -
  have "no_collision (on_sha P) (key_text P a p iv ps) (key_text P b q iw qs)"
    using assms(1-3) by (auto simp: no_collision_def faithful_libs_def dest: inj_onD)
  moreover have "hex_digest (on_sha P)"
    using assms(1) by (simp add: faithful_libs_def)
  ultimately show ?thesis
    using assms(4) cache_key_inject [OF _ \<open>no_collision _ _ _\<close> [unfolded key_text_def]] by simp
qed

lemma norm_keys: "json_norm (JDict ps) = json_norm (JDict qs) \<Longrightarrow> fst ` set ps = fst ` set qs"
proof -
  assume "json_norm (JDict ps) = json_norm (JDict qs)"
  then have "set (map (map_prod id json_norm) ps) = set (map (map_prod id json_norm) qs)"
    by (simp only: json_norm.simps json.inject) (rule sort_key_eq_set)
  then have "fst ` map_prod id json_norm ` set ps = fst ` map_prod id json_norm ` set qs"
    by simp
  then show ?thesis by (simp add: image_image)
qed

lemma covered_at_own:
  "covered P R F p iv (Some ps) \<Longrightarrow> key_text P q p iv (Some ps) \<in> R \<Longrightarrow> covered_at P R F q p iv (on_prompt_version P) ps"
  by (simp add: covered_def covered_at_def key_text_def)

lemma same_key_payload:
  assumes libs: "faithful_libs P R F" and cov: "covered_at P R F q p iv pv ps" "covered_at P R F q' p' iv' pv' qs"
    and key: "cache_key (on_sha P) (on_frepr P) q p iv pv (Some ps) = cache_key (on_sha P) (on_frepr P) q' p' iv' pv' (Some qs)"
  shows "json_norm (scope_payload p iv pv (Some ps)) = json_norm (scope_payload p' iv' pv' (Some qs))"
proof -
  let ?a = "scope_payload p iv pv (Some ps)" and ?b = "scope_payload p' iv' pv' (Some qs)"
  have inj: "inj_on (on_sha P) R" and hex: "hex_digest (on_sha P)"
    using libs by (simp_all add: faithful_libs_def)
  have "no_collision (on_sha P) (cache_scope (on_sha P) (on_frepr P) p iv pv (Some ps) @ ''|'' @ normalize_query q)
      (cache_scope (on_sha P) (on_frepr P) p' iv' pv' (Some qs) @ ''|'' @ normalize_query q')"
    using inj cov by (auto simp: no_collision_def covered_at_def dest: inj_onD)
  with cache_key_inject [OF hex this] key
  have "cache_scope (on_sha P) (on_frepr P) p iv pv (Some ps) = cache_scope (on_sha P) (on_frepr P) p' iv' pv' (Some qs)"
    by simp
  then have "json_dumps (on_frepr P) ?a = json_dumps (on_frepr P) ?b"
    using inj cov by (auto simp: cache_scope_def covered_at_def dest: inj_onD)
  moreover have "float_text (on_frepr P) (json_floats ?a \<union> json_floats ?b)"
    using libs cov float_text_mono [of "on_frepr P" F] by (simp add: faithful_libs_def covered_at_def)
  ultimately show ?thesis
    by (simp add: json_dumps_inject)
qed

lemma same_key_reach:
  assumes "faithful_libs P R F" "covered_at P R F q p iv pv ps" "covered_at P R F q' p' iv' pv' qs"
    and "cache_key (on_sha P) (on_frepr P) q p iv pv (Some ps) = cache_key (on_sha P) (on_frepr P) q' p' iv' pv' (Some qs)"
  shows "pr_tenant p = pr_tenant p' \<and> pr_groups p = pr_groups p'"
  using scope_payload_inject [OF same_key_payload [OF assms]] acl_fingerprint_inject assms(2,3)
  by (auto simp: covered_at_def)

lemma agent_key_apart:
  assumes libs: "faithful_libs P R F" and cov: "covered P R F p iv (Some ps)" "key_text P q p iv (Some ps) \<in> R"
    and "''agent'' \<notin> fst ` set ps" "agent_key P R F k"
  shows "k \<noteq> cache_key (on_sha P) (on_frepr P) q p iv (on_prompt_version P) (Some ps)"
proof
  assume k: "k = cache_key (on_sha P) (on_frepr P) q p iv (on_prompt_version P) (Some ps)"
  obtain q' p' iv' pv' qs where a: "k = cache_key (on_sha P) (on_frepr P) q' p' iv' pv' (Some qs)"
      "''agent'' \<in> fst ` set qs" "covered_at P R F q' p' iv' pv' qs"
    using assms(5) unfolding agent_key_def by blast
  from scope_payload_inject [OF same_key_payload [OF libs covered_at_own [OF cov] a(3)]] k a(1)
  have "json_norm (JDict ps) = json_norm (JDict qs)" by simp
  from norm_keys [OF this] a(2) assms(4) show False by simp
qed

lemma cache_params_no_agent: "''agent'' \<notin> fst ` set (cache_params cfg)"
  by (simp add: cache_params_def)

lemma grounded_for_reach:
  assumes "pr_tenant p = pr_tenant q \<and> pr_groups p = pr_groups q"
  shows "cacheable_for p a = cacheable_for q a"
proof -
  have "is_allowed p acl = is_allowed q acl" for acl
    using assms by (simp add: is_allowed_iff)
  then show ?thesis by (simp add: cacheable_for_def grounded_for_def)
qed

section \<open>The pipeline over any cache and any reranker\<close>

definition online_inv ::
    "('s, 't, 'c, 'w) pipeline \<Rightarrow> ('c \<Rightarrow> string \<Rightarrow> string \<Rightarrow> bool) \<Rightarrow> string set \<Rightarrow> real set
     \<Rightarrow> ('s, 't, 'c, 'w) online_state \<Rightarrow> bool" where
  "online_inv P stored R F st \<longleftrightarrow>
     (\<forall>k v. stored (ol_cache st) k v \<longrightarrow> entry_ok P R F k v)
     \<and> (\<forall>c. ol_semantic st = Some c \<longrightarrow>
           sem_inv (on_embed_query P) (on_semantic_max P) (scope_ok P R F) c)"

locale online =
  kv: kv_cache "on_get P" "on_set P" stored + rr: reranker "on_rerank P"
  for P :: "('s, 't, 'c, 'w) pipeline" and stored :: "'c \<Rightarrow> string \<Rightarrow> string \<Rightarrow> bool"
begin

lemma inv_holds: "online_inv P stored R F st \<longleftrightarrow> kv.holds (entry_ok P R F) (ol_cache st)
    \<and> (\<forall>c. ol_semantic st = Some c \<longrightarrow> sem_inv (on_embed_query P) (on_semantic_max P) (scope_ok P R F) c)"
  by (simp add: online_inv_def kv.holds_def)

lemma semantic_value:
  assumes "sem_inv embed_query m Q c" "semantic_get embed_query threshold q scope c = Some v"
  shows "\<exists>n. Q scope n v"
proof -
  obtain b s e where b: "map_of c scope = Some b"
      "best_entry (embed_query (normalize_query q)) None b = Some (s, e)" "v = en_value e"
    using assms(2) by (auto simp: semantic_get_def split: option.splits if_splits prod.splits)
  then have "e \<in> set b"
    using best_entry_in [OF b(2)] by simp
  with assms(1) b show ?thesis
    unfolding sem_inv_def bucket_ok_def by blast
qed

lemma lookup_ok:
  assumes libs: "faithful_libs P R F" and inv: "online_inv P stored R F st"
    and cov: "covered P R F p iv (Some ps)" "key_text P q p iv (Some ps) \<in> R" and own: "''agent'' \<notin> fst ` set ps"
    and run: "lookup_cache P (cache_key (on_sha P) (on_frepr P) q p iv (on_prompt_version P) (Some ps))
        (cache_scope (on_sha P) (on_frepr P) p iv (on_prompt_version P) (Some ps)) q st = (r, st')"
  shows "online_inv P stored R F st' \<and> (\<forall>a. r = Inr (Some a) \<longrightarrow> cacheable_for p a)"
proof (cases "se_cache_enabled (on_settings P)")
  case False
  with run inv show ?thesis by (auto simp: lookup_cache_def)
next
  case True
  let ?key = "cache_key (on_sha P) (on_frepr P) q p iv (on_prompt_version P) (Some ps)"
  let ?scope = "cache_scope (on_sha P) (on_frepr P) p iv (on_prompt_version P) (Some ps)"
  obtain exact c' where g: "on_get P ?key (ol_cache st) = (exact, c')" by fastforce
  have kv: "kv.holds (entry_ok P R F) (ol_cache st)"
    and sem: "\<And>c. ol_semantic st = Some c \<Longrightarrow> sem_inv (on_embed_query P) (on_semantic_max P) (scope_ok P R F) c"
    using inv by (auto simp: inv_holds)
  have "kv.holds (entry_ok P R F) c'"
    using kv.holds_get [OF kv, of ?key] g by simp
  then have inv': "online_inv P stored R F (st\<lparr>ol_cache := c'\<rparr>)"
    using sem by (auto simp: inv_holds)
  have read: "cacheable_for p a" if "cacheable_for p b" "on_load P (on_dump P b) = Inr a" for a b
    using libs that unfolding faithful_libs_def by blast
  show ?thesis
  proof (cases exact)
    case (Some v)
    then have "entry_ok P R F ?key v"
      using kv.holds_get_value [OF kv, of ?key] g by simp
    moreover have "\<not> startswith ?key ''tool:''"
      using libs cache_key_not_tool by (simp add: faithful_libs_def)
    moreover have "\<not> agent_key P R F ?key"
      using agent_key_apart [OF libs cov own] by blast
    ultimately obtain q' p' iv' ps' b where b: "covered P R F p' iv' ps'" "key_text P q' p' iv' ps' \<in> R"
        "?key = cache_key (on_sha P) (on_frepr P) q' p' iv' (on_prompt_version P) ps'"
        "v = on_dump P b" "cacheable_for p' b"
      unfolding entry_ok_def by blast
    have "pr_tenant p = pr_tenant p' \<and> pr_groups p = pr_groups p'"
      using scope_same_reach [OF libs cov(1) b(1)] key_same_scope [OF libs cov(2) b(2,3)] by blast
    then have "cacheable_for p b"
      using grounded_for_reach b(5) by blast
    with run True Some g b(4) inv' read show ?thesis
      by (auto simp: lookup_cache_def)
  next
    case None
    have "cacheable_for p a" if sc: "ol_semantic st = Some sc"
      "semantic_get (on_embed_query P) t q ?scope sc = Some v" and load: "on_load P v = Inr a" for sc v t a
    proof -
      obtain p' iv' ps' b where b: "covered P R F p' iv' ps'"
          "?scope = cache_scope (on_sha P) (on_frepr P) p' iv' (on_prompt_version P) ps'"
          "v = on_dump P b" "cacheable_for p' b"
        using semantic_value [OF sem [OF sc(1)] sc(2)] unfolding scope_ok_def by blast
      have "pr_tenant p = pr_tenant p' \<and> pr_groups p = pr_groups p'"
        by (rule scope_same_reach [OF libs cov(1) b(1,2)])
      then have "cacheable_for p b"
        using grounded_for_reach b(4) by blast
      with read load b(3) show ?thesis by simp
    qed
    with run True None g inv' show ?thesis
      by (auto simp: lookup_cache_def Let_def split: option.splits)
  qed
qed

lemma retrieve_allowed:
  assumes "online_retrieve P trace_id q p cfg iv st = Inr res"
  shows "\<forall>h \<in> set (qr_results res). is_allowed p (ch_acl (sc_chunk h))"
proof -
  let ?variants = "query_variants q cfg"
  let ?dense = "if rc_hyde_enabled cfg then map (\<lambda>v. str_or (hyde_document v) v) ?variants else ?variants"
  obtain scored where s: "retrieve_multi (on_dsearch P) (on_lsearch P) (on_embed P) (on_hybrid P)
        (ol_dense st) (ol_lexical st) ?variants p (rc_top_k cfg) (Some iv) (Some ?dense) = Inr scored"
      "on_rerank P (hd ?variants) scored (rc_rerank_top_k cfg) = Inr (qr_results res)"
    using assms by (auto simp: online_retrieve_def Let_def)
  have "\<forall>h \<in> set scored. is_allowed p (ch_acl (sc_chunk h))"
    using retrieve_multi_safe [OF s(1)] by blast
  from rr.rerank_all [OF s(2) this] show ?thesis .
qed

lemma store_ok:
  assumes inv: "online_inv P stored R F st" and m: "0 \<le> on_semantic_max P"
    and cov: "covered P R F p iv ps" "key_text P q p iv ps \<in> R"
    and ok: "\<not> a_refused a \<Longrightarrow> cacheable_for p a"
  shows "online_inv P stored R F (store_answer P
     (cache_key (on_sha P) (on_frepr P) q p iv (on_prompt_version P) ps)
     (cache_scope (on_sha P) (on_frepr P) p iv (on_prompt_version P) ps) q a st)"
proof (cases "should_cache P a")
  case True
  then have a: "cacheable_for p a" using ok by (simp add: should_cache_def)
  let ?key = "cache_key (on_sha P) (on_frepr P) q p iv (on_prompt_version P) ps"
  let ?scope = "cache_scope (on_sha P) (on_frepr P) p iv (on_prompt_version P) ps"
  have "entry_ok P R F ?key (on_dump P a)"
    unfolding entry_ok_def using cov a by blast
  then have "kv.holds (entry_ok P R F)
      (on_set P ?key (on_dump P a) (Some (se_cache_ttl_seconds (on_settings P))) (ol_cache st))"
    using inv by (auto simp: inv_holds intro: kv.holds_set)
  moreover have "scope_ok P R F ?scope n (on_dump P a)" for n
    unfolding scope_ok_def using cov a by blast
  then have "sem_inv (on_embed_query P) (on_semantic_max P) (scope_ok P R F)
      (semantic_set (on_embed_query P) (on_semantic_max P) q (on_dump P a) ?scope c)"
    if "ol_semantic st = Some c" for c
    using that inv sem_inv_call [of "on_embed_query P" "on_semantic_max P" "scope_ok P R F" c
        "Sem_Set q (on_dump P a) ?scope"] m
    by (simp add: inv_holds)
  ultimately show ?thesis
    using True by (auto simp: store_answer_def inv_holds Let_def)
next
  case False
  with inv show ?thesis by (simp add: store_answer_def)
qed

text \<open>The entries of other clients of the cache are left alone.\<close>

lemma answer_foreign:
  assumes "active_index_version P st = Inr iv" "online_answer P trace_id q p st = (r, st')" "stored (ol_cache st') k v"
    and apart: "k \<noteq> cache_key (on_sha P) (on_frepr P) q p iv (on_prompt_version P) (Some (cache_params (config_of (on_settings P))))"
  shows "stored (ol_cache st) k v"
proof -
  let ?key = "cache_key (on_sha P) (on_frepr P) q p iv (on_prompt_version P) (Some (cache_params (config_of (on_settings P))))"
  have put: "stored (ol_cache s) k v" if "stored (ol_cache (store_answer P ?key scope q a s)) k v" for scope a s
    using that apart by (auto simp: store_answer_def Let_def split: if_splits dest!: kv.set_stored)
  have gen: "stored (ol_cache s) k v"
    if "online_generate P trace_id q p cfg iv ?key scope s = (x, s')" "stored (ol_cache s') k v" for cfg scope s x s'
    using that put [of scope _ "s\<lparr>ol_world := _\<rparr>"]
    by (auto simp: online_generate_def Let_def split: if_splits sum.splits prod.splits)
  have look: "stored (ol_cache s) k v"
    if "lookup_cache P key scope q s = (x, s')" "stored (ol_cache s') k v" for key scope s x s'
    using that kv.get_shrinks
    by (auto simp: lookup_cache_def Let_def split: if_splits option.splits prod.splits)
  show ?thesis
    using assms(1-3) look gen
    by (auto simp: online_answer_def config_from_settings Let_def split: sum.splits option.splits prod.splits)
qed

lemma inv_world: "online_inv P stored R F st \<Longrightarrow> online_inv P stored R F (st\<lparr>ol_world := w\<rparr>)"
  by (simp add: online_inv_def)

lemma generate_ok:
  assumes inv: "online_inv P stored R F st" and m: "0 \<le> on_semantic_max P"
    and cov: "covered P R F p iv ps" "key_text P q p iv ps \<in> R"
    and run: "online_generate P trace_id q p cfg iv
        (cache_key (on_sha P) (on_frepr P) q p iv (on_prompt_version P) ps)
        (cache_scope (on_sha P) (on_frepr P) p iv (on_prompt_version P) ps) st = (r, st')"
  shows "online_inv P stored R F st' \<and> (\<forall>a. r = Inr a \<longrightarrow> grounded_for p a
     \<and> (a_refused a \<longrightarrow> a_citations a = []) \<and> (\<not> a_refused a \<longrightarrow> a_citations a \<noteq> [] \<or> route_query q = CHITCHAT))"
proof (cases "route_query q = REFUSE \<or> route_query q = CHITCHAT")
  case True
  with run inv show ?thesis
    by (auto simp: online_generate_def online_refuse_def greeting_def grounded_for_def split: if_splits)
next
  case False
  show ?thesis
  proof (cases "online_retrieve P trace_id q p cfg iv st")
    case (Inl e)
    with False run inv show ?thesis by (auto simp: online_generate_def)
  next
    case (Inr res)
    obtain g w where g: "generate_grounded (on_get_prompt P) (on_llm P) trace_id q (qr_results res)
        (se_refusal_score_threshold (on_settings P)) ''answer_grounded'' (on_prompt_version P)
        (se_pii_redaction_enabled (on_settings P)) (ol_world st) = (g, w)"
      by fastforce
    show ?thesis
    proof (cases g)
      case (Inl e)
      with False Inr g run inv inv_world [OF inv] show ?thesis
        by (auto simp: online_generate_def online_refuse_def grounded_for_def split: if_splits)
    next
      case g': (Inr a)
      note out = grounded_outcome [OF g [unfolded g']]
      have "grounded_for p a"
        using out retrieve_allowed [OF Inr] unfolding grounded_for_def
        by (auto split: if_splits) blast
      then have a: "grounded_for p a" "a_refused a \<longrightarrow> a_citations a = []"
          "\<not> a_refused a \<longrightarrow> a_citations a \<noteq> []" "\<not> a_refused a \<Longrightarrow> cacheable_for p a"
        using out by (auto simp: cacheable_for_def split: if_splits)
      let ?a = "a\<lparr>a_trace_id := trace_id, a_index_version := iv\<rparr>"
      have "\<not> a_refused ?a \<Longrightarrow> cacheable_for p ?a"
        using a(4) by (simp add: cacheable_for_def grounded_for_def)
      from store_ok [OF inv_world [OF inv] m cov this] a(1,2,3) False Inr g g' run
      show ?thesis
        by (auto simp: online_generate_def grounded_for_def Let_def)
    qed
  qed
qed

lemma answer_ok:
  assumes libs: "faithful_libs P R F" and inv: "online_inv P stored R F st" and m: "0 \<le> on_semantic_max P"
    and version: "active_index_version P st = Inr iv"
    and cov: "covered P R F p iv (Some (cache_params (config_of (on_settings P))))"
      "key_text P q p iv (Some (cache_params (config_of (on_settings P)))) \<in> R"
    and run: "online_answer P trace_id q p st = (r, st')"
  shows "online_inv P stored R F st' \<and> (\<forall>a. r = Inr a \<longrightarrow> grounded_for p a
     \<and> (a_refused a \<longrightarrow> a_citations a = []) \<and> (\<not> a_refused a \<longrightarrow> a_citations a \<noteq> [] \<or> route_query q = CHITCHAT))"
proof -
  let ?ps = "Some (cache_params (config_of (on_settings P)))"
  let ?key = "cache_key (on_sha P) (on_frepr P) q p iv (on_prompt_version P) ?ps"
  let ?scope = "cache_scope (on_sha P) (on_frepr P) p iv (on_prompt_version P) ?ps"
  obtain l st1 where l: "lookup_cache P ?key ?scope q st = (l, st1)" by fastforce
  note found = lookup_ok [OF libs inv cov cache_params_no_agent l]
  have run': "(case l of Inl e \<Rightarrow> (Inl e, st1)
      | Inr None \<Rightarrow> online_generate P trace_id q p (config_of (on_settings P)) iv ?key ?scope st1
      | Inr (Some a) \<Rightarrow> (Inr (a\<lparr>a_trace_id := trace_id, a_cached := True\<rparr>), st1)) = (r, st')"
    using run version l
    by (auto simp: online_answer_def config_from_settings Let_def split: sum.splits option.splits)
  show ?thesis
  proof (cases l)
    case (Inl e)
    with run' found show ?thesis by auto
  next
    case (Inr x)
    show ?thesis
    proof (cases x)
      case None
      with Inr run' found generate_ok [OF _ m cov] show ?thesis by auto
    next
      case (Some a)
      with Inr run' found show ?thesis
        by (auto simp: cacheable_for_def grounded_for_def)
    qed
  qed
qed

end

section \<open>The in-memory deployment\<close>

text \<open>The default backends: \<open>MemoryCache\<close> and \<open>IdentityReranker\<close>; the indexes stay open.\<close>

definition in_memory :: "('s, 't, mem_cache, 'w) pipeline \<Rightarrow> ('s, 't, mem_cache, 'w) pipeline" where
  "in_memory P = P\<lparr>on_get := memory_get, on_set := memory_set, on_rerank := identity_rerank\<rparr>"

lemma in_memory_simps [simp]:
  "on_get (in_memory P) = memory_get" "on_set (in_memory P) = memory_set"
  "on_rerank (in_memory P) = identity_rerank"
  by (simp_all add: in_memory_def)

interpretation mem_online: online "in_memory P" memory_stored for P
  by (intro online.intro) (simp_all add: mem.kv_cache_axioms ident.reranker_axioms)


text \<open>
  A concrete deployment for the examples: a leaky dense index, a hash that keeps lengths apart,
  and a cache that already holds an answer made for the caller.
\<close>

definition example_answer :: answer where
  "example_answer =
     \<lparr>a_text = ''ok'', a_citations = [citation_from_scored (example_hit ''c1'' ''acme'' 1 1)], a_refused = False,
      a_refusal_reason = None, a_usage = default_usage, a_trace_id = ''t'', a_index_version = ''v1'',
      a_latency_ms = 0, a_cached = False\<rparr>"

definition example_sha :: "string \<Rightarrow> string" where
  "example_sha s = map (\<lambda>c. if c = CHR ''|'' \<or> c = CHR '':'' then CHR ''x'' else c) s"

definition example_pipeline :: "(unit, unit, mem_cache, nat) pipeline" where
  "example_pipeline =
     \<lparr>on_settings = default_settings, on_yaml = [],
      on_dsearch = (\<lambda>v k p iv st. Inr [example_hit ''a'' ''other'' 9 1, example_hit ''b'' ''acme'' 8 2]),
      on_lsearch = (\<lambda>q k p iv st. Inr []), on_resolve_alias = (\<lambda>a st. Inr (Some ''v1'')),
      on_count = (\<lambda>iv st. Inr 2), on_embed = map (\<lambda>t. [1, 0]), on_embed_query = (\<lambda>t. [1, 0]),
      on_hybrid = \<lparr>hy_rrf_k = 60, hy_dense_weight = 1, hy_lexical_weight = 1\<rparr>,
      on_rerank = identity_rerank,
      on_llm = \<lparr>llm_model_name = ''echo'', llm_complete = (\<lambda>p w. (Inr (''ok'', default_usage), Suc w))\<rparr>,
      on_get = memory_get, on_set = memory_set, on_prompt_version = ''v1'', on_fallback_version = None,
      on_get_prompt = (\<lambda>n v. Inr \<lparr>pt_name = n, pt_version = v, pt_body = ''{{context}}''\<rparr>),
      on_semantic_max = 256, on_sha = example_sha, on_frepr = (\<lambda>x. ''1.0''),
      on_dump = (\<lambda>a. if a = example_answer then ''a0'' else []),
      on_load = (\<lambda>v. if v = ''a0'' then Inr example_answer else Inl (ValueError ''invalid JSON'')),
      on_elapsed = (\<lambda>w. 0)\<rparr>"

abbreviation example_params :: "json_dict option" where
  "example_params \<equiv> Some (cache_params (config_of default_settings))"

definition example_state :: "(unit, unit, mem_cache, nat) online_state" where
  "example_state =
     \<lparr>ol_dense = (), ol_lexical = (),
      ol_cache = \<lparr>mc_store = [(cache_key example_sha (\<lambda>x. ''1.0'') ''what is it'' example_caller ''v1'' ''v1'' example_params,
                             (''a0'', None))], mc_now = 0\<rparr>,
      ol_semantic = None, ol_world = 0\<rparr>"

definition example_texts :: "string set" where
  "example_texts =
     {json_dumps (\<lambda>x. ''1.0'') (scope_payload example_caller ''v1'' ''v1'' example_params),
      key_text (in_memory example_pipeline) ''what is it'' example_caller ''v1'' example_params}"

lemma example_sha_apart:
  "a \<noteq> b \<Longrightarrow> length a < length b \<Longrightarrow> inj_on example_sha {a, b}"
  by (auto simp: inj_on_def example_sha_def dest: map_eq_imp_length_eq)

lemma example_libs: "faithful_libs (in_memory example_pipeline) example_texts {1}"
proof -
  let ?a = "json_dumps (\<lambda>x. ''1.0'') (scope_payload example_caller ''v1'' ''v1'' example_params)"
  let ?b = "key_text (in_memory example_pipeline) ''what is it'' example_caller ''v1'' example_params"
  have "length ?a < length ?b"
    by (simp add: key_text_def cache_scope_def example_sha_def in_memory_def example_pipeline_def)
  then have "inj_on example_sha example_texts"
    unfolding example_texts_def by (intro example_sha_apart) auto
  moreover have "hex_digest example_sha"
    by (auto simp: hex_digest_def example_sha_def)
  moreover have "float_text (\<lambda>x. ''1.0'') {1}"
    by (simp add: float_text_def num_char_def py_digit_def code_def)
  ultimately show ?thesis
    by (simp add: faithful_libs_def in_memory_def example_pipeline_def)
qed

lemma example_covered:
  "covered (in_memory example_pipeline) example_texts {1} example_caller ''v1'' example_params"
  by (simp add: covered_def example_texts_def in_memory_def example_pipeline_def clean_principal_def
      example_caller_def scope_payload_def cache_params_def config_of_def default_settings_def)

lemma example_inv: "online_inv (in_memory example_pipeline) memory_stored example_texts {1} example_state"
proof -
  have "cacheable_for example_caller example_answer"
    by (auto simp: cacheable_for_def grounded_for_def example_answer_def is_allowed_def example_defs
        intro!: exI [of _ "example_hit ''c1'' ''acme'' 1 1"])
  moreover have "key_text (in_memory example_pipeline) ''what is it'' example_caller ''v1'' example_params
      \<in> example_texts"
    by (simp add: example_texts_def)
  ultimately have "entry_ok (in_memory example_pipeline) example_texts {1}
      (cache_key example_sha (\<lambda>x. ''1.0'') ''what is it'' example_caller ''v1'' ''v1'' example_params) ''a0''"
    unfolding entry_ok_def using example_covered
    by (intro disjI2 exI [of _ "''what is it''"] exI [of _ example_caller] exI [of _ "''v1''"]
        exI [of _ example_params] exI [of _ example_answer])
      (simp add: in_memory_def example_pipeline_def)
  then show ?thesis
    by (auto simp: online_inv_def example_state_def memory_stored_def split: if_splits)
qed




end
