(* ===== verification/Evidence.thy ===== *)
theory Evidence
  imports Generate
begin

text \<open>
  \<open>src/rag/agent/budget.py\<close> and \<open>src/rag/agent/evidence.py\<close>: the spend counter of a turn and
  the ledger of its evidence. Clock readings are arguments (\<open>now\<close>); \<open>_by_ref\<close> is a dictionary
  in insertion order.
\<close>

section \<open>The budget tracker\<close>

record budget_tracker =
  bt_budget :: budget
  bt_steps :: int
  bt_tool_calls :: int
  bt_critique_rounds :: int
  bt_tokens :: int
  bt_cost_usd :: real
  bt_started_at :: real
  bt_usage_total :: usage

definition new_tracker :: "budget \<Rightarrow> real \<Rightarrow> budget_tracker" where
  "new_tracker b now =
     \<lparr>bt_budget = b, bt_steps = 0, bt_tool_calls = 0, bt_critique_rounds = 0, bt_tokens = 0,
      bt_cost_usd = 0, bt_started_at = now, bt_usage_total = default_usage\<rparr>"

definition charge_step :: "budget_tracker \<Rightarrow> budget_tracker" where
  "charge_step t = t\<lparr>bt_steps := bt_steps t + 1\<rparr>"

definition charge_tool_calls :: "int \<Rightarrow> budget_tracker \<Rightarrow> budget_tracker" where
  "charge_tool_calls n t = t\<lparr>bt_tool_calls := bt_tool_calls t + n\<rparr>"

definition charge_critique :: "budget_tracker \<Rightarrow> budget_tracker" where
  "charge_critique t = t\<lparr>bt_critique_rounds := bt_critique_rounds t + 1\<rparr>"

definition charge_usage :: "usage \<Rightarrow> budget_tracker \<Rightarrow> budget_tracker" where
  "charge_usage u t =
     t\<lparr>bt_tokens := bt_tokens t + u_total_tokens u, bt_cost_usd := bt_cost_usd t + u_cost_usd u,
       bt_usage_total := usage_add (bt_usage_total t) u\<rparr>"

definition elapsed_seconds :: "real \<Rightarrow> budget_tracker \<Rightarrow> real" where
  "elapsed_seconds now t = now - bt_started_at t"

definition remaining_seconds :: "real \<Rightarrow> budget_tracker \<Rightarrow> real" where
  "remaining_seconds now t = max 0 (max_wall_clock_seconds (bt_budget t) - elapsed_seconds now t)"

definition terminal_stop :: "real \<Rightarrow> budget_tracker \<Rightarrow> stop_reason option" where
  "terminal_stop now t =
     (if max_steps (bt_budget t) \<le> bt_steps t then Some BUDGET_EXHAUSTED
      else if max_tool_calls (bt_budget t) \<le> bt_tool_calls t then Some BUDGET_EXHAUSTED
      else if max_tokens (bt_budget t) \<le> bt_tokens t then Some BUDGET_EXHAUSTED
      else if max_cost_usd (bt_budget t) \<le> bt_cost_usd t then Some BUDGET_EXHAUSTED
      else if max_wall_clock_seconds (bt_budget t) \<le> elapsed_seconds now t then Some BUDGET_EXHAUSTED
      else None)"

definition remaining_tool_calls :: "budget_tracker \<Rightarrow> int" where
  "remaining_tool_calls t = max 0 (max_tool_calls (bt_budget t) - bt_tool_calls t)"

definition can_critique :: "budget_tracker \<Rightarrow> bool" where
  "can_critique t \<longleftrightarrow> bt_critique_rounds t < max_critique_rounds (bt_budget t)"

lemmas charge_defs = charge_step_def charge_tool_calls_def charge_critique_def charge_usage_def

lemma terminal_stop_None:
  "terminal_stop now t = None \<longleftrightarrow>
     bt_steps t < max_steps (bt_budget t) \<and> bt_tool_calls t < max_tool_calls (bt_budget t)
     \<and> bt_tokens t < max_tokens (bt_budget t) \<and> bt_cost_usd t < max_cost_usd (bt_budget t)
     \<and> now - bt_started_at t < max_wall_clock_seconds (bt_budget t)"
  by (auto simp: terminal_stop_def elapsed_seconds_def)

lemma terminal_stop_Some: "terminal_stop now t = Some s \<Longrightarrow> s = BUDGET_EXHAUSTED"
  by (simp add: terminal_stop_def split: if_splits)

lemma remaining_positive: "terminal_stop now t = None \<Longrightarrow> 0 < remaining_tool_calls t"
  by (simp add: terminal_stop_None remaining_tool_calls_def)

lemma remaining_seconds_bound:
  "0 \<le> max_wall_clock_seconds (bt_budget t) \<Longrightarrow> bt_started_at t \<le> now \<Longrightarrow>
     0 \<le> remaining_seconds now t \<and> remaining_seconds now t \<le> max_wall_clock_seconds (bt_budget t)"
  by (simp add: remaining_seconds_def elapsed_seconds_def)

section \<open>The evidence ledger\<close>

definition DEFAULT_MAX_CHARS :: int where
  "DEFAULT_MAX_CHARS = 6000"

definition MIN_QUOTE_CHARS :: int where
  "MIN_QUOTE_CHARS = 120"

record ledger =
  el_max_chars :: int
  el_max_quote_chars :: int
  el_by_ref :: "(string \<times> source) list"

definition new_ledger :: "int \<Rightarrow> ledger" where
  "new_ledger max_chars = \<lparr>el_max_chars = max_chars, el_max_quote_chars = 500, el_by_ref = []\<rparr>"

text \<open>\<open>add\<close>: the merged dictionary and the sources whose ref was new.\<close>

fun add_sources :: "source list \<Rightarrow> (string \<times> source) list \<Rightarrow> (string \<times> source) list \<times> source list" where
  "add_sources [] d = (d, [])"
| "add_sources (s # ss) d =
     (case map_of d (src_ref s) of
        None \<Rightarrow>
          (let (d', added) = add_sources ss (AList.update (src_ref s) s d) in (d', s # added))
      | Some previous \<Rightarrow>
          if src_score previous < src_score s
          then add_sources ss (AList.update (src_ref s) s d) else add_sources ss d)"

definition ledger_add :: "source list \<Rightarrow> ledger \<Rightarrow> source list \<times> ledger" where
  "ledger_add ss l =
     (let (d, added) = add_sources ss (el_by_ref l) in (added, l\<lparr>el_by_ref := d\<rparr>))"

definition ledger_sources :: "ledger \<Rightarrow> source list" where
  "ledger_sources l = sort_desc src_score (map snd (el_by_ref l))"

definition ledger_len :: "ledger \<Rightarrow> nat" where
  "ledger_len l = length (el_by_ref l)"

section \<open>Rendering\<close>

definition kind_name :: "source_kind \<Rightarrow> string" where
  "kind_name k = (case k of Chunk_kind \<Rightarrow> ''chunk'' | Web \<Rightarrow> ''web'' | Graph \<Rightarrow> ''graph'' | Tool_kind \<Rightarrow> ''tool'')"

definition source_header :: "source \<Rightarrow> string" where
  "source_header s =
     ''['' @ src_ref s @ ''] kind='' @ kind_name (src_kind s) @ '' doc='' @ src_doc_id s
       @ '' score='' @ fmt4 (src_score s)
       @ (if src_title s = [] then [] else '' title='' @ src_title s)"

definition omitted_notice :: "nat \<Rightarrow> string" where
  "omitted_notice n = ''('' @ show_nat n @ '' weaker source(s) omitted to stay within the prompt budget)''"

fun render_parts :: "int \<Rightarrow> int \<Rightarrow> nat \<Rightarrow> int \<Rightarrow> source list \<Rightarrow> string list" where
  "render_parts max_chars max_quote index used [] = []"
| "render_parts max_chars max_quote index used (s # ss) =
     (let header = source_header s;
          budget_left = max_chars - used - int (length header) - 1
      in if budget_left < MIN_QUOTE_CHARS \<and> 0 < index then [omitted_notice (length (s # ss))]
         else let entry = header @ [CHR 0x0A] @ slice_to (src_quote s) (min max_quote budget_left)
           in entry # render_parts max_chars max_quote (Suc index) (used + int (length entry) + 2) ss)"

definition render_sources :: "source list \<Rightarrow> int \<Rightarrow> int \<Rightarrow> string" where
  "render_sources ss max_chars max_quote =
     (if ss = [] then ''(none)''
      else py_join [CHR 0x0A, CHR 0x0A] (render_parts max_chars max_quote 0 0 ss))"

definition ledger_render :: "ledger \<Rightarrow> string" where
  "ledger_render l = render_sources (ledger_sources l) (el_max_chars l) (el_max_quote_chars l)"

section \<open>The ledger keeps the best observation of every ref\<close>

definition ledger_ok :: "source set \<Rightarrow> (string \<times> source) list \<Rightarrow> bool" where
  "ledger_ok H d \<longleftrightarrow> distinct (map fst d) \<and> fst ` set d = src_ref ` H
     \<and> (\<forall>(r, s) \<in> set d. src_ref s = r \<and> s \<in> H \<and> (\<forall>t \<in> H. src_ref t = r \<longrightarrow> src_score t \<le> src_score s))"

lemma ledger_ok_empty: "ledger_ok {} []"
  by (simp add: ledger_ok_def)

lemma ledger_okD:
  assumes "ledger_ok H d" "(r, s) \<in> set d"
  shows "src_ref s = r" "s \<in> H" "\<And>t. t \<in> H \<Longrightarrow> src_ref t = r \<Longrightarrow> src_score t \<le> src_score s"
  using assms by (auto simp: ledger_ok_def)

lemma ledger_ok_new:
  assumes ok: "ledger_ok H d" and "map_of d (src_ref s) = None"
  shows "ledger_ok (insert s H) (AList.update (src_ref s) s d)"
proof -
  have fresh: "src_ref s \<notin> src_ref ` H"
    using assms by (auto simp: ledger_ok_def map_of_eq_None_iff)
  have "src_ref v = r \<and> v \<in> insert s H \<and> (\<forall>t \<in> insert s H. src_ref t = r \<longrightarrow> src_score t \<le> src_score v)"
    if "(r, v) \<in> set (AList.update (src_ref s) s d)" for r v
    using in_update [OF that] ledger_okD [OF ok, of r v] fresh by (metis Pair_inject image_eqI insertE insertI1 insertI2 order_refl)
  moreover have "fst ` set (AList.update (src_ref s) s d) = src_ref ` insert s H"
    using ok by (simp add: ledger_ok_def dom_update flip: dom_map_of_conv_image_fst)
  ultimately show ?thesis
    using ok unfolding ledger_ok_def by (auto simp: distinct_keys_update)
qed

lemma in_update_distinct:
  assumes "distinct (map fst d)" "(r, v) \<in> set (AList.update k x d)"
  shows "(r = k \<and> v = x) \<or> (r \<noteq> k \<and> (r, v) \<in> set d)"
proof -
  have "map_of (AList.update k x d) r = Some v"
    by (rule map_of_is_SomeI [OF distinct_keys_update [OF assms(1)] assms(2)])
  then show ?thesis by (auto split: if_splits dest: map_of_SomeD)
qed

lemma ledger_ok_better:
  assumes ok: "ledger_ok H d" and "map_of d (src_ref s) = Some p" "src_score p < src_score s"
  shows "ledger_ok (insert s H) (AList.update (src_ref s) s d)"
proof -
  have p: "(src_ref s, p) \<in> set d" using assms(2) by (rule map_of_SomeD)
  have d: "distinct (map fst d)" using ok by (simp add: ledger_ok_def)
  have "src_ref v = r \<and> v \<in> insert s H \<and> (\<forall>t \<in> insert s H. src_ref t = r \<longrightarrow> src_score t \<le> src_score v)"
    if rv: "(r, v) \<in> set (AList.update (src_ref s) s d)" for r v
  proof (cases "r = src_ref s")
    case True
    then have "v = s" using in_update_distinct [OF d rv] by blast
    moreover have "src_score t \<le> src_score s" if "t \<in> H" "src_ref t = r" for t
      using ledger_okD(3) [OF ok p that(1)] that(2) True assms(3) by simp
    ultimately show ?thesis using True by blast
  next
    case False
    then have "(r, v) \<in> set d" using in_update_distinct [OF d rv] by blast
    from ledger_okD [OF ok this] False show ?thesis by blast
  qed
  moreover have "fst ` set (AList.update (src_ref s) s d) = src_ref ` insert s H"
    using ok by (simp add: ledger_ok_def dom_update flip: dom_map_of_conv_image_fst)
  ultimately show ?thesis
    using d unfolding ledger_ok_def by (auto simp: distinct_keys_update)
qed

lemma ledger_ok_kept:
  assumes ok: "ledger_ok H d" and "map_of d (src_ref s) = Some p" "\<not> src_score p < src_score s"
  shows "ledger_ok (insert s H) d"
proof -
  have p: "(src_ref s, p) \<in> set d" using assms(2) by (rule map_of_SomeD)
  have d: "distinct (map fst d)" using ok by (simp add: ledger_ok_def)
  have "src_score s \<le> src_score v" if "(src_ref s, v) \<in> set d" for v
    using that p d assms(3) by (metis eq_key_imp_eq_value linorder_not_less)
  moreover have "src_ref s \<in> src_ref ` H"
    using ledger_okD(1,2) [OF ok p] by (metis image_eqI)
  ultimately show ?thesis
    using ok unfolding ledger_ok_def by (auto simp: insert_absorb)
qed

lemma add_sources_ok:
  assumes "ledger_ok H d" "add_sources ss d = (d', added)"
  shows "ledger_ok (set ss \<union> H) d' \<and> set added \<subseteq> set ss
     \<and> src_ref ` set added = src_ref ` set ss - src_ref ` H \<and> distinct (map src_ref added)"
  using assms
proof (induction ss d arbitrary: H d' added rule: add_sources.induct)
  case (1 d)
  then show ?case by simp
next
  case (2 s ss d)
  have keys: "src_ref ` H = fst ` set d"
    using "2.prems"(1) by (simp add: ledger_ok_def)
  show ?case
  proof (cases "map_of d (src_ref s)")
    case None
    obtain e as where e: "add_sources ss (AList.update (src_ref s) s d) = (e, as)" by fastforce
    from 2(1) [OF None ledger_ok_new [OF "2.prems"(1) None] this]
    have IH: "ledger_ok (set ss \<union> insert s H) e" "set as \<subseteq> set ss"
        "src_ref ` set as = src_ref ` set ss - src_ref ` insert s H" "distinct (map src_ref as)"
      by blast+
    have "d' = e" "added = s # as" using "2.prems"(2) None e by simp_all
    moreover have "src_ref s \<notin> src_ref ` H"
      using None keys by (simp add: map_of_eq_None_iff)
    ultimately show ?thesis using IH by auto
  next
    case (Some p)
    then have known: "src_ref s \<in> src_ref ` H"
      using keys by (metis map_of_eq_None_iff option.distinct(1))
    have "ledger_ok (set ss \<union> insert s H) d' \<and> set added \<subseteq> set ss
       \<and> src_ref ` set added = src_ref ` set ss - src_ref ` insert s H \<and> distinct (map src_ref added)"
    proof (cases "src_score p < src_score s")
      case True
      show ?thesis
        by (rule 2(2) [OF Some True ledger_ok_better [OF "2.prems"(1) Some True]])
           (use "2.prems"(2) Some True in simp)
    next
      case False
      show ?thesis
        by (rule 2(3) [OF Some False ledger_ok_kept [OF "2.prems"(1) Some False]])
           (use "2.prems"(2) Some False in simp)
    qed
    with known show ?thesis by auto
  qed
qed

text \<open>A ledger after some rounds of evidence.\<close>

definition ledger_after :: "int \<Rightarrow> source list list \<Rightarrow> ledger" where
  "ledger_after max_chars batches = fold (\<lambda>ss l. snd (ledger_add ss l)) batches (new_ledger max_chars)"

lemma ledger_after_ok: "ledger_ok (set (concat batches)) (el_by_ref (ledger_after m batches))"
proof -
  have "ledger_ok H (el_by_ref l) \<Longrightarrow>
      ledger_ok (set (concat bs) \<union> H) (el_by_ref (fold (\<lambda>ss l. snd (ledger_add ss l)) bs l))" for bs H l
  proof (induction bs arbitrary: H l)
    case (Cons b bs)
    obtain d added where a: "add_sources b (el_by_ref l) = (d, added)" by fastforce
    have "ledger_ok (set b \<union> H) (el_by_ref (snd (ledger_add b l)))"
      using add_sources_ok [OF Cons.prems a] a by (simp add: ledger_add_def)
    from Cons.IH [OF this] show ?case by (simp add: ac_simps)
  qed simp
  from this [of "{}" "new_ledger m" batches] show ?thesis
    by (simp add: ledger_after_def new_ledger_def ledger_ok_empty)
qed

lemma ledger_sources_in: "ledger_ok H (el_by_ref l) \<Longrightarrow> set (ledger_sources l) \<subseteq> H"
  by (auto simp: ledger_sources_def ledger_ok_def)

lemma ledger_add_ok:
  assumes "ledger_ok H (el_by_ref l)"
  shows "ledger_ok (set ss \<union> H) (el_by_ref (snd (ledger_add ss l)))"
proof -
  obtain d added where a: "add_sources ss (el_by_ref l) = (d, added)" by fastforce
  from add_sources_ok [OF assms a] a show ?thesis by (simp add: ledger_add_def)
qed

text \<open>
  C27: after any rounds of evidence the ledger lists, strongest first, exactly one source for
  every ref that was observed, and it is an observation of that ref with the best score; the
  next \<open>add\<close> reports exactly the refs that are new, once each.
\<close>

theorem ledger_exact:
  "let l = ledger_after m batches; S = ledger_sources l; H = set (concat batches) in
     sorted_wrt (\<lambda>a b. src_score b \<le> src_score a) S
   \<and> distinct (map src_ref S) \<and> src_ref ` set S = src_ref ` H
   \<and> (\<forall>s \<in> set S. s \<in> H \<and> (\<forall>t \<in> H. src_ref t = src_ref s \<longrightarrow> src_score t \<le> src_score s))
   \<and> src_ref ` set (fst (ledger_add ss l)) = src_ref ` set ss - src_ref ` H
   \<and> distinct (map src_ref (fst (ledger_add ss l)))"
proof -
  let ?l = "ledger_after m batches"
  let ?H = "set (concat batches)"
  have ok: "ledger_ok ?H (el_by_ref ?l)" by (rule ledger_after_ok)
  obtain d added where a: "add_sources ss (el_by_ref ?l) = (d, added)" by fastforce
  have refs: "map src_ref (map snd (el_by_ref ?l)) = map fst (el_by_ref ?l)"
    using ledger_okD(1) [OF ok] by simp
  have "distinct (map src_ref (map snd (el_by_ref ?l)))"
    unfolding refs using ok by (simp add: ledger_ok_def)
  moreover have "src_ref ` set (map snd (el_by_ref ?l)) = src_ref ` ?H"
    using ok refs by (metis ledger_ok_def list.set_map)
  moreover have "\<forall>s \<in> set (map snd (el_by_ref ?l)).
      s \<in> ?H \<and> (\<forall>t \<in> ?H. src_ref t = src_ref s \<longrightarrow> src_score t \<le> src_score s)"
    using ledger_okD [OF ok] by fastforce
  ultimately show ?thesis
    using add_sources_ok [OF ok a] a sorted_wrt_sort_desc [of src_score "map snd (el_by_ref ?l)"]
    unfolding Let_def ledger_sources_def set_sort_desc distinct_map_sort_desc
    by (simp add: ledger_add_def)
qed

text \<open>Two observations of one ref.\<close>

definition example_source :: "string \<Rightarrow> real \<Rightarrow> source" where
  "example_source ref score =
     \<lparr>src_kind = Chunk_kind, src_ref = ref, src_doc_id = ''d'', src_title = [], src_quote = ''text'', src_score = score,
      src_url = None, src_acl = None, src_metadata = []\<rparr>"

lemma ledger_exact_witness:
  "ledger_sources (ledger_after 6000 [[example_source ''r'' 1], [example_source ''r'' 2]]) = [example_source ''r'' 2]"
proof -
  let ?bs = "[[example_source ''r'' 1], [example_source ''r'' 2]]"
  let ?S = "ledger_sources (ledger_after 6000 ?bs)"
  have H: "set (concat ?bs) = {example_source ''r'' 1, example_source ''r'' 2}" by simp
  have fields: "src_ref (example_source r x) = r" "src_score (example_source r x) = x" for r x
    by (simp_all add: example_source_def)
  note exact = ledger_exact [of 6000 ?bs "[]", unfolded Let_def H]
  have d: "distinct (map src_ref ?S)" using exact by (elim conjE)
  have "src_ref ` set ?S = src_ref ` {example_source ''r'' 1, example_source ''r'' 2}" using exact by (elim conjE)
  then have refs: "src_ref ` set ?S = {''r''}" by (simp add: fields)
  have best: "\<forall>s \<in> set ?S. s \<in> {example_source ''r'' 1, example_source ''r'' 2}
      \<and> (\<forall>t \<in> {example_source ''r'' 1, example_source ''r'' 2}. src_ref t = src_ref s \<longrightarrow> src_score t \<le> src_score s)"
    using exact by (elim conjE)
  have "set ?S \<subseteq> {example_source ''r'' 2}"
  proof
    fix s assume "s \<in> set ?S"
    note s = bspec [OF best this]
    have "example_source ''r'' 2 \<in> {example_source ''r'' 1, example_source ''r'' 2}" by (intro insertI1 insertI2)
    note better = bspec [OF conjunct2 [OF s] this]
    have "s \<noteq> example_source ''r'' 1"
    proof
      assume "s = example_source ''r'' 1"
      from better [unfolded this fields] show False by simp
    qed
    with conjunct1 [OF s] show "s \<in> {example_source ''r'' 2}" by simp
  qed
  moreover have "?S \<noteq> []"
  proof
    assume S: "?S = []"
    from refs [unfolded S] show False by simp
  qed
  moreover have "distinct ?S" using d by (simp only: distinct_map)
  ultimately show ?thesis
    by (cases ?S; cases "tl ?S") simp_all
qed

section \<open>The rendering is bounded\<close>

lemma length_slice_min: "0 \<le> b \<Longrightarrow> int (length (slice_to xs (min q b))) \<le> max b (int (length xs))"
  by (auto simp: slice_to_def min_def)

lemma length_slice_le_bound: "0 \<le> q \<Longrightarrow> 0 \<le> b \<Longrightarrow> int (length (slice_to xs (min q b))) \<le> b"
  using length_slice_to_bound [of "min q b" xs] by simp

lemma length_py_join_Cons:
  "ps \<noteq> [] \<Longrightarrow> length (py_join sep (p # ps)) = length p + length sep + length (py_join sep ps)"
  by (cases ps) auto

lemma render_parts_empty: "render_parts c q i u ss = [] \<longleftrightarrow> ss = []"
  by (cases ss) (auto simp: Let_def)

text \<open>
  \<open>used\<close> counts two characters after every entry, so what is joined from here on fits in
  \<open>max_chars - used\<close>, but for a notice at the end.
\<close>

lemma render_parts_bound:
  assumes "0 \<le> q" "ss \<noteq> []" "0 < i \<or> used + int (length (source_header (hd ss))) + 1 \<le> c"
  shows "int (length (py_join [CHR 0x0A, CHR 0x0A] (render_parts c q i used ss))) \<le> max 0 (c - used)
     \<or> (\<exists>n. 0 < n \<and> n \<le> length ss \<and> (i = 0 \<longrightarrow> n < length ss)
          \<and> int (length (py_join [CHR 0x0A, CHR 0x0A] (render_parts c q i used ss)))
             \<le> max 0 (c - used + 2) + int (length (omitted_notice n)))"
  using assms
proof (induction c q i used ss rule: render_parts.induct)
  case (1 c q i used)
  then show ?case by simp
next
  case (2 c q i used s ss)
  let ?left = "c - used - int (length (source_header s)) - 1"
  let ?entry = "source_header s @ [CHR 0x0A] @ slice_to (src_quote s) (min q ?left)"
  let ?J = "\<lambda>ps. int (length (py_join [CHR 0x0A, CHR 0x0A] ps))"
  show ?case
  proof (cases "?left < MIN_QUOTE_CHARS \<and> 0 < i")
    case True
    then have "render_parts c q i used (s # ss) = [omitted_notice (length (s # ss))]"
      by (simp add: Let_def)
    with True show ?thesis by (intro disjI2 exI [of _ "length (s # ss)"]) simp
  next
    case False
    then have left: "0 \<le> ?left" using "2.prems"(3) by (auto simp: MIN_QUOTE_CHARS_def)
    have eq: "render_parts c q i used (s # ss)
        = ?entry # render_parts c q (Suc i) (used + int (length ?entry) + 2) ss"
      unfolding render_parts.simps(2) Let_def if_not_P [OF False] by (rule refl)
    have e: "int (length ?entry) \<le> c - used"
      using length_slice_le_bound [OF "2.prems"(1) left, of "src_quote s"] by simp
    show ?thesis
    proof (cases "ss = []")
      case True
      with eq e show ?thesis by simp
    next
      case more: False
      let ?u = "used + int (length ?entry) + 2"
      let ?rest = "render_parts c q (Suc i) ?u ss"
      have J: "?J (?entry # ?rest) = int (length ?entry) + 2 + ?J ?rest"
        using length_py_join_Cons [of ?rest "[CHR 0x0A, CHR 0x0A]" ?entry] more
        by (simp add: render_parts_empty del: render_parts.simps)
      have "?J ?rest \<le> max 0 (c - ?u) \<or>
          (\<exists>n. 0 < n \<and> n \<le> length ss \<and> ?J ?rest \<le> max 0 (c - ?u + 2) + int (length (omitted_notice n)))"
        using 2(1) [OF refl refl False refl "2.prems"(1) more] by auto
      then show ?thesis
      proof
        assume small: "?J ?rest \<le> max 0 (c - ?u)"
        show ?thesis
        proof (cases "0 \<le> c - ?u")
          case True
          with small J e show ?thesis unfolding eq by (intro disjI1) simp
        next
          case False
          with small have none: "?J ?rest = 0" by simp
          have "0 < length (omitted_notice (length ss))" by (simp add: omitted_notice_def)
          moreover have "?J (?entry # ?rest) \<le> c - used + 2" using J none e by simp
          ultimately show ?thesis
            unfolding eq using more e
            by (intro disjI2 exI [of _ "length ss"]) (simp add: max_def)
        qed
      next
        assume "\<exists>n. 0 < n \<and> n \<le> length ss \<and> ?J ?rest \<le> max 0 (c - ?u + 2) + int (length (omitted_notice n))"
        then obtain n where n: "0 < n" "n \<le> length ss"
            "?J ?rest \<le> max 0 (c - ?u + 2) + int (length (omitted_notice n))" by blast
        have "?J (?entry # ?rest) \<le> max 0 (c - used + 2) + int (length (omitted_notice n))"
          using n(3) J e by simp
        with n(1,2) show ?thesis unfolding eq by (intro disjI2 exI [of _ n]) simp
      qed
    qed
  qed
qed

text \<open>
  the evidence in a prompt is bounded. When the header of the strongest source fits, the
  rendering has at most \<open>max_chars\<close> characters, or it ends with the notice that names how many
  weaker sources were left out, and is longer by no more than that notice and its separator.
\<close>

theorem render_sources_bounded:
  assumes "0 \<le> max_quote" "ss \<noteq> []" "int (length (source_header (hd ss))) < max_chars"
  shows "int (length (render_sources ss max_chars max_quote)) \<le> max_chars
     \<or> (\<exists>n. 0 < n \<and> n < length ss
          \<and> int (length (render_sources ss max_chars max_quote))
             \<le> max_chars + 2 + int (length (omitted_notice n)))"
  using render_parts_bound [of max_quote ss 0 0 max_chars] assms by (fastforce simp: render_sources_def)

lemma render_sources_bounded_witness:
  "let s = \<lparr>src_kind = Web, src_ref = ''web:1'', src_doc_id = [], src_title = [], src_quote = ''a quote'', src_score = 1,
        src_url = None, src_acl = None, src_metadata = []\<rparr>
   in int (length (render_sources [s] 6000 500)) \<le> 6000
     \<or> (\<exists>n. 0 < n \<and> n < length [s]
          \<and> int (length (render_sources [s] 6000 500)) \<le> 6000 + 2 + int (length (omitted_notice n)))"
proof -
  let ?s = "\<lparr>src_kind = Web, src_ref = ''web:1'', src_doc_id = [], src_title = [], src_quote = ''a quote'', src_score = 1,
        src_url = None, src_acl = None, src_metadata = []\<rparr>"
  have "int (length (source_header (hd [?s]))) < 6000"
    by (simp add: source_header_def kind_name_def fmt4_def round_even_def show_nat.simps pad4_def Let_def)
  then show ?thesis
    unfolding Let_def by (intro render_sources_bounded) simp_all
qed

end
