(* ===== verification/PyVal.thy ===== *)
theory PyVal
  imports Json
begin

text \<open>
  What Python makes of a JSON value: its truth value, its iteration, its type name and its
  \<open>repr\<close>. The tool registry (\<open>src/rag/agent/tools/registry.py\<close>) and the critic
  (\<open>src/rag/agent/critic.py\<close>) read model output through these. The text of a float is the
  parameter \<open>frepr\<close>, as in \<open>Json\<close>.
\<close>

section \<open>Truth and types\<close>

fun truthy :: "json \<Rightarrow> bool" where
  "truthy JNull = False"
| "truthy (JBool b) = b"
| "truthy (JInt i) = (i \<noteq> 0)"
| "truthy (JFloat x) = (x \<noteq> 0)"
| "truthy (JStr s) = (s \<noteq> [])"
| "truthy (JList js) = (js \<noteq> [])"
| "truthy (JDict kvs) = (kvs \<noteq> [])"

fun type_name :: "json \<Rightarrow> string" where
  "type_name JNull = ''NoneType''"
| "type_name (JBool b) = ''bool''"
| "type_name (JInt i) = ''int''"
| "type_name (JFloat x) = ''float''"
| "type_name (JStr s) = ''str''"
| "type_name (JList js) = ''list''"
| "type_name (JDict kvs) = ''dict''"

text \<open>\<open>d.get(k)\<close> and \<open>d.get(k) or alt\<close> on a dictionary.\<close>

definition get_or :: "json_dict \<Rightarrow> string \<Rightarrow> json \<Rightarrow> json" where
  "get_or d k alt = (case map_of d k of None \<Rightarrow> alt | Some v \<Rightarrow> if truthy v then v else alt)"

text \<open>\<open>for x in value\<close>.\<close>

fun py_iter :: "json \<Rightarrow> json list result" where
  "py_iter (JList js) = Inr js"
| "py_iter (JStr s) = Inr (map (\<lambda>c. JStr [c]) s)"
| "py_iter (JDict kvs) = Inr (map (\<lambda>kv. JStr (fst kv)) kvs)"
| "py_iter j = Inl (TypeError (type_name j @ '' object is not iterable''))"

fun hashable :: "json \<Rightarrow> bool" where
  "hashable (JList js) = False"
| "hashable (JDict kvs) = False"
| "hashable j = True"

section \<open>Text\<close>

text \<open>\<open>repr\<close> of a string: single quotes, unless it holds one and no double quote.\<close>

definition repr_char :: "char \<Rightarrow> char \<Rightarrow> string" where
  "repr_char q c =
     (let n = code c; bs = CHR 0x5C in
      if c = q \<or> c = bs then [bs, c]
      else if n = 9 then [bs, CHR ''t'']
      else if n = 10 then [bs, CHR ''n'']
      else if n = 13 then [bs, CHR ''r'']
      else if n < 32 \<or> (127 \<le> n \<and> n \<le> 160) \<or> n = 173
      then [bs, CHR ''x'', hex_digit (n div 16), hex_digit (n mod 16)]
      else [c])"

definition repr_str :: "string \<Rightarrow> string" where
  "repr_str s =
     (let q = (if CHR 0x27 \<in> set s \<and> CHR 0x22 \<notin> set s then CHR 0x22 else CHR 0x27)
      in q # concat (map (repr_char q) s) @ [q])"

primrec py_repr :: "(real \<Rightarrow> string) \<Rightarrow> json \<Rightarrow> string" where
  "py_repr frepr JNull = ''None''"
| "py_repr frepr (JBool b) = (if b then ''True'' else ''False'')"
| "py_repr frepr (JInt i) = show_int i"
| "py_repr frepr (JFloat x) = frepr x"
| "py_repr frepr (JStr s) = repr_str s"
| "py_repr frepr (JList js) = ''['' @ py_join '', '' (map (py_repr frepr) js) @ '']''"
| "py_repr frepr (JDict kvs) =
     ''{'' @ py_join '', '' (map (\<lambda>kv. repr_str (fst kv) @ '': '' @ snd kv)
                               (map (map_prod id (py_repr frepr)) kvs)) @ ''}''"

fun py_str :: "(real \<Rightarrow> string) \<Rightarrow> json \<Rightarrow> string" where
  "py_str frepr (JStr s) = s"
| "py_str frepr j = py_repr frepr j"

lemma py_iter_cases:
  "py_iter j = Inr js \<Longrightarrow> (\<exists>s. j = JStr s) \<or> j = JList js \<or> (\<exists>kvs. j = JDict kvs)"
  by (cases j) auto

lemma get_or_truthy: "truthy alt \<Longrightarrow> truthy (get_or d k alt)"
  by (auto simp: get_or_def split: option.splits)

end
