(* ===== verification/Tools.thy ===== *)
theory Tools
  imports Evidence PyVal Online
begin

text \<open>
  \<open>src/rag/agent/tools\<close>: the tools of the agent, the registry that gates, validates and runs
  them, and the cache of their results. A tool is a record of what its class defines; its
  \<open>available\<close> property and its \<open>run\<close> read and change the world \<open>'w\<close>, and \<open>run\<close> gives \<open>None\<close>
  when the deadline of the turn cancels it. The cache is the shared \<open>Cache\<close>, which is part of
  the world too. Metrics and logs are left out.
\<close>

section \<open>Tools\<close>

record 'w tool =
  tl_name :: string
  tl_description :: string
  tl_parameters :: json_dict
  tl_requires_egress :: bool
  tl_available :: "'w \<Rightarrow> bool"
  tl_run :: "json_dict \<Rightarrow> principal \<Rightarrow> budget_tracker \<Rightarrow> 'w \<Rightarrow> tool_result result option \<times> 'w"

definition tool_spec_of :: "'w tool \<Rightarrow> tool_spec" where
  "tool_spec_of t = \<lparr>ts_name = tl_name t, ts_description = tl_description t, ts_parameters = tl_parameters t\<rparr>"

section \<open>Argument validation\<close>

text \<open>\<open>_matches_type\<close>; \<open>kinds\<close> is the set of the expected names.\<close>

definition matches_kinds :: "json \<Rightarrow> json list \<Rightarrow> bool" where
  "matches_kinds value kinds \<longleftrightarrow>
     (JStr ''string'' \<in> set kinds \<and> (case value of JStr s \<Rightarrow> True | _ \<Rightarrow> False))
     \<or> (JStr ''number'' \<in> set kinds \<and> (case value of JInt i \<Rightarrow> True | JFloat x \<Rightarrow> True | _ \<Rightarrow> False))
     \<or> (JStr ''integer'' \<in> set kinds \<and> (case value of JInt i \<Rightarrow> True | _ \<Rightarrow> False))
     \<or> (JStr ''boolean'' \<in> set kinds \<and> (case value of JBool b \<Rightarrow> True | _ \<Rightarrow> False))
     \<or> (JStr ''array'' \<in> set kinds \<and> (case value of JList js \<Rightarrow> True | _ \<Rightarrow> False))
     \<or> (JStr ''object'' \<in> set kinds \<and> (case value of JDict kvs \<Rightarrow> True | _ \<Rightarrow> False))
     \<or> (JStr ''null'' \<in> set kinds \<and> value = JNull)"

definition matches_type :: "json \<Rightarrow> json \<Rightarrow> bool result" where
  "matches_type value expected =
     (case expected of
        JStr s \<Rightarrow> Inr (matches_kinds value [JStr s])
      | _ \<Rightarrow> bind_result (py_iter expected) (\<lambda>kinds.
               if \<forall>k \<in> set kinds. hashable k then Inr (matches_kinds value kinds)
               else Inl (TypeError ''unhashable type'')))"

definition check_field :: "(real \<Rightarrow> string) \<Rightarrow> json_dict \<Rightarrow> string \<times> json \<Rightarrow> unit \<Rightarrow> unit result" where
  "check_field frepr properties kv u =
     (let (key, value) = kv in
      case get_or properties key (JDict []) of
        JDict prop \<Rightarrow>
          (let expected = (case map_of prop ''type'' of None \<Rightarrow> JNull | Some e \<Rightarrow> e) in
           if \<not> truthy expected then Inr ()
           else bind_result (matches_type value expected) (\<lambda>ok.
             if ok then Inr ()
             else Inl (ValueError (''field '' @ repr_str key @ '' expected '' @ py_str frepr expected
                                   @ '', got '' @ type_name value))))
      | j \<Rightarrow> Inl (AttributeError (type_name j @ '' object has no attribute get'')))"

definition schema_properties :: "json_dict \<Rightarrow> json_dict" where
  "schema_properties schema = (case get_or schema ''properties'' (JDict []) of JDict d \<Rightarrow> d | _ \<Rightarrow> [])"

definition closed_schema :: "json_dict \<Rightarrow> bool" where
  "closed_schema schema \<longleftrightarrow>
     (case map_of schema ''additionalProperties'' of None \<Rightarrow> True | Some j \<Rightarrow> j = JBool False)"

definition key_in :: "json_dict \<Rightarrow> json \<Rightarrow> bool result" where
  "key_in d j =
     (if hashable j then Inr (case j of JStr s \<Rightarrow> s \<in> set (map fst d) | _ \<Rightarrow> False)
      else Inl (TypeError ''unhashable type''))"

text \<open>
  \<open>arguments\<close> is a dictionary of JSON values, so the tests that it is one, and that it can be
  serialised, always succeed.
\<close>

definition validate_arguments :: "(real \<Rightarrow> string) \<Rightarrow> json_dict \<Rightarrow> json_dict \<Rightarrow> json_dict result" where
  "validate_arguments frepr arguments schema =
     (let properties = schema_properties schema;
          unexpected = filter (\<lambda>k. k \<notin> set (map fst properties)) (map fst arguments)
      in if closed_schema schema \<and> unexpected \<noteq> []
         then Inl (ValueError (''unexpected fields: '' @ py_repr frepr (JList (map JStr (sort unexpected)))))
         else
           bind_result (py_iter (get_or schema ''required'' (JList []))) (\<lambda>required.
           bind_result (map_result (\<lambda>k. bind_result (key_in arguments k) (\<lambda>b. Inr (k, b))) required) (\<lambda>present.
           let missing = map fst (filter (\<lambda>(k, b). \<not> b) present) in
           if missing \<noteq> []
           then Inl (ValueError (''missing required fields: '' @ py_repr frepr (JList missing)))
           else bind_result (fold_result (check_field frepr properties) arguments ())
                  (\<lambda>_. Inr arguments))))"

section \<open>The cache of tool results\<close>

record 'w tool_cache =
  tq_get :: "string \<Rightarrow> 'w \<Rightarrow> string option \<times> 'w"
  tq_set :: "string \<Rightarrow> string \<Rightarrow> int option \<Rightarrow> 'w \<Rightarrow> 'w"
  tq_ttl_seconds :: int
  tq_enabled :: bool
  tq_sha :: "string \<Rightarrow> string"
  tq_frepr :: "real \<Rightarrow> string"
  tq_dump :: "tool_result \<Rightarrow> string"
  tq_load :: "string \<Rightarrow> tool_result result"

definition tool_payload :: "string \<Rightarrow> json_dict \<Rightarrow> principal \<Rightarrow> string \<Rightarrow> json" where
  "tool_payload name arguments p iv =
     JDict [(''tool'', JStr name), (''args'', JDict arguments), (''acl'', JStr (acl_fingerprint p)),
            (''index_version'', JStr iv)]"

definition tool_result_cache_key ::
    "(string \<Rightarrow> string) \<Rightarrow> (real \<Rightarrow> string) \<Rightarrow> string \<Rightarrow> json_dict \<Rightarrow> principal \<Rightarrow> string \<Rightarrow> string" where
  "tool_result_cache_key sha frepr name arguments p iv =
     ''tool:'' @ sha (json_dumps frepr (tool_payload name arguments p iv))"

definition tool_cache_get ::
    "'w tool_cache \<Rightarrow> string \<Rightarrow> json_dict \<Rightarrow> principal \<Rightarrow> string \<Rightarrow> 'w \<Rightarrow> tool_result option \<times> 'w" where
  "tool_cache_get tq name arguments p iv w =
     (if \<not> tq_enabled tq then (None, w)
      else (case tq_get tq (tool_result_cache_key (tq_sha tq) (tq_frepr tq) name arguments p iv) w of
              (None, w') \<Rightarrow> (None, w')
            | (Some raw, w') \<Rightarrow> (case tq_load tq raw of Inl e \<Rightarrow> None | Inr r \<Rightarrow> Some r, w')))"

definition tool_cache_set ::
    "'w tool_cache \<Rightarrow> string \<Rightarrow> json_dict \<Rightarrow> principal \<Rightarrow> tool_result \<Rightarrow> string \<Rightarrow> 'w \<Rightarrow> 'w" where
  "tool_cache_set tq name arguments p r iv w =
     (if \<not> tq_enabled tq \<or> \<not> tr_ok r then w
      else tq_set tq (tool_result_cache_key (tq_sha tq) (tq_frepr tq) name arguments p iv)
             (tq_dump tq (r\<lparr>tr_call_id := []\<rparr>)) (Some (tq_ttl_seconds tq)) w)"

section \<open>The registry\<close>

record 'w registry =
  rg_tools :: "(string \<times> 'w tool) list"
  rg_result_cache :: "'w tool_cache option"

definition register :: "'w tool \<Rightarrow> 'w registry \<Rightarrow> 'w registry result" where
  "register t R =
     (if map_of (rg_tools R) (tl_name t) \<noteq> None
      then Inl (ValueError (''duplicate tool registration: '' @ tl_name t))
      else Inr (R\<lparr>rg_tools := AList.update (tl_name t) t (rg_tools R)\<rparr>))"

definition new_registry :: "'w tool list \<Rightarrow> 'w tool_cache option \<Rightarrow> 'w registry result" where
  "new_registry ts tq = fold_result register ts \<lparr>rg_tools = [], rg_result_cache = tq\<rparr>"

definition allowed_for :: "'w registry \<Rightarrow> bool \<Rightarrow> 'w \<Rightarrow> 'w tool list" where
  "allowed_for R allow_egress w =
     filter (\<lambda>t. tl_available t w \<and> (allow_egress \<or> \<not> tl_requires_egress t)) (map snd (rg_tools R))"

definition tool_specs :: "'w registry \<Rightarrow> bool \<Rightarrow> 'w \<Rightarrow> tool_spec list" where
  "tool_specs R allow_egress w = map tool_spec_of (allowed_for R allow_egress w)"

definition failed_result :: "tool_call \<Rightarrow> string \<Rightarrow> tool_result" where
  "failed_result call err =
     \<lparr>tr_call_id = tc_id call, tr_name = tc_name call, tr_ok = False, tr_content = [], tr_sources = [],
      tr_error = Some err, tr_latency_ms = 0\<rparr>"

definition rebind :: "tool_call \<Rightarrow> tool_result \<Rightarrow> tool_result" where
  "rebind call r = r\<lparr>tr_call_id := tc_id call, tr_name := tc_name call\<rparr>"

text \<open>The part of \<open>execute\<close> after the gates and the validation.\<close>

definition execute_valid ::
    "(py_exn \<Rightarrow> string) \<Rightarrow> 'w tool_cache option \<Rightarrow> 'w tool \<Rightarrow> tool_call \<Rightarrow> json_dict \<Rightarrow> principal
     \<Rightarrow> budget_tracker \<Rightarrow> string \<Rightarrow> 'w \<Rightarrow> tool_result result option \<times> 'w" where
  "execute_valid exn_text tq t call arguments p b iv w =
     (case (case tq of None \<Rightarrow> (None, w) | Some c \<Rightarrow> tool_cache_get c (tc_name call) arguments p iv w) of
        (Some cached, w1) \<Rightarrow> (Some (Inr (rebind call cached)), w1)
      | (None, w1) \<Rightarrow>
          (case tl_run t arguments p b w1 of
             (None, w2) \<Rightarrow> (None, w2)
           | (Some (Inl e), w2) \<Rightarrow> (Some (Inr (failed_result call (exn_text e))), w2)
           | (Some (Inr r), w2) \<Rightarrow>
               (Some (Inr (rebind call r)),
                case tq of
                  None \<Rightarrow> w2
                | Some c \<Rightarrow> if tr_ok r then tool_cache_set c (tc_name call) arguments p (rebind call r) iv w2
                            else w2)))"

definition execute ::
    "(py_exn \<Rightarrow> string) \<Rightarrow> (real \<Rightarrow> string) \<Rightarrow> 'w registry \<Rightarrow> tool_call \<Rightarrow> principal \<Rightarrow> budget_tracker
     \<Rightarrow> bool \<Rightarrow> string \<Rightarrow> 'w \<Rightarrow> tool_result result option \<times> 'w" where
  "execute exn_text frepr R call p b allow_egress iv w =
     (case map_of (rg_tools R) (tc_name call) of
        None \<Rightarrow> (Some (Inr (failed_result call (''unknown_tool:'' @ tc_name call))), w)
      | Some t \<Rightarrow>
          if tl_requires_egress t \<and> \<not> allow_egress then (Some (Inr (failed_result call ''egress_denied'')), w)
          else if \<not> tl_available t w
          then (Some (Inr (failed_result call (''tool_unavailable:'' @ tc_name call))), w)
          else
            (case validate_arguments frepr (tc_arguments call) (tl_parameters t) of
               Inl (ValueError m) \<Rightarrow> (Some (Inr (failed_result call (''invalid_arguments:'' @ m))), w)
             | Inl e \<Rightarrow> (Some (Inl e), w)
             | Inr arguments \<Rightarrow> execute_valid exn_text (rg_result_cache R) t call arguments p b iv w))"

section \<open>The three tools\<close>

definition schema_of :: "json_dict \<Rightarrow> json_dict" where
  "schema_of properties =
     [(''type'', JStr ''object''), (''properties'', JDict properties),
      (''required'', JList [JStr ''query'']), (''additionalProperties'', JBool False)]"

definition field :: "string \<Rightarrow> string \<Rightarrow> json" where
  "field ty description = JDict [(''type'', JStr ty), (''description'', JStr description)]"

definition retrieval_parameters :: json_dict where
  "retrieval_parameters = schema_of
     [(''query'', field ''string'' ''Search query; rewrite/expand as needed for multi-hop.''),
      (''top_k'', field ''integer'' ''Maximum passages to return (1-20).'')]"

text \<open>
  \<open>int(arguments.get("top_k") or settings.top_k)\<close>, clamped; a \<open>top_k\<close> that is a string does not
  pass the validation, and reading one is not modelled.
\<close>

definition arg_top_k :: "settings \<Rightarrow> json_dict \<Rightarrow> int result" where
  "arg_top_k s arguments =
     bind_result
       (case get_or arguments ''top_k'' (JInt (se_top_k s)) of
          JInt i \<Rightarrow> Inr i
        | JBool b \<Rightarrow> Inr (if b then 1 else 0)
        | JFloat x \<Rightarrow> Inr (if x < 0 then - \<lfloor>- x\<rfloor> else \<lfloor>x\<rfloor>)
        | j \<Rightarrow> Inl (TypeError (''int() argument must be a number, not '' @ type_name j)))
       (\<lambda>i. Inr (max 1 (min i 20)))"

definition passage_line :: "source \<Rightarrow> string" where
  "passage_line s = ''['' @ src_ref s @ ''] score='' @ fmt4 (src_score s) @ '' doc='' @ src_doc_id s
     @ [CHR 0x0A] @ src_quote s"

definition passages :: "source list \<Rightarrow> string" where
  "passages ss = (if ss = [] then ''No authorised passages found.''
                  else py_join [CHR 0x0A, CHR 0x0A] (map passage_line ss))"

text \<open>\<open>deadline st\<close> says that the deadline of the turn ends the wait for the worker thread.\<close>

definition retrieval_run ::
    "('s, 't, 'c, 'w) pipeline \<Rightarrow> (('s, 't, 'c, 'w) online_state \<Rightarrow> bool) \<Rightarrow> string \<Rightarrow> json_dict \<Rightarrow> principal
     \<Rightarrow> budget_tracker \<Rightarrow> ('s, 't, 'c, 'w) online_state
     \<Rightarrow> tool_result result option \<times> ('s, 't, 'c, 'w) online_state" where
  "retrieval_run P deadline trace_id arguments p b st =
     (case bind_result (case map_of arguments ''query'' of None \<Rightarrow> Inl (KeyError ''query'')
                        | Some q \<Rightarrow> Inr (py_str (on_frepr P) q)) (\<lambda>q.
             bind_result (arg_top_k (on_settings P) arguments) (\<lambda>k. Inr (q, k))) of
        Inl e \<Rightarrow> (Some (Inl e), st)
      | Inr (q, k) \<Rightarrow>
          if deadline st then (None, st)
          else (Some (bind_result (retrieve_only P trace_id q p st) (\<lambda>res.
                  let scored = slice_to (qr_results res) k;
                      sources = map (source_from_scored (py_str (on_frepr P)))
                                  (filter (\<lambda>s. is_allowed p (ch_acl (sc_chunk s))) scored)
                  in Inr \<lparr>tr_call_id = [], tr_name = ''retrieval_search'', tr_ok = True,
                          tr_content = passages sources, tr_sources = sources, tr_error = None,
                          tr_latency_ms = on_elapsed P (ol_world st)\<rparr>)), st))"

definition retrieval_tool ::
    "('s, 't, 'c, 'w) pipeline \<Rightarrow> (('s, 't, 'c, 'w) online_state \<Rightarrow> bool) \<Rightarrow> string
     \<Rightarrow> ('s, 't, 'c, 'w) online_state tool" where
  "retrieval_tool P deadline trace_id =
     \<lparr>tl_name = ''retrieval_search'',
      tl_description = ''Search the indexed corpus with hybrid dense+lexical retrieval. ''
        @ ''Use for factual questions about internal documents. ''
        @ ''Returns passages the caller is allowed to see.'',
      tl_parameters = retrieval_parameters, tl_requires_egress = False, tl_available = (\<lambda>st. True),
      tl_run = retrieval_run P deadline trace_id\<rparr>"

definition web_search_tool :: "'w tool" where
  "web_search_tool =
     \<lparr>tl_name = ''web_search'',
      tl_description = ''Search the public web for up-to-date information not in the corpus. ''
        @ ''Requires egress permission.'',
      tl_parameters = schema_of
        [(''query'', field ''string'' ''Web search query.''),
         (''max_results'', field ''integer'' ''Max results (1-10).'')],
      tl_requires_egress = True, tl_available = (\<lambda>st. False),
      tl_run = (\<lambda>arguments p b w. (Some (Inl (MissingBackendError ''WebSearchTool'' ''web'')), w))\<rparr>"

definition graph_query_tool :: "'w tool" where
  "graph_query_tool =
     \<lparr>tl_name = ''graph_query'',
      tl_description = ''Query the knowledge graph for entities and relations.'',
      tl_parameters = schema_of
        [(''query'', field ''string'' ''Natural-language or structured graph query.'')],
      tl_requires_egress = False, tl_available = (\<lambda>st. False),
      tl_run = (\<lambda>arguments p b w. (Some (Inl (MissingBackendError ''GraphQueryTool'' ''graph'')), w))\<rparr>"

text \<open>\<open>build_tool_registry\<close>: the pipeline's own cache holds the tool results too.\<close>

definition pipeline_tool_cache ::
    "('s, 't, 'c, 'w) pipeline \<Rightarrow> (tool_result \<Rightarrow> string) \<Rightarrow> (string \<Rightarrow> tool_result result)
     \<Rightarrow> ('s, 't, 'c, 'w) online_state tool_cache" where
  "pipeline_tool_cache P dump load =
     \<lparr>tq_get = (\<lambda>k st. let (v, c) = on_get P k (ol_cache st) in (v, st\<lparr>ol_cache := c\<rparr>)),
      tq_set = (\<lambda>k v ttl st. st\<lparr>ol_cache := on_set P k v ttl (ol_cache st)\<rparr>),
      tq_ttl_seconds = se_agent_tool_cache_ttl_seconds (on_settings P), tq_enabled = True,
      tq_sha = on_sha P, tq_frepr = on_frepr P, tq_dump = dump, tq_load = load\<rparr>"

definition build_tool_registry ::
    "('s, 't, 'c, 'w) pipeline \<Rightarrow> (('s, 't, 'c, 'w) online_state \<Rightarrow> bool) \<Rightarrow> string \<Rightarrow> (tool_result \<Rightarrow> string)
     \<Rightarrow> (string \<Rightarrow> tool_result result) \<Rightarrow> ('s, 't, 'c, 'w) online_state registry result" where
  "build_tool_registry P deadline trace_id dump load =
     new_registry [retrieval_tool P deadline trace_id, web_search_tool, graph_query_tool]
       (if se_agent_tool_cache_enabled (on_settings P) then Some (pipeline_tool_cache P dump load) else None)"

section \<open>Validation is exact\<close>

text \<open>A schema as the tools write them: declared types are names, required fields are names.\<close>

definition good_schema :: "json_dict \<Rightarrow> bool" where
  "good_schema schema \<longleftrightarrow>
     (\<exists>ps rs. map_of schema ''properties'' = Some (JDict ps) \<and> map_of schema ''required'' = Some (JList (map JStr rs))
        \<and> (\<forall>(k, j) \<in> set ps. \<exists>prop ty. j = JDict prop \<and> map_of prop ''type'' = Some (JStr ty)))"

definition required_fields :: "json_dict \<Rightarrow> string set" where
  "required_fields schema = {k. \<exists>js. map_of schema ''required'' = Some (JList js) \<and> JStr k \<in> set js}"

definition declared_type :: "json_dict \<Rightarrow> string \<Rightarrow> string \<Rightarrow> bool" where
  "declared_type schema k ty \<longleftrightarrow> ty \<noteq> [] \<and>
     (\<exists>ps prop. map_of schema ''properties'' = Some (JDict ps) \<and> map_of ps k = Some (JDict prop)
        \<and> map_of prop ''type'' = Some (JStr ty))"

definition valid_arguments :: "json_dict \<Rightarrow> json_dict \<Rightarrow> bool" where
  "valid_arguments arguments schema \<longleftrightarrow>
     (closed_schema schema \<longrightarrow> fst ` set arguments \<subseteq> fst ` set (schema_properties schema))
     \<and> required_fields schema \<subseteq> fst ` set arguments
     \<and> (\<forall>(k, v) \<in> set arguments. \<forall>ty. declared_type schema k ty \<longrightarrow> matches_kinds v [JStr ty])"

lemma check_field_good:
  assumes ps: "schema_properties schema = ps" and good: "good_schema schema"
  shows "if \<forall>ty. declared_type schema k ty \<longrightarrow> matches_kinds v [JStr ty]
         then check_field frepr ps (k, v) u = Inr ()
         else \<exists>m. check_field frepr ps (k, v) u = Inl (ValueError m)"
proof -
  obtain qs where qs: "map_of schema ''properties'' = Some (JDict qs)"
      "\<forall>(k, j) \<in> set qs. \<exists>prop ty. j = JDict prop \<and> map_of prop ''type'' = Some (JStr ty)"
    using good by (auto simp: good_schema_def)
  have "ps = qs" using ps qs(1) by (auto simp: schema_properties_def get_or_def)
  show ?thesis
  proof (cases "map_of qs k")
    case None
    then show ?thesis
      using qs(1) \<open>ps = qs\<close> by (simp add: check_field_def get_or_def declared_type_def)
  next
    case (Some j)
    then obtain pr ty where j: "j = JDict pr" "map_of pr ''type'' = Some (JStr ty)"
      using qs(2) map_of_SomeD [OF Some] by auto
    then have "pr \<noteq> []" by auto
    with j Some qs(1) \<open>ps = qs\<close> show ?thesis
      by (simp add: check_field_def get_or_def declared_type_def matches_type_def Let_def)
  qed
qed

lemma check_fields_good:
  assumes "schema_properties schema = ps" "good_schema schema"
  shows "if \<forall>(k, v) \<in> set arguments. \<forall>ty. declared_type schema k ty \<longrightarrow> matches_kinds v [JStr ty]
         then fold_result (check_field frepr ps) arguments () = Inr ()
         else \<exists>m. fold_result (check_field frepr ps) arguments () = Inl (ValueError m)"
proof (induction arguments)
  case Nil
  then show ?case by simp
next
  case (Cons kv arguments)
  obtain k v where kv: "kv = (k, v)" by fastforce
  show ?case
    using Cons.IH check_field_good [OF assms, of k v frepr "()"] unfolding kv
    by (cases "\<forall>ty. declared_type schema k ty \<longrightarrow> matches_kinds v [JStr ty]")
       (auto split: if_splits)
qed

lemma required_present:
  "map_result (\<lambda>k. bind_result (key_in arguments k) (\<lambda>b. Inr (k, b))) (map JStr rs)
     = Inr (map (\<lambda>r. (JStr r, r \<in> set (map fst arguments))) rs)"
  by (induction rs) (simp_all add: key_in_def)

lemma validated:
  assumes "good_schema schema"
  shows "if valid_arguments arguments schema then validate_arguments frepr arguments schema = Inr arguments
     else \<exists>m. validate_arguments frepr arguments schema = Inl (ValueError m)"
proof -
  obtain rs where rs: "map_of schema ''required'' = Some (JList (map JStr rs))"
    using assms by (auto simp: good_schema_def)
  let ?ps = "schema_properties schema"
  let ?unexpected = "filter (\<lambda>k. k \<notin> set (map fst ?ps)) (map fst arguments)"
  have required: "required_fields schema = set rs"
    using rs by (auto simp: required_fields_def)
  have iter: "py_iter (get_or schema ''required'' (JList [])) = Inr (map JStr rs)"
    using rs by (simp add: get_or_def)
  have unexpected: "?unexpected = [] \<longleftrightarrow> fst ` set arguments \<subseteq> fst ` set ?ps"
    by (auto simp: filter_empty_conv)
  have missing: "map fst (filter (\<lambda>(k, b). \<not> b) (map (\<lambda>r. (JStr r, r \<in> set (map fst arguments))) rs)) = []
      \<longleftrightarrow> set rs \<subseteq> fst ` set arguments"
    by (auto simp: filter_empty_conv)
  let ?types = "\<forall>(k, v) \<in> set arguments. \<forall>ty. declared_type schema k ty \<longrightarrow> matches_kinds v [JStr ty]"
  note types = check_fields_good [OF refl assms, of arguments frepr]
  have run: "validate_arguments frepr arguments schema =
      (if closed_schema schema \<and> \<not> fst ` set arguments \<subseteq> fst ` set ?ps
       then Inl (ValueError (''unexpected fields: '' @ py_repr frepr (JList (map JStr (sort ?unexpected)))))
       else if \<not> set rs \<subseteq> fst ` set arguments
       then Inl (ValueError (''missing required fields: '' @ py_repr frepr (JList
              (map fst (filter (\<lambda>(k, b). \<not> b) (map (\<lambda>r. (JStr r, r \<in> set (map fst arguments))) rs))))))
       else bind_result (fold_result (check_field frepr ?ps) arguments ()) (\<lambda>_. Inr arguments))"
    unfolding validate_arguments_def Let_def iter bind_result.simps required_present
      unexpected missing by (simp only: not_not)
  show ?thesis
  proof (cases "(closed_schema schema \<longrightarrow> fst ` set arguments \<subseteq> fst ` set ?ps) \<and> set rs \<subseteq> fst ` set arguments")
    case True
    then have "validate_arguments frepr arguments schema =
        bind_result (fold_result (check_field frepr ?ps) arguments ()) (\<lambda>_. Inr arguments)"
      unfolding run by (simp only: not_True_eq_False if_False simp_thms) (simp only: if_False split: if_split, blast)
    with types True show ?thesis
      unfolding valid_arguments_def required by (auto split: if_splits)
  next
    case False
    then show ?thesis
      unfolding run valid_arguments_def required by (auto split: if_splits)
  qed
qed


lemma schema_of_good:
  assumes "\<forall>(k, j) \<in> set ps. \<exists>ty d. j = field ty d"
  shows "good_schema (schema_of ps)"
  unfolding good_schema_def
  by (rule exI [of _ ps], rule exI [of _ "[''query'']"]) (use assms in \<open>fastforce simp: schema_of_def field_def\<close>)

lemma is_field: "\<exists>ty d. field a b = field ty d"
  by blast

lemma tool_schemas_good:
  "good_schema retrieval_parameters" "good_schema (tl_parameters web_search_tool)"
  "good_schema (tl_parameters graph_query_tool)"
  by (auto simp: retrieval_parameters_def web_search_tool_def graph_query_tool_def is_field intro!: schema_of_good)


section \<open>The gates\<close>

text \<open>A call that reaches its tool, with the tool and the validated arguments.\<close>

definition admitted ::
    "(real \<Rightarrow> string) \<Rightarrow> 'w registry \<Rightarrow> tool_call \<Rightarrow> bool \<Rightarrow> 'w \<Rightarrow> 'w tool \<Rightarrow> bool" where
  "admitted frepr R call allow_egress w t \<longleftrightarrow>
     map_of (rg_tools R) (tc_name call) = Some t \<and> (tl_requires_egress t \<longrightarrow> allow_egress)
     \<and> tl_available t w
     \<and> validate_arguments frepr (tc_arguments call) (tl_parameters t) = Inr (tc_arguments call)"

lemma validate_arguments_same:
  "validate_arguments frepr arguments schema = Inr a \<Longrightarrow> a = arguments"
  by (auto simp: validate_arguments_def Let_def split: if_splits)

lemma execute_admitted:
  "admitted frepr R call allow_egress w t \<Longrightarrow>
     execute exn_text frepr R call p b allow_egress iv w
     = execute_valid exn_text (rg_result_cache R) t call (tc_arguments call) p b iv w"
  by (auto simp: admitted_def execute_def)

lemma execute_rejected:
  assumes "\<nexists>t. admitted frepr R call allow_egress w t"
    and "execute exn_text frepr R call p b allow_egress iv w = (x, w')"
  shows "w' = w \<and> ((\<exists>err. x = Some (Inr (failed_result call err))) \<or> (\<exists>e. x = Some (Inl e)))"
proof (cases "map_of (rg_tools R) (tc_name call)")
  case None
  with assms(2) show ?thesis by (auto simp: execute_def)
next
  case (Some t)
  show ?thesis
  proof (cases "validate_arguments frepr (tc_arguments call) (tl_parameters t)")
    case (Inl e)
    with assms(2) Some show ?thesis
      by (cases e) (auto simp: execute_def split: if_splits)
  next
    case (Inr a)
    with validate_arguments_same [OF Inr] assms Some show ?thesis
      by (auto simp: execute_def admitted_def split: if_splits)
  qed
qed

lemma execute_valid_identity:
  assumes "execute_valid exn_text tq t call a p b iv w = (x, w')"
  shows "x = None \<or> (\<exists>r. x = Some (Inr r) \<and> tr_call_id r = tc_id call \<and> tr_name r = tc_name call)"
  using assms
  by (auto simp: execute_valid_def rebind_def failed_result_def Let_def split: prod.splits option.splits sum.splits)

lemma good_registry_no_raise:
  assumes "\<forall>(n, t) \<in> set (rg_tools R). good_schema (tl_parameters t)"
    and "execute exn_text frepr R call p b allow_egress iv w = (Some (Inl e), w')"
  shows False
proof (cases "\<exists>t. admitted frepr R call allow_egress w t")
  case True
  then obtain t where "admitted frepr R call allow_egress w t" by blast
  from execute_admitted [OF this] assms(2) show ?thesis
    using execute_valid_identity [of exn_text "rg_result_cache R" t call "tc_arguments call" p b iv w] by auto
next
  case False
  show ?thesis
  proof (cases "map_of (rg_tools R) (tc_name call)")
    case None
    with assms(2) show ?thesis by (simp add: execute_def)
  next
    case (Some t)
    then have "good_schema (tl_parameters t)"
      using assms(1) map_of_SomeD [OF Some] by auto
    from validated [OF this, of "tc_arguments call" frepr]
    consider "validate_arguments frepr (tc_arguments call) (tl_parameters t) = Inr (tc_arguments call)"
      | m where "validate_arguments frepr (tc_arguments call) (tl_parameters t) = Inl (ValueError m)"
      by (auto split: if_splits)
    then show ?thesis
      using assms(2) Some False by cases (auto simp: execute_def admitted_def split: if_splits)
  qed
qed

text \<open>
  C24: executing a call always ends in a result that carries the call's own id and name, unless
  the deadline cancels it; no tool and no cache entry can forge that identity, and nothing a
  tool raises gets out. A call that names no registered tool, a tool without the egress grant,
  an unavailable tool or invalid arguments yields a failed result without content or sources,
  and neither the tool nor the cache is touched.
\<close>

theorem execute_gated:
  assumes "\<forall>(n, t) \<in> set (rg_tools R). good_schema (tl_parameters t)"
    and "execute exn_text frepr R call p b allow_egress iv w = (x, w')"
  shows "(x = None \<or> (\<exists>r. x = Some (Inr r) \<and> tr_call_id r = tc_id call \<and> tr_name r = tc_name call))
     \<and> ((\<nexists>t. admitted frepr R call allow_egress w t) \<longrightarrow>
          w' = w \<and> (\<exists>r. x = Some (Inr r) \<and> \<not> tr_ok r \<and> tr_content r = [] \<and> tr_sources r = []))"
proof (cases "\<exists>t. admitted frepr R call allow_egress w t")
  case True
  then obtain t where "admitted frepr R call allow_egress w t" by blast
  from execute_admitted [OF this] assms(2) True show ?thesis
    using execute_valid_identity [of exn_text "rg_result_cache R" t call "tc_arguments call" p b iv w] by auto
next
  case False
  from execute_rejected [OF this assms(2)] good_registry_no_raise [OF assms(1), of exn_text frepr call p b allow_egress iv w]
  obtain err where "x = Some (Inr (failed_result call err))" "w' = w"
    using assms(2) by auto
  then show ?thesis by (auto simp: failed_result_def)
qed

lemma execute_gated_witness:
  "let R = \<lparr>rg_tools = [(''web_search'', web_search_tool)], rg_result_cache = None\<rparr>;
       call = \<lparr>tc_id = ''1'', tc_name = ''web_search'', tc_arguments = [(''query'', JStr ''q'')]\<rparr>
   in \<exists>r. execute (\<lambda>e. ''error'') (\<lambda>x. ''0.1'') R call example_caller (new_tracker \<lparr>max_steps = 6,
          max_tool_calls = 10, max_critique_rounds = 2, max_tokens = 20000, max_cost_usd = 1 / 10,
          max_wall_clock_seconds = 30\<rparr> 0) False ''v1'' (0 :: nat) = (Some (Inr r), 0)
        \<and> tr_call_id r = ''1'' \<and> tr_name r = ''web_search'' \<and> \<not> tr_ok r \<and> tr_sources r = []"
proof -
  let ?R = "\<lparr>rg_tools = [(''web_search'', web_search_tool)], rg_result_cache = None\<rparr> :: nat registry"
  let ?call = "\<lparr>tc_id = ''1'', tc_name = ''web_search'', tc_arguments = [(''query'', JStr ''q'')]\<rparr>"
  let ?b = "new_tracker \<lparr>max_steps = 6, max_tool_calls = 10, max_critique_rounds = 2, max_tokens = 20000,
      max_cost_usd = 1 / 10, max_wall_clock_seconds = 30\<rparr> 0"
  obtain x w' where run: "execute (\<lambda>e. ''error'') (\<lambda>x. ''0.1'') ?R ?call example_caller ?b False ''v1'' 0 = (x, w')"
    by fastforce
  have "\<forall>(n, t) \<in> set (rg_tools ?R). good_schema (tl_parameters t)"
    by (simp add: tool_schemas_good)
  note g = execute_gated [OF this run]
  moreover have "\<nexists>t. admitted (\<lambda>x. ''0.1'') ?R ?call False 0 t"
    by (simp add: admitted_def web_search_tool_def)
  ultimately show ?thesis
    unfolding Let_def run by (elim conjE impE) auto
qed

text \<open>What the planner is offered is what it may run.\<close>

lemma offered_iff:
  assumes "distinct (map fst (rg_tools R))" "\<forall>(n, t) \<in> set (rg_tools R). n = tl_name t"
  shows "t \<in> set (allowed_for R allow_egress w) \<longleftrightarrow>
     map_of (rg_tools R) (tl_name t) = Some t \<and> tl_available t w \<and> (tl_requires_egress t \<longrightarrow> allow_egress)"
proof -
  have "t \<in> snd ` set (rg_tools R) \<longleftrightarrow> map_of (rg_tools R) (tl_name t) = Some t"
  proof
    assume "t \<in> snd ` set (rg_tools R)"
    then obtain n where "(n, t) \<in> set (rg_tools R)" by auto
    with assms show "map_of (rg_tools R) (tl_name t) = Some t" by auto
  next
    assume "map_of (rg_tools R) (tl_name t) = Some t"
    then show "t \<in> snd ` set (rg_tools R)" by (force dest: map_of_SomeD)
  qed
  then show ?thesis by (auto simp: allowed_for_def)
qed

lemma register_ok:
  assumes "register t R = Inr R'" "distinct (map fst (rg_tools R))" "\<forall>(n, t) \<in> set (rg_tools R). n = tl_name t"
  shows "distinct (map fst (rg_tools R')) \<and> (\<forall>(n, t) \<in> set (rg_tools R'). n = tl_name t)
     \<and> rg_result_cache R' = rg_result_cache R \<and> set (map snd (rg_tools R')) \<subseteq> insert t (set (map snd (rg_tools R)))"
proof -
  have R': "R' = R\<lparr>rg_tools := AList.update (tl_name t) t (rg_tools R)\<rparr>"
    using assms(1) by (simp add: register_def split: if_splits)
  have named: "n = tl_name v" and known: "v \<in> insert t (snd ` set (rg_tools R))"
    if "(n, v) \<in> set (AList.update (tl_name t) t (rg_tools R))" for n v
    using in_update [OF that] assms(3) by force+
  have "snd ` set (AList.update (tl_name t) t (rg_tools R)) \<subseteq> insert t (snd ` set (rg_tools R))"
    by (rule image_subsetI) (metis known prod.collapse)
  moreover have "\<forall>(n, v) \<in> set (AList.update (tl_name t) t (rg_tools R)). n = tl_name v"
    using named by fastforce
  ultimately show ?thesis using R' assms(2) by (simp add: distinct_keys_update)
qed

section \<open>The keys of tool results\<close>

lemma tool_payload_inject:
  assumes "json_norm (tool_payload n a p iv) = json_norm (tool_payload m b q iw)"
  shows "n = m \<and> json_norm (JDict a) = json_norm (JDict b) \<and> acl_fingerprint p = acl_fingerprint q \<and> iv = iw"
proof -
  let ?S = "\<lambda>n a p iv. {(''tool'', JStr n), (''args'', json_norm (JDict a)), (''acl'', JStr (acl_fingerprint p)),
      (''index_version'', JStr iv)}"
  have "?S n a p iv = ?S m b q iw"
    using assms unfolding tool_payload_def json_norm.simps(7) [of "_ # _"] json.inject
    by (drule_tac sort_key_eq_set) simp
  then have mem: "x \<in> ?S n a p iv \<Longrightarrow> x \<in> ?S m b q iw" for x
    by (simp only:)
  show ?thesis
    using mem [of "(''tool'', JStr n)"] mem [of "(''args'', json_norm (JDict a))"]
      mem [of "(''acl'', JStr (acl_fingerprint p))"] mem [of "(''index_version'', JStr iv)"]
    by simp
qed

text \<open>
  a tool result is shared exactly between calls that ask for the same: with clean caller names
  and no hash collision, two calls have one cache key if and only if they name the same tool
  with the same arguments up to the order of the keys, on the same index version, for callers
  of one reach.
\<close>

theorem tool_key_exact:
  assumes "clean_principal p" "clean_principal q"
    and "float_text frepr (json_floats (tool_payload n a p iv) \<union> json_floats (tool_payload m b q iw))"
    and "no_collision sha (json_dumps frepr (tool_payload n a p iv)) (json_dumps frepr (tool_payload m b q iw))"
  shows "tool_result_cache_key sha frepr n a p iv = tool_result_cache_key sha frepr m b q iw
     \<longleftrightarrow> n = m \<and> json_norm (JDict a) = json_norm (JDict b) \<and> same_reach p q \<and> iv = iw"
    (is "?L \<longleftrightarrow> ?R")
proof
  assume ?L
  with assms(4) have "json_norm (tool_payload n a p iv) = json_norm (tool_payload m b q iw)"
    by (simp add: tool_result_cache_key_def no_collision_def json_dumps_inject [OF assms(3)])
  from tool_payload_inject [OF this] show ?R
    using acl_fingerprint_inject [OF assms(1,2)] by (simp add: same_reach_iff)
next
  assume ?R
  then have "json_norm (tool_payload n a p iv) = json_norm (tool_payload m b q iw)"
    using acl_fingerprint_reach [of p q] by (simp add: tool_payload_def)
  then show ?L
    by (simp add: tool_result_cache_key_def json_dumps_def)
qed

lemma tool_key_exact_witness:
  "let q = example_caller\<lparr>pr_subject := ''other''\<rparr>; frepr = (\<lambda>x. ''0.1'');
       a = [(''query'', JStr ''q''), (''top_k'', JInt 3)]; b = [(''top_k'', JInt 3), (''query'', JStr ''q'')]
   in tool_result_cache_key id frepr ''t'' a example_caller ''v1'' = tool_result_cache_key id frepr ''t'' b q ''v1''
      \<longleftrightarrow> ''t'' = ''t'' \<and> json_norm (JDict a) = json_norm (JDict b) \<and> same_reach example_caller q \<and> ''v1'' = ''v1''"
  unfolding Let_def
  by (rule tool_key_exact)
     (simp_all add: clean_principal_def example_caller_def float_text_def tool_payload_def no_collision_def)

section \<open>What a host of tools keeps\<close>

definition tool_libs :: "'w tool_cache \<Rightarrow> string set \<Rightarrow> real set \<Rightarrow> bool" where
  "tool_libs C R F \<longleftrightarrow> inj_on (tq_sha C) R \<and> float_text (tq_frepr C) F
     \<and> (\<forall>a b. tq_load C (tq_dump C a) = Inr b \<longrightarrow> b = a)"

definition tool_covered :: "'w tool_cache \<Rightarrow> string set \<Rightarrow> real set \<Rightarrow> string \<Rightarrow> json_dict \<Rightarrow> principal \<Rightarrow> string \<Rightarrow> bool" where
  "tool_covered C R F n a p iv \<longleftrightarrow> clean_principal p
     \<and> json_dumps (tq_frepr C) (tool_payload n a p iv) \<in> R \<and> json_floats (tool_payload n a p iv) \<subseteq> F"

definition tool_entry_ok ::
    "'w tool_cache \<Rightarrow> string set \<Rightarrow> real set \<Rightarrow> (principal \<Rightarrow> tool_result \<Rightarrow> bool) \<Rightarrow> string \<Rightarrow> string \<Rightarrow> bool" where
  "tool_entry_ok C R F good k v \<longleftrightarrow>
     (\<exists>n a p iv r. k = tool_result_cache_key (tq_sha C) (tq_frepr C) n a p iv
        \<and> tool_covered C R F n a p iv \<and> v = tq_dump C r \<and> good p r)"

text \<open>The entries under other keys belong to other clients of the cache.\<close>

definition tool_inv ::
    "'w tool_cache \<Rightarrow> ('w \<Rightarrow> string \<Rightarrow> string \<Rightarrow> bool) \<Rightarrow> string set \<Rightarrow> real set
     \<Rightarrow> (principal \<Rightarrow> tool_result \<Rightarrow> bool) \<Rightarrow> 'w \<Rightarrow> bool" where
  "tool_inv C stored R F good w \<longleftrightarrow>
     (\<forall>k v. stored w k v \<longrightarrow> startswith k ''tool:'' \<longrightarrow> tool_entry_ok C R F good k v)"

lemma tool_entry_reach:
  assumes libs: "tool_libs C R F" and cov: "tool_covered C R F n a p iv"
    and entry: "tool_entry_ok C R F good (tool_result_cache_key (tq_sha C) (tq_frepr C) n a p iv) v"
  shows "\<exists>q r. pr_tenant q = pr_tenant p \<and> pr_groups q = pr_groups p \<and> v = tq_dump C r \<and> good q r"
proof -
  obtain m b q iw r where e: "tool_result_cache_key (tq_sha C) (tq_frepr C) n a p iv
        = tool_result_cache_key (tq_sha C) (tq_frepr C) m b q iw"
      "tool_covered C R F m b q iw" "v = tq_dump C r" "good q r"
    using entry by (auto simp: tool_entry_ok_def)
  let ?a = "tool_payload n a p iv"
  let ?b = "tool_payload m b q iw"
  have "json_dumps (tq_frepr C) ?a = json_dumps (tq_frepr C) ?b"
    using libs cov e(1,2) by (auto simp: tool_result_cache_key_def tool_covered_def tool_libs_def dest: inj_onD)
  moreover have "float_text (tq_frepr C) (json_floats ?a \<union> json_floats ?b)"
    using libs cov e(2) float_text_mono [of "tq_frepr C" F] by (simp add: tool_libs_def tool_covered_def)
  ultimately have "json_norm ?a = json_norm ?b" by (simp add: json_dumps_inject)
  from tool_payload_inject [OF this] have "acl_fingerprint p = acl_fingerprint q" by simp
  then have "pr_tenant q = pr_tenant p \<and> pr_groups q = pr_groups p"
    using cov e(2) acl_fingerprint_inject [of p q] by (simp add: tool_covered_def)
  with e(3,4) show ?thesis by blast
qed

locale tool_host =
  kv: kv_cache "tq_get C" "tq_set C" stored
  for C :: "'w tool_cache" and stored :: "'w \<Rightarrow> string \<Rightarrow> string \<Rightarrow> bool" +
  fixes tools :: "'w tool set" and good :: "principal \<Rightarrow> tool_result \<Rightarrow> bool"
  assumes run_stores_nothing: "t \<in> tools \<Longrightarrow> tl_run t a p b w = (x, w') \<Longrightarrow> stored w' k v \<Longrightarrow> stored w k v"
    and run_good: "t \<in> tools \<Longrightarrow> tl_run t a p b w = (Some (Inr r), w') \<Longrightarrow> good p r"
    and good_name: "good p r \<Longrightarrow> good p (r\<lparr>tr_call_id := i, tr_name := n\<rparr>)"
    and good_reach: "good q r \<Longrightarrow> pr_tenant q = pr_tenant p \<Longrightarrow> pr_groups q = pr_groups p \<Longrightarrow> good p r"
    and good_failed: "good p (failed_result call e)"
begin

lemma good_rebind: "good p r \<Longrightarrow> good p (rebind call r)"
  by (simp add: rebind_def good_name)

lemma cache_get_ok:
  assumes libs: "tool_libs C R F" and inv: "tool_inv C stored R F good w" and cov: "tool_covered C R F n a p iv"
    and run: "tool_cache_get C n a p iv w = (x, w')"
  shows "tool_inv C stored R F good w' \<and> (\<forall>r. x = Some r \<longrightarrow> good p r)"
proof (cases "tq_enabled C")
  case False
  with run inv show ?thesis by (auto simp: tool_cache_get_def)
next
  case True
  let ?k = "tool_result_cache_key (tq_sha C) (tq_frepr C) n a p iv"
  obtain y v where g: "tq_get C ?k w = (y, v)" by fastforce
  have v: "v = w'" "x = (case y of None \<Rightarrow> None | Some raw \<Rightarrow> (case tq_load C raw of Inl e \<Rightarrow> None | Inr r \<Rightarrow> Some r))"
    using run True g by (auto simp: tool_cache_get_def split: option.splits)
  have "tool_inv C stored R F good w'"
    using inv kv.get_shrinks [OF g] v(1) unfolding tool_inv_def by blast
  moreover have "good p r" if x: "x = Some r" for r
  proof -
    obtain raw where raw: "y = Some raw" "tq_load C raw = Inr r"
      using x unfolding v(2) by (auto split: option.splits sum.splits)
    have "stored w ?k raw" using kv.get_stored g raw(1) by blast
    moreover have "startswith ?k ''tool:''" by (simp add: tool_result_cache_key_def startswith_def)
    ultimately have "tool_entry_ok C R F good ?k raw" using inv unfolding tool_inv_def by blast
    from tool_entry_reach [OF libs cov this] obtain q r0 where q: "pr_tenant q = pr_tenant p"
        "pr_groups q = pr_groups p" "raw = tq_dump C r0" "good q r0" by blast
    have "r = r0" using libs raw(2) q(3) unfolding tool_libs_def by blast
    with good_reach [OF q(4,1,2)] show ?thesis by simp
  qed
  ultimately show ?thesis by blast
qed

lemma cache_set_ok:
  assumes inv: "tool_inv C stored R F good w" and cov: "tool_covered C R F n a p iv" and g: "good p r"
  shows "tool_inv C stored R F good (tool_cache_set C n a p r iv w)"
proof (cases "tq_enabled C \<and> tr_ok r")
  case True
  let ?k = "tool_result_cache_key (tq_sha C) (tq_frepr C) n a p iv"
  have "good p (r\<lparr>tr_call_id := []\<rparr>)"
    using good_name [OF g, where i = "[]" and n = "tr_name r"] by (cases r) simp
  then have "tool_entry_ok C R F good ?k (tq_dump C (r\<lparr>tr_call_id := []\<rparr>))"
    using cov unfolding tool_entry_ok_def by blast
  with inv True show ?thesis
    by (auto simp: tool_inv_def tool_cache_set_def dest!: kv.set_stored)
next
  case False
  with inv show ?thesis by (auto simp: tool_cache_set_def)
qed

lemma execute_valid_ok:
  assumes t: "t \<in> tools" and tq: "tq = None \<or> tq = Some C" and libs: "tool_libs C R F"
    and inv: "tool_inv C stored R F good w" and cov: "tool_covered C R F (tc_name call) a p iv"
    and run: "execute_valid exn_text tq t call a p b iv w = (x, w')"
  shows "tool_inv C stored R F good w' \<and> (\<forall>r. x = Some (Inr r) \<longrightarrow> good p r)"
proof -
  obtain hit w1 where h: "(case tq of None \<Rightarrow> (None, w) | Some c \<Rightarrow> tool_cache_get c (tc_name call) a p iv w) = (hit, w1)"
    by fastforce
  have 1: "tool_inv C stored R F good w1 \<and> (\<forall>r. hit = Some r \<longrightarrow> good p r)"
    using tq h inv cache_get_ok [OF libs inv cov] by auto
  show ?thesis
  proof (cases hit)
    case (Some r)
    with run h 1 show ?thesis by (auto simp: execute_valid_def good_rebind)
  next
    case None
    obtain y w2 where y: "tl_run t a p b w1 = (y, w2)" by fastforce
    have 2: "tool_inv C stored R F good w2"
      using 1 run_stores_nothing [OF t y] unfolding tool_inv_def by blast
    show ?thesis
    proof (cases y)
      case None
      with run h \<open>hit = None\<close> y 2 show ?thesis by (auto simp: execute_valid_def)
    next
      case (Some z)
      show ?thesis
      proof (cases z)
        case (Inl e)
        with run h \<open>hit = None\<close> y 2 Some show ?thesis by (auto simp: execute_valid_def good_failed)
      next
        case (Inr r)
        have "good p (rebind call r)"
          using run_good [OF t] y Some Inr good_rebind by blast
        moreover have "x = Some (Inr (rebind call r))" "w' = (case tq of None \<Rightarrow> w2
            | Some c \<Rightarrow> if tr_ok r then tool_cache_set c (tc_name call) a p (rebind call r) iv w2 else w2)"
          using run h \<open>hit = None\<close> y Some Inr by (auto simp: execute_valid_def)
        ultimately show ?thesis
          using 2 tq cache_set_ok [OF 2 cov, of "rebind call r"] by (auto split: if_splits)
      qed
    qed
  qed
qed

text \<open>Whatever a call ends in, its result is good for the caller, from the cache or not.\<close>

lemma execute_ok:
  assumes reg: "snd ` set (rg_tools Rg) \<subseteq> tools" "rg_result_cache Rg = None \<or> rg_result_cache Rg = Some C"
    and libs: "tool_libs C R F" and inv: "tool_inv C stored R F good w"
    and cov: "tool_covered C R F (tc_name call) (tc_arguments call) p iv"
    and run: "execute exn_text frepr Rg call p b allow_egress iv w = (x, w')"
  shows "tool_inv C stored R F good w' \<and> (\<forall>r. x = Some (Inr r) \<longrightarrow> good p r)"
proof (cases "\<exists>t. admitted frepr Rg call allow_egress w t")
  case True
  then obtain t where t: "admitted frepr Rg call allow_egress w t" by blast
  then have "t \<in> tools"
    using reg(1) by (force simp: admitted_def dest: map_of_SomeD)
  from execute_valid_ok [OF this reg(2) libs inv cov] run execute_admitted [OF t] show ?thesis by metis
next
  case False
  from execute_rejected [OF this run] inv good_failed show ?thesis by auto
qed

end

section \<open>The registry of the in-memory deployment\<close>

text \<open>A tool result shows passages that the caller may see, at most twenty, and nothing else.\<close>

definition passages_for :: "principal \<Rightarrow> tool_result \<Rightarrow> bool" where
  "passages_for p r \<longleftrightarrow>
     (\<forall>s \<in> set (tr_sources r). \<exists>a. src_acl s = Some a \<and> is_allowed p a)
     \<and> length (tr_sources r) \<le> 20
     \<and> tr_content r = (if tr_ok r then passages (tr_sources r) else [])"

lemma arg_top_k_bound: "arg_top_k s a = Inr k \<Longrightarrow> 1 \<le> k \<and> k \<le> 20"
  by (auto simp: arg_top_k_def)

lemma retrieval_run_good:
  assumes "retrieval_run P deadline trace_id a p b st = (Some (Inr r), st')"
  shows "passages_for p r"
proof -
  let ?src = "source_from_scored (py_str (on_frepr P))"
  obtain v where v: "map_of a ''query'' = Some v"
    using assms by (cases "map_of a ''query''") (auto simp: retrieval_run_def)
  obtain k where k: "arg_top_k (on_settings P) a = Inr k"
    using assms v by (cases "arg_top_k (on_settings P) a") (auto simp: retrieval_run_def)
  obtain res where "retrieve_only P trace_id (py_str (on_frepr P) v) p st = Inr res"
    using assms v k by (auto simp: retrieval_run_def split: if_splits)
  then have r: "tr_sources r = map ?src (filter (\<lambda>s. is_allowed p (ch_acl (sc_chunk s))) (slice_to (qr_results res) k))"
      "tr_ok r" "tr_content r = passages (tr_sources r)"
    using assms v k by (auto simp: retrieval_run_def Let_def split: if_splits)
  have "length (filter Q (slice_to (qr_results res) k)) \<le> 20" for Q
    using arg_top_k_bound [OF k] length_slice_to_bound [of k "qr_results res"]
      length_filter_le [of Q "slice_to (qr_results res) k"] by linarith
  moreover have "\<exists>a. src_acl s = Some a \<and> is_allowed p a" if "s \<in> set (tr_sources r)" for s
    using that unfolding r(1) by (auto simp: source_from_scored_def)
  ultimately show ?thesis using r by (simp add: passages_for_def)
qed

lemma retrieval_run_state: "snd (retrieval_run P deadline trace_id a p b st) = st"
  by (auto simp: retrieval_run_def split: sum.splits)

abbreviation standard_tools ::
    "('s, 't, 'c, 'w) pipeline \<Rightarrow> (('s, 't, 'c, 'w) online_state \<Rightarrow> bool) \<Rightarrow> string \<Rightarrow> ('s, 't, 'c, 'w) online_state tool set" where
  "standard_tools P deadline trace_id \<equiv> {retrieval_tool P deadline trace_id, web_search_tool, graph_query_tool}"

text \<open>Over any pipeline whose cache keeps its contract, the cache of tool results keeps one too.\<close>

sublocale online \<subseteq> standard: tool_host "pipeline_tool_cache P dump load" "\<lambda>st. stored (ol_cache st)"
    "standard_tools P deadline trace_id" passages_for
  for dump load deadline trace_id
proof unfold_locales
  let ?C = "pipeline_tool_cache P dump load"
  let ?stored = "\<lambda>st. stored (ol_cache st)"
  let ?tools = "standard_tools P deadline trace_id"
  show "?stored st k v" if "tq_get ?C k st = (Some v, st')" for k st v st'
    using that kv.get_stored by (auto simp: pipeline_tool_cache_def split: prod.splits)
  show "?stored st k' v" if "tq_get ?C k st = (r, st')" "?stored st' k' v" for k st r st' k' v
    using that kv.get_shrinks by (auto simp: pipeline_tool_cache_def split: prod.splits)
  show "k' = k \<and> v' = v \<or> ?stored st k' v'" if "?stored (tq_set ?C k v ttl st) k' v'" for k v ttl st k' v'
    using that kv.set_stored by (simp add: pipeline_tool_cache_def)
  show "?stored w k v" if "t \<in> ?tools" "tl_run t a p b w = (x, w')" "?stored w' k v" for t a p b w x w' k v
    using that retrieval_run_state [of P deadline trace_id a p b w]
    by (auto simp: retrieval_tool_def web_search_tool_def graph_query_tool_def)
  show "passages_for p r" if "t \<in> ?tools" "tl_run t a p b w = (Some (Inr r), w')" for t a p b w r w'
    using that retrieval_run_good
    by (auto simp: retrieval_tool_def web_search_tool_def graph_query_tool_def)
  show "passages_for p (r\<lparr>tr_call_id := i, tr_name := n\<rparr>)" if "passages_for p r" for p r i n
    using that by (simp add: passages_for_def)
  show "passages_for p r" if "passages_for q r" "pr_tenant q = pr_tenant p" "pr_groups q = pr_groups p" for p q r
    using that by (simp add: passages_for_def is_allowed_iff)
  show "passages_for p (failed_result call e)" for p call e
    by (simp add: passages_for_def failed_result_def)
qed

lemma build_tool_registry_eq:
  "build_tool_registry P deadline trace_id dump load = Inr
     \<lparr>rg_tools = [(''retrieval_search'', retrieval_tool P deadline trace_id), (''web_search'', web_search_tool),
                  (''graph_query'', graph_query_tool)],
      rg_result_cache = (if se_agent_tool_cache_enabled (on_settings P) then Some (pipeline_tool_cache P dump load) else None)\<rparr>"
  by (simp add: build_tool_registry_def new_registry_def register_def retrieval_tool_def web_search_tool_def
      graph_query_tool_def)


definition example_call :: tool_call where
  "example_call = \<lparr>tc_id = ''1'', tc_name = ''retrieval_search'', tc_arguments = [(''query'', JStr ''leaves'')]\<rparr>"


end
