(* ===== verification/Critic.thy ===== *)
theory Critic
  imports Tools
begin

text \<open>
  \<open>src/rag/agent/critic.py\<close>: the judge over a draft and its sources. The chat model is a client
  of the world \<open>'w\<close>, whose call gives \<open>None\<close> when the deadline of the turn cancels it; the
  reader of JSON text (\<open>json.loads\<close>, where a text that is no JSON is a \<open>ValueError\<close>) and
  \<open>float\<close> of a string are arguments.
\<close>

section \<open>Definitions\<close>

record 'w chat_llm =
  cm_model_name :: string
  cm_chat :: "message list \<Rightarrow> tool_spec list option \<Rightarrow> 'w \<Rightarrow> chat_completion result option \<times> 'w"

record 'w critic =
  ck_llm :: "'w chat_llm"
  ck_prompt_version :: string
  ck_max_evidence_chars :: int

record json_reader =
  jr_loads :: "string \<Rightarrow> json result"
  jr_float :: "string \<Rightarrow> real result"
  jr_frepr :: "real \<Rightarrow> string"

definition plain_message :: "role \<Rightarrow> string \<Rightarrow> message" where
  "plain_message r content =
     \<lparr>m_role = r, m_content = content, m_name = None, m_tool_call_id = None, m_tool_calls = []\<rparr>"

definition JSON_RE :: rx where
  "JSON_RE = Seq (Cls (\<lambda>c. c = CHR ''{'')) (Seq (Rep True 0 None (\<lambda>c. True)) (Cls (\<lambda>c. c = CHR ''}'')))"

definition rx_search :: "rx \<Rightarrow> string \<Rightarrow> string option" where
  "rx_search r s = (case finditer r s of [] \<Rightarrow> None | (a, b) # ms \<Rightarrow> Some (substr s a b))"

definition critic_parse_error :: verdict where
  "critic_parse_error =
     \<lparr>v_sufficient = False, v_grounded = False, v_reasons = [''critic_parse_error''],
      v_missing = [''retry with clearer evidence''], v_confidence = 0\<rparr>"

text \<open>\<open>[str(r) for r in (raw.get(key) or [])]\<close> and \<open>float(raw.get("confidence") or 0.0)\<close>.\<close>

definition str_list :: "json_reader \<Rightarrow> json_dict \<Rightarrow> string \<Rightarrow> string list result" where
  "str_list J raw key =
     bind_result (py_iter (get_or raw key (JList []))) (\<lambda>js. Inr (map (py_str (jr_frepr J)) js))"

definition py_float :: "json_reader \<Rightarrow> json \<Rightarrow> real result" where
  "py_float J j =
     (case j of
        JInt i \<Rightarrow> Inr (real_of_int i)
      | JFloat x \<Rightarrow> Inr x
      | JBool b \<Rightarrow> Inr (if b then 1 else 0)
      | JStr s \<Rightarrow> jr_float J s
      | _ \<Rightarrow> Inl (TypeError (''float() argument must be a string or a real number, not '' @ type_name j)))"

definition parse_verdict :: "json_reader \<Rightarrow> string \<Rightarrow> verdict result" where
  "parse_verdict J t =
     (case rx_search JSON_RE t of
        None \<Rightarrow> Inr critic_parse_error
      | Some m \<Rightarrow>
          (case jr_loads J m of
             Inl (ValueError e) \<Rightarrow> Inr critic_parse_error
           | Inl e \<Rightarrow> Inl e
           | Inr (JDict raw) \<Rightarrow>
               bind_result (str_list J raw ''reasons'') (\<lambda>reasons.
               bind_result (str_list J raw ''missing'') (\<lambda>missing.
               bind_result (py_float J (get_or raw ''confidence'' (JFloat 0))) (\<lambda>confidence.
               Inr \<lparr>v_sufficient = truthy (get_or raw ''sufficient'' (JBool False)),
                    v_grounded = truthy (get_or raw ''grounded'' (JBool False)),
                    v_reasons = reasons, v_missing = missing, v_confidence = confidence\<rparr>)))
           | Inr j \<Rightarrow> Inr \<lparr>v_sufficient = False, v_grounded = False, v_reasons = [''critic_parse_error''],
                          v_missing = [], v_confidence = 0\<rparr>))"

definition evaluate ::
    "(string \<Rightarrow> string \<Rightarrow> prompt_template result) \<Rightarrow> json_reader \<Rightarrow> 'w critic \<Rightarrow> string \<Rightarrow> string
     \<Rightarrow> source list \<Rightarrow> 'w \<Rightarrow> (verdict \<times> usage) result option \<times> 'w" where
  "evaluate get_prompt J ck question draft sources w =
     (case bind_result (get_prompt ''agent_critique'' (ck_prompt_version ck)) (\<lambda>t.
             render t [(''question'', question), (''draft'', draft),
                       (''sources'', render_sources sources (ck_max_evidence_chars ck) 500)]) of
        Inl e \<Rightarrow> (Some (Inl e), w)
      | Inr prompt \<Rightarrow>
          (case cm_chat (ck_llm ck) [plain_message User prompt] None w of
             (None, w') \<Rightarrow> (None, w')
           | (Some (Inl e), w') \<Rightarrow> (Some (Inl e), w')
           | (Some (Inr c), w') \<Rightarrow>
               (Some (bind_result (parse_verdict J (completion_text c)) (\<lambda>v. Inr (v, cc_usage c))), w')))"

section \<open>The critic fails closed\<close>

text \<open>A verdict that lets a draft pass.\<close>

definition approves :: "verdict \<Rightarrow> bool" where
  "approves v \<longleftrightarrow> v_sufficient v \<and> v_grounded v"

lemma approving_reply:
  assumes "parse_verdict J t = Inr v" "approves v"
  shows "\<exists>m raw. rx_search JSON_RE t = Some m \<and> jr_loads J m = Inr (JDict raw)
     \<and> truthy (get_or raw ''sufficient'' (JBool False)) \<and> truthy (get_or raw ''grounded'' (JBool False))"
proof -
  obtain m where m: "rx_search JSON_RE t = Some m"
    using assms by (cases "rx_search JSON_RE t") (auto simp: parse_verdict_def critic_parse_error_def approves_def)
  show ?thesis
  proof (cases "jr_loads J m")
    case (Inl e)
    with assms m show ?thesis
      by (cases e) (auto simp: parse_verdict_def critic_parse_error_def approves_def)
  next
    case (Inr j)
    with assms m show ?thesis
      by (cases j) (auto simp: parse_verdict_def approves_def)
  qed
qed



end
