(* ===== verification/Chunking.thy ===== *)
theory Chunking
  imports Caches PyVal
begin

text \<open>
  \<open>src/rag/chunking\<close>: the four chunkers and the choice among them. \<open>sha\<close> is SHA-256 in hex, on
  which the chunk ids rest; the embedder of the semantic chunker is an argument. Positions are
  Python integers, so that a size that is negative slices as it does there.
\<close>

section \<open>Text search and slices\<close>

text \<open>\<open>t.find(p, i)\<close> for \<open>0 \<le> i\<close>.\<close>

definition find_from :: "string \<Rightarrow> string \<Rightarrow> nat \<Rightarrow> nat option" where
  "find_from t p i = find (\<lambda>j. take (length p) (drop j t) = p) [i ..< Suc (length t)]"

text \<open>\<open>t[a:b]\<close>.\<close>

definition slice_bound :: "int \<Rightarrow> int \<Rightarrow> nat" where
  "slice_bound n a = nat (if a < 0 then max 0 (a + n) else min a n)"

definition py_slice :: "'a list \<Rightarrow> int \<Rightarrow> int \<Rightarrow> 'a list" where
  "py_slice xs a b =
     (let n = int (length xs); lo = slice_bound n a; hi = slice_bound n b in take (hi - lo) (drop lo xs))"

text \<open>\<open>t.split(sep)\<close> for a separator that is not empty.\<close>

function split_str :: "string \<Rightarrow> string \<Rightarrow> string list" where
  "split_str sep t =
     (if sep = [] then [t]
      else (case find_from t sep 0 of
              None \<Rightarrow> [t]
            | Some i \<Rightarrow> take i t # split_str sep (drop (i + length sep) t)))"
  by pat_completeness auto
termination
proof (relation "measure (length \<circ> snd)", goal_cases)
  case 1
  show ?case by simp
next
  case (2 sep t i)
  from 2(2) have "take (length sep) (drop i t) = sep"
    by (auto simp: find_from_def find_Some_iff)
  then have "0 < length (drop i t)"
    using 2(1) by (cases "drop i t") auto
  with 2(1) show ?case by (cases sep) auto
qed

declare split_str.simps [simp del]

section \<open>Chunks\<close>

definition derive_chunk_id :: "(string \<Rightarrow> string) \<Rightarrow> string \<Rightarrow> nat \<Rightarrow> string \<Rightarrow> string \<Rightarrow> string" where
  "derive_chunk_id sha doc_id ordinal chunker_version iv =
     short_id sha [doc_id, show_nat ordinal, chunker_version, iv] 24"

definition doc_text :: "document \<Rightarrow> string" where
  "doc_text d = (case d_text d of None \<Rightarrow> [] | Some t \<Rightarrow> t)"

definition make_chunk ::
    "(string \<Rightarrow> string) \<Rightarrow> document \<Rightarrow> string \<Rightarrow> string \<Rightarrow> nat \<Rightarrow> string \<Rightarrow> int \<times> int \<Rightarrow> chunk" where
  "make_chunk sha d chunker iv ordinal txt sp =
     \<lparr>ch_chunk_id = derive_chunk_id sha (d_doc_id d) ordinal ''1.0'' iv, ch_doc_id = d_doc_id d,
      ch_ordinal = ordinal, ch_text = txt, ch_span = sp, ch_acl = d_acl d, ch_index_version = iv,
      ch_embedding_model = None,
      ch_metadata = [(''chunker'', JStr chunker), (''chunker_version'', JStr ''1.0'')]\<rparr>"

section \<open>FixedChunker\<close>

function fixed_windows ::
    "(string \<Rightarrow> string) \<Rightarrow> document \<Rightarrow> string \<Rightarrow> int \<Rightarrow> int \<Rightarrow> string \<Rightarrow> int \<Rightarrow> nat \<Rightarrow> chunk list" where
  "fixed_windows sha d iv sz overlap t start ordinal =
     (let n = int (length t) in
      if n \<le> start then []
      else
        let stop = min (start + sz) n;
            piece = py_slice t start stop;
            following = start + max (sz - overlap) 1
        in if strip piece = []
           then (if n \<le> stop then [] else fixed_windows sha d iv sz overlap t following ordinal)
           else make_chunk sha d ''fixed'' iv ordinal piece (start, stop)
                # (if n \<le> stop then [] else fixed_windows sha d iv sz overlap t following (Suc ordinal)))"
  by pat_completeness auto
termination
  by (relation "measure (\<lambda>(sha, d, iv, sz, overlap, t, start, ordinal). nat (int (length t) - start))") auto

declare fixed_windows.simps [simp del]

definition fixed_chunk :: "(string \<Rightarrow> string) \<Rightarrow> document \<Rightarrow> string \<Rightarrow> int \<Rightarrow> int \<Rightarrow> chunk list" where
  "fixed_chunk sha d iv sz overlap = fixed_windows sha d iv sz overlap (doc_text d) 0 0"

section \<open>RecursiveChunker\<close>

definition SEPARATORS :: "string list" where
  "SEPARATORS = [[CHR 0x0A, CHR 0x0A], [CHR 0x0A], ''. '', '' '', []]"

text \<open>\<open>[text[i : i + sz] for i in range(0, len(text), sz)]\<close>.\<close>

function windows_from :: "int \<Rightarrow> string \<Rightarrow> int \<Rightarrow> string list" where
  "windows_from sz t i =
     (if sz \<le> 0 \<or> int (length t) \<le> i then [] else py_slice t i (i + sz) # windows_from sz t (i + sz))"
  by pat_completeness auto
termination
  by (relation "measure (\<lambda>(sz, t, i). nat (int (length t) - i))") auto

declare windows_from.simps [simp del]

definition windows :: "int \<Rightarrow> string \<Rightarrow> string list result" where
  "windows sz t = (if sz = 0 then Inl (ValueError ''range() arg 3 must not be zero'') else Inr (windows_from sz t 0))"

text \<open>The loop over the parts; \<open>deeper\<close> splits a part that is too long at the finer separators.\<close>

fun pack ::
    "int \<Rightarrow> string \<Rightarrow> (string \<Rightarrow> string list result) \<Rightarrow> string list \<Rightarrow> string \<Rightarrow> string list result" where
  "pack sz sep deeper [] current = Inr (if current = [] then [] else [current])"
| "pack sz sep deeper (part # parts) current =
     (let candidate = (if current = [] then part else current @ sep @ part) in
      if int (length candidate) \<le> sz then pack sz sep deeper parts candidate
      else
        bind_result (if sz < int (length part) then bind_result (deeper part) (\<lambda>ps. Inr (ps, []))
                     else Inr ([], part)) (\<lambda>(ps, cur).
        bind_result (pack sz sep deeper parts cur) (\<lambda>rest.
        Inr ((if current = [] then [] else [current]) @ ps @ rest))))"

primrec split_text :: "string list \<Rightarrow> int \<Rightarrow> string \<Rightarrow> string list result" where
  "split_text [] sz t =
     (if int (length t) \<le> sz then Inr (if strip t = [] then [] else [t]) else windows sz t)"
| "split_text (sep # rest) sz t =
     (if int (length t) \<le> sz then Inr (if strip t = [] then [] else [t])
      else if sep = [] then windows sz t
      else pack sz sep (split_text rest sz) (split_str sep t) [])"

text \<open>
  The loop that locates the pieces: each is looked for from the cursor on, and taken to stand at the
  cursor when it is not found. \<open>show\<close> turns a piece into the text of its chunk.
\<close>

fun locate ::
    "(string \<Rightarrow> string) \<Rightarrow> document \<Rightarrow> string \<Rightarrow> string \<Rightarrow> (string \<Rightarrow> string) \<Rightarrow> (int \<Rightarrow> int) \<Rightarrow> string
     \<Rightarrow> string list \<Rightarrow> nat \<Rightarrow> nat \<Rightarrow> chunk list" where
  "locate sha d chunker iv txt_of advance t [] cursor ordinal = []"
| "locate sha d chunker iv txt_of advance t (piece # pieces) cursor ordinal =
     (let start = (case find_from t piece cursor of None \<Rightarrow> cursor | Some i \<Rightarrow> i);
          stop = start + length piece
      in make_chunk sha d chunker iv ordinal (txt_of piece) (int start, int stop)
         # locate sha d chunker iv txt_of advance t pieces (nat (advance (int stop))) (Suc ordinal))"

definition recursive_chunk ::
    "(string \<Rightarrow> string) \<Rightarrow> document \<Rightarrow> string \<Rightarrow> int \<Rightarrow> int \<Rightarrow> chunk list result" where
  "recursive_chunk sha d iv sz overlap =
     (if doc_text d = [] then Inr []
      else bind_result (split_text SEPARATORS sz (doc_text d)) (\<lambda>pieces.
        Inr (locate sha d ''recursive'' iv (\<lambda>p. p) (\<lambda>e. max (e - overlap) e) (doc_text d) pieces 0 0)))"

section \<open>MarkdownAwareChunker\<close>

definition HEADING :: rx where
  "HEADING = Look (Seq Bol (Seq (Rep True 1 (Some 6) (\<lambda>c. c = CHR ''#'')) (Cls py_space)))"

definition md_sections :: "string \<Rightarrow> string list" where
  "md_sections t = filter (\<lambda>s. strip s \<noteq> []) (rx_split HEADING t)"

definition markdown_chunk ::
    "(string \<Rightarrow> string) \<Rightarrow> document \<Rightarrow> string \<Rightarrow> int \<Rightarrow> int \<Rightarrow> chunk list result" where
  "markdown_chunk sha d iv sz overlap =
     (if doc_text d = [] then Inr []
      else if md_sections (doc_text d) = [] then recursive_chunk sha d iv sz overlap
      else
        bind_result
          (map_result (\<lambda>s. if int (length s) \<le> sz then Inr [s] else split_text SEPARATORS sz s)
             (md_sections (doc_text d))) (\<lambda>pieces.
        Inr (locate sha d ''markdown_aware'' iv strip (\<lambda>e. e) (doc_text d) (concat pieces) 0 0)))"

section \<open>SemanticChunker\<close>

definition SENTENCE :: rx where
  "SENTENCE = Alt (Seq (Behind (\<lambda>c. c \<in> set ''.!?'')) (rx_plus py_space)) (Rep True 2 None (\<lambda>c. c = CHR 0x0A))"

definition split_sentences :: "string \<Rightarrow> string list" where
  "split_sentences t = filter (\<lambda>p. p \<noteq> []) (map strip (rx_split SENTENCE t))"

definition trunc :: "real \<Rightarrow> int" where
  "trunc x = (if x < 0 then - \<lfloor>- x\<rfloor> else \<lfloor>x\<rfloor>)"

text \<open>The list is not empty where the code indexes it, and the percentile lies between 0 and 1.\<close>

definition percentile :: "real list \<Rightarrow> real \<Rightarrow> real" where
  "percentile values q =
     (if values = [] then 0
      else let ordered = sort values;
               index = min (trunc (q * real (length ordered - 1))) (int (length ordered) - 1)
           in ordered ! nat index)"

text \<open>
  The groups, the current one last; \<open>ds\<close> are the distances to the preceding sentence.
\<close>

fun group_sentences :: "int \<Rightarrow> real \<Rightarrow> (string \<times> real) list \<Rightarrow> string list \<Rightarrow> string list list" where
  "group_sentences sz threshold [] current = [current]"
| "group_sentences sz threshold ((s, dst) # ss) current =
     (let too_long = sz < int (sum_list (map length current)) + int (length s) in
      if threshold \<le> dst \<or> too_long then current # group_sentences sz threshold ss [s]
      else group_sentences sz threshold ss (current @ [s]))"

fun locate_groups ::
    "(string \<Rightarrow> string) \<Rightarrow> document \<Rightarrow> string \<Rightarrow> string \<Rightarrow> string list list \<Rightarrow> nat \<Rightarrow> nat \<Rightarrow> chunk list" where
  "locate_groups sha d iv t [] cursor ordinal = []"
| "locate_groups sha d iv t (g # gs) cursor ordinal =
     (let body = strip (py_join '' '' g) in
      if body = [] then locate_groups sha d iv t gs cursor (Suc ordinal)
      else
        let start = (case g of [] \<Rightarrow> cursor
                     | s # _ \<Rightarrow> (case find_from t s cursor of None \<Rightarrow> cursor | Some i \<Rightarrow> i));
            stop = start + length body
        in make_chunk sha d ''semantic'' iv ordinal body (int start, int stop)
           # locate_groups sha d iv t gs stop (Suc ordinal))"

definition semantic_chunks ::
    "(string \<Rightarrow> string) \<Rightarrow> (string list \<Rightarrow> real list list) \<Rightarrow> real \<Rightarrow> document \<Rightarrow> string \<Rightarrow> int \<Rightarrow> chunk list result" where
  "semantic_chunks sha emb breakpoint d iv sz =
     (let t = doc_text d; sentences = split_sentences t in
      if length sentences < 2 then recursive_chunk sha d iv sz 64
      else
        let vectors = emb sentences;
            distances = map (\<lambda>(a, b). 1 - cosine a b) (zip vectors (tl vectors));
            threshold = percentile distances breakpoint
        in if length vectors < length sentences then Inl (IndexError ''list index out of range'')
           else Inr (locate_groups sha d iv t
             (group_sentences sz threshold (zip (tl sentences) distances) [hd sentences]) 0 0))"

definition mark_fallback :: "chunk \<Rightarrow> chunk" where
  "mark_fallback c = c\<lparr>ch_metadata :=
     AList.update ''semantic_fallback'' (JBool True)
       (AList.update ''chunker_version'' (JStr ''1.0'')
         (AList.update ''chunker'' (JStr ''semantic'') (ch_metadata c)))\<rparr>"

definition semantic_chunk ::
    "(string \<Rightarrow> string) \<Rightarrow> (string list \<Rightarrow> real list list) option \<Rightarrow> real \<Rightarrow> document \<Rightarrow> string \<Rightarrow> int \<Rightarrow> int
     \<Rightarrow> chunk list result" where
  "semantic_chunk sha embedder breakpoint d iv sz overlap =
     (if doc_text d = [] then Inr []
      else (case embedder of
              None \<Rightarrow> bind_result (recursive_chunk sha d iv sz overlap) (\<lambda>cs. Inr (map mark_fallback cs))
            | Some emb \<Rightarrow> semantic_chunks sha emb breakpoint d iv sz))"

section \<open>The registry\<close>

type_synonym chunker = "document \<Rightarrow> string \<Rightarrow> int \<Rightarrow> int \<Rightarrow> chunk list result"

type_synonym chunkers = "(string \<times> chunker) list"

definition default_chunkers :: "(string \<Rightarrow> string) \<Rightarrow> chunkers" where
  "default_chunkers sha =
     [(''fixed'', \<lambda>d iv sz overlap. Inr (fixed_chunk sha d iv sz overlap)),
      (''recursive'', recursive_chunk sha),
      (''markdown_aware'', markdown_chunk sha),
      (''semantic'', semantic_chunk sha None (3 / 4))]"

definition register_chunker :: "string \<Rightarrow> chunker \<Rightarrow> chunkers \<Rightarrow> chunkers" where
  "register_chunker name c cs = AList.update name c cs"

definition enable_semantic_chunking ::
    "(string \<Rightarrow> string) \<Rightarrow> (string list \<Rightarrow> real list list) \<Rightarrow> chunkers \<Rightarrow> chunkers" where
  "enable_semantic_chunking sha emb cs = AList.update ''semantic'' (semantic_chunk sha (Some emb) (3 / 4)) cs"

definition MIME_DEFAULTS :: "(string \<times> string) list" where
  "MIME_DEFAULTS =
     [(''text/plain'', ''fixed''), (''text/markdown'', ''markdown_aware''), (''application/pdf'', ''recursive''),
      (''text/html'', ''recursive''), (''application/json'', ''recursive'')]"

definition get_chunker :: "chunkers \<Rightarrow> string \<Rightarrow> chunker result" where
  "get_chunker cs name =
     (case map_of cs name of
        None \<Rightarrow> Inl (KeyError (''Unknown chunker: '' @ name @ ''. Available: ''
                  @ py_repr (\<lambda>x. []) (JList (map JStr (sort (map fst cs))))))
      | Some c \<Rightarrow> Inr c)"

text \<open>
  The content of \<open>chunking.yaml\<close>, after parsing: an entry per mime type may set the strategy,
  the size and the overlap; \<open>default_strategy\<close> is for the types without a default.
\<close>

record mime_cfg =
  mc_strategy :: "string option"
  mc_size :: "int option"
  mc_overlap :: "int option"

record chunking_cfg =
  cg_strategies :: "(string \<times> mime_cfg) list"
  cg_default_strategy :: "string option"
  cg_chunker_version :: "string option"

text \<open>Strategy, size and overlap for a mime type: the first lines of \<open>chunk_document\<close>.\<close>

definition chunk_plan :: "chunking_cfg \<Rightarrow> string \<Rightarrow> string \<times> int \<times> int" where
  "chunk_plan cfg mime_type =
     (let mime = (case map_of (cg_strategies cfg) mime_type of
            None \<Rightarrow> \<lparr>mc_strategy = None, mc_size = None, mc_overlap = None\<rparr> | Some m \<Rightarrow> m);
          dflt = (case map_of MIME_DEFAULTS mime_type of
            Some s \<Rightarrow> s | None \<Rightarrow> (case cg_default_strategy cfg of None \<Rightarrow> ''recursive'' | Some s \<Rightarrow> s))
      in (case mc_strategy mime of None \<Rightarrow> dflt | Some s \<Rightarrow> str_or s dflt,
          case mc_size mime of None \<Rightarrow> 512 | Some n \<Rightarrow> n,
          case mc_overlap mime of None \<Rightarrow> 64 | Some n \<Rightarrow> n))"

definition chunk_document ::
    "chunkers \<Rightarrow> chunking_cfg \<Rightarrow> document \<Rightarrow> string \<Rightarrow> chunk list result" where
  "chunk_document cs cfg d iv =
     (let (strategy, sz, overlap) = chunk_plan cfg (d_mime_type d)
      in if sz \<le> overlap
         then Inl (ValueError (''overlap ('' @ show_int overlap @ '') must be smaller than size ('' @ show_int sz
                @ '') for '' @ d_mime_type d))
         else bind_result (get_chunker cs strategy) (\<lambda>chunker. chunker d iv sz overlap))"

section \<open>Where pieces stand\<close>

text \<open>\<open>placed t ps\<close>: the pieces stand in \<open>t\<close>, in their order and without overlap.\<close>

fun placed :: "string \<Rightarrow> string list \<Rightarrow> bool" where
  "placed t [] = True"
| "placed t (p # ps) = (\<exists>a b. t = a @ p @ b \<and> placed b ps)"

lemma placed_prefix: "placed t ps \<Longrightarrow> placed (x @ t) ps"
  by (cases ps) (auto, metis append.assoc)

lemma placed_drop: "placed (drop k t) ps \<Longrightarrow> j \<le> k \<Longrightarrow> placed (drop j t) ps"
  using placed_prefix [of "drop k t" ps "take (k - j) (drop j t)"]
  by (metis append_take_drop_id drop_drop le_add_diff_inverse2)

lemma placed_append: "placed t ps \<Longrightarrow> placed u qs \<Longrightarrow> placed (t @ u) (ps @ qs)"
proof (induction ps arbitrary: t)
  case Nil
  then show ?case by (simp add: placed_prefix)
next
  case (Cons p ps)
  then obtain a b where "t = a @ p @ b" "placed (b @ u) (ps @ qs)" by auto
  then show ?case by auto
qed

lemma find_fromD:
  assumes "find_from t p i = Some j"
  shows "i \<le> j \<and> j + length p \<le> length t \<and> take (length p) (drop j t) = p"
proof -
  have "j \<in> set [i ..< Suc (length t)] \<and> take (length p) (drop j t) = p"
    using assms unfolding find_from_def by (metis (mono_tags, lifting) find_Some_iff2 nth_mem)
  then have j: "i \<le> j" "j \<le> length t" "take (length p) (drop j t) = p" by auto
  then have "length p \<le> length (drop j t)" by (metis length_take min.cobounded1)
  with j show ?thesis by auto
qed

lemma find_from_finds:
  assumes "take (length p) (drop k t) = p" "i \<le> k" "k \<le> length t"
  shows "\<exists>j \<le> k. find_from t p i = Some j"
proof -
  let ?P = "\<lambda>j. take (length p) (drop j t) = p"
  have "find ?P [i ..< Suc (length t)] \<noteq> None"
    using assms by (auto simp: find_None_iff)
  then obtain j where j: "find ?P [i ..< Suc (length t)] = Some j" by blast
  then obtain m where m: "m < length [i ..< Suc (length t)]" "j = [i ..< Suc (length t)] ! m"
      "\<forall>n < m. \<not> ?P ([i ..< Suc (length t)] ! n)"
    by (auto simp: find_Some_iff)
  have at: "[i ..< Suc (length t)] ! n = i + n" if "n < Suc (length t) - i" for n
    using that by (simp del: upt_Suc)
  have "\<not> k < j"
  proof
    assume "k < j"
    moreover have "k - i < Suc (length t) - i" using assms(2,3) by linarith
    ultimately have "k - i < m" using m(1,2) at [of m] assms(2) by (simp del: upt_Suc)
    with m(3) have "\<not> ?P ([i ..< Suc (length t)] ! (k - i))" by blast
    moreover have "[i ..< Suc (length t)] ! (k - i) = k"
      using at [of "k - i"] assms(2,3) by linarith
    ultimately show False using assms(1) by simp
  qed
  with j show ?thesis unfolding find_from_def by (intro exI [of _ j]) simp
qed

lemma placed_found:
  assumes "placed (drop i t) (p # ps)" "i \<le> length t"
  shows "\<exists>j. find_from t p i = Some j \<and> placed (drop (j + length p) t) ps"
proof -
  obtain a b where ab: "drop i t = a @ p @ b" "placed b ps" using assms(1) by auto
  let ?k = "i + length a"
  have at: "drop ?k t = p @ b"
    using ab(1) by (metis add.commute append_eq_conv_conj drop_drop)
  have "?k \<le> length t"
    using arg_cong [OF ab(1), of length] assms(2) by simp
  with at obtain j where j: "j \<le> ?k" "find_from t p i = Some j"
    using find_from_finds [of p ?k t i] by auto
  have "drop (?k + length p) t = b"
    using at by (metis add.commute append_eq_conv_conj drop_drop)
  with ab(2) have "placed (drop (?k + length p) t) ps" by simp
  with j show ?thesis using placed_drop by (intro exI [of _ j]) simp
qed

section \<open>Splitting keeps the content\<close>

text \<open>
  What a splitter of the recursive chunker promises: pieces that are not empty and fit, in place,
  with every character of the text that is neither white space nor a full stop.
\<close>

definition kept :: "char \<Rightarrow> bool" where
  "kept c \<longleftrightarrow> \<not> py_space c \<and> c \<noteq> CHR ''.''"

definition good_pieces :: "int \<Rightarrow> string \<Rightarrow> string list \<Rightarrow> bool" where
  "good_pieces sz t ps \<longleftrightarrow> placed t ps \<and> (\<forall>p \<in> set ps. p \<noteq> [] \<and> int (length p) \<le> sz)
     \<and> filter kept (concat ps) = filter kept t"

lemma good_pieces_append:
  "good_pieces sz t ps \<Longrightarrow> good_pieces sz u qs \<Longrightarrow> good_pieces sz (t @ u) (ps @ qs)"
  by (auto simp: good_pieces_def placed_append)

lemma good_pieces_dropped:
  "good_pieces sz t ps \<Longrightarrow> \<forall>c \<in> set x. \<not> kept c \<Longrightarrow> good_pieces sz (x @ t) ps"
  by (auto simp: good_pieces_def placed_prefix)

lemma good_pieces_Nil [simp]: "good_pieces sz [] []"
  by (simp add: good_pieces_def)

lemma good_pieces_one: "int (length t) \<le> sz \<Longrightarrow> good_pieces sz t (if t = [] then [] else [t])"
  by (auto simp: good_pieces_def intro: exI [of _ "[]"])

lemma strip_empty: "strip t = [] \<Longrightarrow> \<forall>c \<in> set t. py_space c"
proof -
  assume "strip t = []"
  then have "\<forall>c \<in> set (dropWhile py_space t). py_space c"
    by (auto simp: strip_def rstrip_def lstrip_def dropWhile_eq_Nil_conv)
  then have "dropWhile py_space t = []"
    by (metis dropWhile_eq_Nil_conv hd_dropWhile hd_in_set)
  then show ?thesis by (simp add: dropWhile_eq_Nil_conv)
qed

lemma strip_strip: "strip (strip t) = strip t"
proof (cases "strip t = []")
  case True
  moreover have "strip [] = []" by (simp add: strip_def rstrip_def lstrip_def)
  ultimately show ?thesis by (simp only:)
next
  case False
  then show ?thesis by (intro strip_id strip_hd strip_last)
qed

lemma good_pieces_stripped:
  assumes "int (length t) \<le> sz"
  shows "good_pieces sz t (if strip t = [] then [] else [t])"
proof (cases "strip t = []")
  case True
  then have "\<forall>c \<in> set t. \<not> kept c" using strip_empty by (auto simp: kept_def)
  with True show ?thesis using good_pieces_dropped [of sz "[]" "[]" t] by simp
next
  case False
  then have "t \<noteq> []" by (auto simp: strip_def rstrip_def lstrip_def)
  with False show ?thesis using good_pieces_one [OF assms] by simp
qed

lemma py_slice_inside: "0 \<le> a \<Longrightarrow> a \<le> b \<Longrightarrow> py_slice xs a b = take (nat (b - a)) (drop (nat a) xs)"
  by (simp add: py_slice_def slice_bound_def Let_def min_def nat_diff_distrib)

lemma windows_good:
  assumes "0 < sz" "0 \<le> i"
  shows "good_pieces sz (drop (nat i) t) (windows_from sz t i)"
  using assms
proof (induction sz t i rule: windows_from.induct)
  case (1 sz t i)
  show ?case
  proof (cases "int (length t) \<le> i")
    case True
    with "1.prems" show ?thesis by (simp add: windows_from.simps)
  next
    case False
    have IH: "good_pieces sz (drop (nat (i + sz)) t) (windows_from sz t (i + sz))"
      using 1 False by auto
    have w: "py_slice t i (i + sz) = take (nat sz) (drop (nat i) t)"
      using "1.prems" by (simp add: py_slice_inside)
    have split: "drop (nat i) t = take (nat sz) (drop (nat i) t) @ drop (nat (i + sz)) t"
      using "1.prems" append_take_drop_id [of "nat sz" "drop (nat i) t"]
      by (simp add: nat_add_distrib add.commute [of "nat i"] del: append_take_drop_id)
    have "int (length (take (nat sz) (drop (nat i) t))) \<le> sz" using "1.prems" by simp
    moreover have "take (nat sz) (drop (nat i) t) \<noteq> []" using "1.prems" False by auto
    ultimately have "good_pieces sz (take (nat sz) (drop (nat i) t)) [take (nat sz) (drop (nat i) t)]"
      using good_pieces_one [of "take (nat sz) (drop (nat i) t)" sz] by (simp only: if_False)
    from good_pieces_append [OF this IH] show ?thesis
      using "1.prems" False w split by (simp add: windows_from.simps [of _ _ i])
  qed
qed

text \<open>Joining the parts of a split gives the text back.\<close>

lemma split_str_not_Nil: "split_str sep t \<noteq> []"
  by (simp add: split_str.simps [of sep t] split: option.split)

lemma py_join_before: "ps \<noteq> [] \<Longrightarrow> py_join sep (p # ps) = p @ sep @ py_join sep ps"
  by (cases ps) auto

lemma py_join_split_str: "py_join sep (split_str sep t) = t"
proof (induction sep t rule: split_str.induct)
  case (1 sep t)
  show ?case
  proof (cases "sep = [] \<or> find_from t sep 0 = None")
    case True
    then show ?thesis by (auto simp: split_str.simps [of sep t])
  next
    case False
    then obtain i where i: "sep \<noteq> []" "find_from t sep 0 = Some i" by auto
    have at: "take (length sep) (drop i t) = sep" using find_fromD [OF i(2)] by blast
    have "py_join sep (split_str sep t) = take i t @ sep @ drop (i + length sep) t"
      using 1 [OF i] i split_str_not_Nil [of sep "drop (i + length sep) t"]
      by (simp add: split_str.simps [of sep t] py_join_before)
    also have "sep @ drop (i + length sep) t = drop i t"
      using at append_take_drop_id [of "length sep" "drop i t"] by (simp add: add.commute)
    finally show ?thesis by simp
  qed
qed

text \<open>What is left to pack: the current piece and the parts.\<close>

definition unpacked :: "string \<Rightarrow> string \<Rightarrow> string list \<Rightarrow> string" where
  "unpacked sep current parts = (if current = [] then py_join sep parts else py_join sep (current # parts))"

lemma py_join_part: "py_join sep (p # ps) = p @ (if ps = [] then [] else sep @ py_join sep ps)"
  by (cases ps) auto

lemma pack_good:
  assumes "1 \<le> sz" "\<forall>c \<in> set sep. \<not> kept c" "int (length current) \<le> sz"
    and "\<And>part. \<exists>ps. deeper part = Inr ps \<and> good_pieces sz part ps"
  shows "\<exists>ps. pack sz sep deeper parts current = Inr ps \<and> good_pieces sz (unpacked sep current parts) ps"
  using assms(3)
proof (induction parts arbitrary: current)
  case Nil
  then show ?case using good_pieces_one [of current sz] by (auto simp: unpacked_def)
next
  case (Cons part parts)
  let ?candidate = "if current = [] then part else current @ sep @ part"
  let ?tail = "if parts = [] then [] else sep @ py_join sep parts"
  have whole: "unpacked sep current (part # parts) = (if current = [] then [] else current @ sep) @ part @ ?tail"
    by (simp add: unpacked_def py_join_part)
  have tail: "good_pieces sz ?tail ps" if "good_pieces sz (py_join sep parts) ps" for ps
    using good_pieces_dropped [OF that assms(2)] that by auto
  show ?case
  proof (cases "int (length ?candidate) \<le> sz")
    case True
    from Cons.IH [OF True] obtain ps where ps: "pack sz sep deeper parts ?candidate = Inr ps"
        "good_pieces sz (unpacked sep ?candidate parts) ps" by blast
    have "good_pieces sz (unpacked sep current (part # parts)) ps"
    proof (cases "?candidate = []")
      case True
      then have "good_pieces sz (py_join sep parts) ps" using ps(2) by (simp add: unpacked_def split: if_splits)
      from tail [OF this] True show ?thesis unfolding whole by (auto split: if_splits)
    next
      case False
      then have "unpacked sep ?candidate parts = ?candidate @ ?tail"
        by (simp only: unpacked_def py_join_part if_False)
      with ps(2) show ?thesis unfolding whole by (auto split: if_splits)
    qed
    with ps(1) True show ?thesis by (auto simp: Let_def)
  next
    case False
    have first: "good_pieces sz (if current = [] then [] else current @ sep) (if current = [] then [] else [current])"
      using good_pieces_append [OF good_pieces_one [OF Cons.prems] good_pieces_dropped [OF good_pieces_Nil assms(2)]]
      by auto
    have "\<exists>ps rest cur. (if sz < int (length part) then bind_result (deeper part) (\<lambda>ps. Inr (ps, [])) else Inr ([], part))
          = Inr (ps, cur) \<and> pack sz sep deeper parts cur = Inr rest \<and> good_pieces sz (part @ ?tail) (ps @ rest)"
    proof (cases "sz < int (length part)")
      case True
      obtain ps where ps: "deeper part = Inr ps" "good_pieces sz part ps" using assms(4) by blast
      obtain rest where rest: "pack sz sep deeper parts [] = Inr rest" "good_pieces sz (py_join sep parts) rest"
        using Cons.IH [of "[]"] assms(1) by (auto simp: unpacked_def)
      from good_pieces_append [OF ps(2) tail [OF rest(2)]] ps(1) rest(1) True show ?thesis by auto
    next
      case small: False
      obtain rest where rest: "pack sz sep deeper parts part = Inr rest" "good_pieces sz (unpacked sep part parts) rest"
        using Cons.IH [of part] small by auto
      have "good_pieces sz (part @ ?tail) rest"
      proof (cases "part = []")
        case True
        with rest(2) tail [of rest] show ?thesis by (simp add: unpacked_def)
      next
        case False
        with rest(2) show ?thesis by (simp only: unpacked_def py_join_part if_False)
      qed
      with rest(1) small show ?thesis by auto
    qed
    then obtain ps rest cur where step: "(if sz < int (length part) then bind_result (deeper part) (\<lambda>ps. Inr (ps, []))
          else Inr ([], part)) = Inr (ps, cur)" "pack sz sep deeper parts cur = Inr rest"
        "good_pieces sz (part @ ?tail) (ps @ rest)" by blast
    have "pack sz sep deeper (part # parts) current = Inr ((if current = [] then [] else [current]) @ ps @ rest)"
      using step(2) unfolding pack.simps Let_def if_not_P [OF False] step(1) by simp
    with good_pieces_append [OF first step(3)] show ?thesis unfolding whole by blast
  qed
qed

lemma split_text_good:
  assumes "1 \<le> sz" "\<forall>sep \<in> set seps. \<forall>c \<in> set sep. \<not> kept c"
  shows "\<exists>ps. split_text seps sz t = Inr ps \<and> good_pieces sz t ps"
  using assms(2)
proof (induction seps arbitrary: t)
  case Nil
  show ?case
    using good_pieces_stripped [of t sz] windows_good [of sz 0 t] assms(1) by (auto simp: windows_def)
next
  case (Cons sep rest)
  have deeper: "\<exists>ps. split_text rest sz part = Inr ps \<and> good_pieces sz part ps" for part
    using Cons by simp
  have "\<forall>c \<in> set sep. \<not> kept c" using Cons.prems by simp
  from pack_good [OF assms(1) this, of "[]" "split_text rest sz" "split_str sep t"] deeper assms(1)
  have packed: "\<exists>ps. pack sz sep (split_text rest sz) (split_str sep t) [] = Inr ps \<and> good_pieces sz t ps"
    by (simp add: unpacked_def py_join_split_str)
  show ?case
    using good_pieces_stripped [of t sz] windows_good [of sz 0 t] assms(1) packed
    by (auto simp: windows_def)
qed

lemma separators_dropped: "\<forall>sep \<in> set SEPARATORS. \<forall>c \<in> set sep. \<not> kept c"
  by (auto simp: SEPARATORS_def kept_def py_space_def code_def)

section \<open>Chunks read back from their spans\<close>

text \<open>\<open>reads_from d iv c\<close>: the chunk's span lies in the text, its text is what stands there, and
  its document, access list and index version are those it was cut for.\<close>

definition cut_from :: "document \<Rightarrow> string \<Rightarrow> chunk \<Rightarrow> bool" where
  "cut_from d iv c \<longleftrightarrow> ch_doc_id c = d_doc_id d \<and> ch_acl c = d_acl d \<and> ch_index_version c = iv"

definition span_text :: "document \<Rightarrow> chunk \<Rightarrow> string" where
  "span_text d c = py_slice (doc_text d) (fst (ch_span c)) (snd (ch_span c))"

definition span_inside :: "document \<Rightarrow> int \<Rightarrow> chunk \<Rightarrow> bool" where
  "span_inside d sz c \<longleftrightarrow> 0 \<le> fst (ch_span c) \<and> fst (ch_span c) < snd (ch_span c)
     \<and> snd (ch_span c) \<le> int (length (doc_text d)) \<and> snd (ch_span c) - fst (ch_span c) \<le> sz"

lemma make_chunk_simps [simp]:
  "ch_ordinal (make_chunk sha d ck iv n x sp) = n" "ch_text (make_chunk sha d ck iv n x sp) = x"
  "ch_span (make_chunk sha d ck iv n x sp) = sp" "cut_from d iv (make_chunk sha d ck iv n x sp)"
  "ch_chunk_id (make_chunk sha d ck iv n x sp) = derive_chunk_id sha (d_doc_id d) n ''1.0'' iv"
  by (simp_all add: make_chunk_def cut_from_def)

subsection \<open>FixedChunker\<close>

lemma fixed_windows_exact:
  assumes "0 \<le> overlap" "overlap < sz" "0 \<le> start" "t = doc_text d"
  shows "(\<forall>c \<in> set (fixed_windows sha d iv sz overlap t start ordinal).
            cut_from d iv c \<and> span_inside d sz c \<and> ch_text c = span_text d c \<and> strip (ch_text c) \<noteq> [])
         \<and> map ch_ordinal (fixed_windows sha d iv sz overlap t start ordinal)
            = [ordinal ..< ordinal + length (fixed_windows sha d iv sz overlap t start ordinal)]"
  using assms
proof (induction sha d iv sz overlap t start ordinal rule: fixed_windows.induct)
  case (1 sha d iv sz overlap t start ordinal)
  show ?case
  proof (cases "int (length t) \<le> start")
    case True
    then show ?thesis by (simp add: fixed_windows.simps)
  next
    case False
    let ?stop = "min (start + sz) (int (length t))"
    let ?piece = "py_slice t start ?stop"
    let ?next = "start + max (sz - overlap) 1"
    have here: "span_inside d sz (make_chunk sha d ''fixed'' iv ordinal ?piece (start, ?stop))"
      using False 1(3-) by (auto simp: span_inside_def)
    have "0 \<le> ?next" using 1(3-) by simp
    note IH = 1(1) [OF refl False refl refl refl _ _ 1(3) 1(4) this 1(6)] and
      IH' = 1(2) [OF refl False refl refl refl _ _ 1(3) 1(4) this 1(6)]
    have read: "ch_text (make_chunk sha d ''fixed'' iv ordinal ?piece (start, ?stop))
        = span_text d (make_chunk sha d ''fixed'' iv ordinal ?piece (start, ?stop))"
      using 1(6) by (simp add: span_text_def)
    consider (last) "int (length t) \<le> ?stop"
      | (blank) "\<not> int (length t) \<le> ?stop" "strip ?piece = []"
      | (cut) "\<not> int (length t) \<le> ?stop" "strip ?piece \<noteq> []" by blast
    then show ?thesis
    proof cases
      case last
      then show ?thesis
        unfolding fixed_windows.simps [of sha d iv sz overlap t start ordinal] Let_def if_not_P [OF False] if_P [OF last]
        using here read by simp
    next
      case blank
      from IH [OF blank(2,1)] show ?thesis
        unfolding fixed_windows.simps [of sha d iv sz overlap t start ordinal] Let_def if_not_P [OF False]
          if_not_P [OF blank(1)] if_P [OF blank(2)] .
    next
      case cut
      from IH' [OF cut(2,1)] here read cut(2) show ?thesis
        unfolding fixed_windows.simps [of sha d iv sz overlap t start ordinal] Let_def if_not_P [OF False]
          if_not_P [OF cut(1)] if_not_P [OF cut(2)]
        by (auto simp: upt_conv_Cons simp del: upt_Suc)
    qed
  qed
qed

lemma fixed_windows_cover:
  assumes "0 \<le> overlap" "overlap < sz" "0 \<le> start" "start \<le> int i" "i < length t" "\<not> py_space (t ! i)"
  shows "\<exists>c \<in> set (fixed_windows sha d iv sz overlap t start ordinal).
           fst (ch_span c) \<le> int i \<and> int i < snd (ch_span c)"
  using assms
proof (induction sha d iv sz overlap t start ordinal rule: fixed_windows.induct)
  case (1 sha d iv sz overlap t start ordinal)
  let ?stop = "min (start + sz) (int (length t))"
  let ?piece = "py_slice t start ?stop"
  let ?next = "start + max (sz - overlap) 1"
  have going: "\<not> int (length t) \<le> start" using 1(6,7) by simp
  show ?case
  proof (cases "int i < ?stop")
    case True
    have "i - nat start < length (take (nat (?stop - start)) (drop (nat start) t))"
      using True 1(5-7) by (simp add: nat_diff_distrib)
    moreover have "take (nat (?stop - start)) (drop (nat start) t) ! (i - nat start) = t ! i"
      using True 1(5-7) by (simp add: nat_less_iff) 
    moreover have "?piece = take (nat (?stop - start)) (drop (nat start) t)"
      using 1(3-7) by (intro py_slice_inside) auto
    ultimately have "t ! i \<in> set ?piece" by (metis nth_mem)
    with 1(8) have "strip ?piece \<noteq> []" using strip_empty by blast
    with True 1(6) going show ?thesis
      by (simp add: fixed_windows.simps [of sha d iv sz overlap t start ordinal] Let_def)
  next
    case False
    then have more: "\<not> int (length t) \<le> ?stop" "?next \<le> int i" "0 \<le> ?next" using 1(3-7) by auto
    note IH = 1(1) [OF refl going refl refl refl _ more(1) 1(3) 1(4) more(3,2) 1(7,8)]
      and IH' = 1(2) [OF refl going refl refl refl _ more(1) 1(3) 1(4) more(3,2) 1(7,8)]
    show ?thesis
    proof (cases "strip ?piece = []")
      case True
      with IH more(1) going show ?thesis
        by (simp add: fixed_windows.simps [of sha d iv sz overlap t start ordinal] Let_def)
    next
      case False
      with IH' more(1) going show ?thesis
        by (simp add: fixed_windows.simps [of sha d iv sz overlap t start ordinal] Let_def)
    qed
  qed
qed

subsection \<open>Located pieces\<close>

definition follows :: "chunk \<Rightarrow> chunk \<Rightarrow> bool" where
  "follows c c' \<longleftrightarrow> snd (ch_span c) \<le> fst (ch_span c')"

lemma locate_exact:
  assumes "placed (drop cursor t) ps" "cursor \<le> length t" "t = doc_text d" "\<forall>p \<in> set ps. p \<noteq> [] \<and> int (length p) \<le> sz"
    and "\<And>e. 0 \<le> e \<Longrightarrow> advance e = e"
  shows "(\<forall>c \<in> set (locate sha d ck iv f advance t ps cursor n).
            cut_from d iv c \<and> span_inside d sz c \<and> ch_text c = f (span_text d c) \<and> int cursor \<le> fst (ch_span c))
         \<and> map ch_ordinal (locate sha d ck iv f advance t ps cursor n) = [n ..< n + length ps]
         \<and> sorted_wrt follows (locate sha d ck iv f advance t ps cursor n)
         \<and> map (span_text d) (locate sha d ck iv f advance t ps cursor n) = ps"
  using assms(1,2,4)
proof (induction ps arbitrary: cursor n)
  case Nil
  then show ?case by simp
next
  case (Cons p ps)
  obtain j where j: "find_from t p cursor = Some j" "placed (drop (j + length p) t) ps"
    using placed_found [OF Cons.prems(1,2)] by blast
  note found = find_fromD [OF j(1)]
  let ?c = "make_chunk sha d ck iv n (f p) (int j, int (j + length p))"
  have "py_slice t (int j) (int (j + length p)) = p"
    using found by (simp add: py_slice_inside)
  with assms(3) have read: "span_text d ?c = p" by (simp add: span_text_def)
  have inside: "span_inside d sz ?c"
    using found Cons.prems(3) assms(3) by (auto simp: span_inside_def)
  have adv: "nat (advance (int (j + length p))) = j + length p"
    using assms(5) [of "int (j + length p)"] by simp
  have loc: "locate sha d ck iv f advance t (p # ps) cursor n
      = ?c # locate sha d ck iv f advance t ps (j + length p) (Suc n)"
    by (simp only: locate.simps j(1) Let_def option.case adv)
  have IH: "\<forall>c \<in> set (locate sha d ck iv f advance t ps (j + length p) (Suc n)).
            cut_from d iv c \<and> span_inside d sz c \<and> ch_text c = f (span_text d c) \<and> int (j + length p) \<le> fst (ch_span c)"
      "map ch_ordinal (locate sha d ck iv f advance t ps (j + length p) (Suc n)) = [Suc n ..< Suc n + length ps]"
      "sorted_wrt follows (locate sha d ck iv f advance t ps (j + length p) (Suc n))"
      "map (span_text d) (locate sha d ck iv f advance t ps (j + length p) (Suc n)) = ps"
    using Cons.IH [OF j(2), of "Suc n"] found Cons.prems(3) by auto
  have "\<forall>c \<in> set (locate sha d ck iv f advance t ps (j + length p) (Suc n)). follows ?c c"
    using IH(1) by (auto simp: follows_def)
  moreover have "\<forall>c \<in> set (locate sha d ck iv f advance t ps (j + length p) (Suc n)). int cursor \<le> fst (ch_span c)"
    using IH(1) found by fastforce
  ultimately show ?case
    unfolding loc using IH inside read found by (simp add: upt_conv_Cons del: upt_Suc)
qed

lemma locate_from_start:
  assumes "good_pieces sz (doc_text d) ps" "\<And>e. 0 \<le> e \<Longrightarrow> advance e = e"
  shows "(\<forall>c \<in> set (locate sha d ck iv f advance (doc_text d) ps 0 0).
            cut_from d iv c \<and> span_inside d sz c \<and> ch_text c = f (span_text d c))
         \<and> map ch_ordinal (locate sha d ck iv f advance (doc_text d) ps 0 0) = [0 ..< length ps]
         \<and> sorted_wrt follows (locate sha d ck iv f advance (doc_text d) ps 0 0)
         \<and> map (span_text d) (locate sha d ck iv f advance (doc_text d) ps 0 0) = ps"
  using locate_exact [of 0 "doc_text d" ps d sz advance sha ck iv f 0] assms
  by (auto simp: good_pieces_def)

text \<open>What the chunks of the recursive and the markdown chunker are; \<open>f\<close> is what becomes of a slice.\<close>

definition chunked :: "document \<Rightarrow> string \<Rightarrow> int \<Rightarrow> (string \<Rightarrow> string) \<Rightarrow> chunk list \<Rightarrow> bool" where
  "chunked d iv sz f cs \<longleftrightarrow>
     (\<forall>c \<in> set cs. cut_from d iv c \<and> span_inside d sz c \<and> ch_text c = f (span_text d c))
     \<and> map ch_ordinal cs = [0 ..< length cs] \<and> sorted_wrt follows cs
     \<and> filter kept (concat (map (span_text d) cs)) = filter kept (doc_text d)"

lemma locate_chunked:
  assumes "good_pieces sz (doc_text d) ps" "\<And>e. 0 \<le> e \<Longrightarrow> advance e = e"
  shows "chunked d iv sz f (locate sha d ck iv f advance (doc_text d) ps 0 0)"
proof -
  note here = locate_from_start [OF assms, of sha ck iv f]
  then have "length (locate sha d ck iv f advance (doc_text d) ps 0 0) = length ps"
    by (metis length_map)
  with here assms(1) show ?thesis by (simp add: chunked_def good_pieces_def)
qed

lemma recursive_chunk_chunked:
  assumes "1 \<le> sz" "0 \<le> overlap"
  shows "\<exists>cs. recursive_chunk sha d iv sz overlap = Inr cs \<and> chunked d iv sz (\<lambda>p. p) cs"
proof (cases "doc_text d = []")
  case True
  then show ?thesis by (simp add: recursive_chunk_def chunked_def)
next
  case False
  obtain ps where ps: "split_text SEPARATORS sz (doc_text d) = Inr ps" "good_pieces sz (doc_text d) ps"
    using split_text_good [OF assms(1) separators_dropped] by blast
  have "max (e - overlap) e = e" for e using assms(2) by simp
  with locate_chunked [OF ps(2)] show ?thesis
    using False ps(1) by (simp add: recursive_chunk_def)
qed

lemma HEADING_zero: "k \<in> set (lens HEADING s i) \<Longrightarrow> k = 0"
  by (auto simp: HEADING_def split: if_splits)

lemma good_pieces_sections:
  assumes "1 \<le> sz"
  shows "\<exists>pss. map_result (\<lambda>s. if int (length s) \<le> sz then Inr [s] else split_text SEPARATORS sz s)
            (filter (\<lambda>s. strip s \<noteq> []) ss) = Inr pss \<and> good_pieces sz (concat ss) (concat pss)"
proof (induction ss)
  case Nil
  then show ?case by simp
next
  case (Cons s ss)
  then obtain pss where pss: "map_result (\<lambda>s. if int (length s) \<le> sz then Inr [s] else split_text SEPARATORS sz s)
      (filter (\<lambda>s. strip s \<noteq> []) ss) = Inr pss" "good_pieces sz (concat ss) (concat pss)" by blast
  show ?case
  proof (cases "strip s = []")
    case True
    then have "\<forall>c \<in> set s. \<not> kept c" using strip_empty by (auto simp: kept_def)
    with True pss good_pieces_dropped [OF pss(2)] show ?thesis by simp
  next
    case False
    obtain ps where ps: "(if int (length s) \<le> sz then Inr [s] else split_text SEPARATORS sz s) = Inr ps"
        "good_pieces sz s ps"
      using split_text_good [OF assms separators_dropped, of s] good_pieces_stripped [of s sz] False
      by (cases "int (length s) \<le> sz") auto
    from good_pieces_append [OF ps(2) pss(2)] ps(1) pss(1) False show ?thesis by simp
  qed
qed

lemma markdown_chunk_chunked:
  assumes "1 \<le> sz" "0 \<le> overlap"
  shows "\<exists>cs f. markdown_chunk sha d iv sz overlap = Inr cs \<and> f \<in> {strip, \<lambda>p. p} \<and> chunked d iv sz f cs"
proof (cases "doc_text d = [] \<or> md_sections (doc_text d) = []")
  case True
  then show ?thesis
    using recursive_chunk_chunked [OF assms, of sha d iv]
    by (auto simp: markdown_chunk_def chunked_def)
next
  case False
  obtain pss where pss: "map_result (\<lambda>s. if int (length s) \<le> sz then Inr [s] else split_text SEPARATORS sz s)
      (md_sections (doc_text d)) = Inr pss" "good_pieces sz (doc_text d) (concat pss)"
    using good_pieces_sections [OF assms(1), of "rx_split HEADING (doc_text d)"]
    by (auto simp: md_sections_def concat_rx_split [OF HEADING_zero])
  with False locate_chunked [OF pss(2)] show ?thesis
    by (auto simp: markdown_chunk_def)
qed

section \<open>The contract of a strategy\<close>

text \<open>
  What the registry may rely on for every strategy: each chunk carries the document, access list and
  index version, is named by its ordinal, and no ordinal repeats.
\<close>

definition stamped_chunks :: "(string \<Rightarrow> string) \<Rightarrow> document \<Rightarrow> string \<Rightarrow> chunk list \<Rightarrow> bool" where
  "stamped_chunks sha d iv cs \<longleftrightarrow>
     (\<forall>c \<in> set cs. cut_from d iv c \<and> ch_chunk_id c = derive_chunk_id sha (d_doc_id d) (ch_ordinal c) ''1.0'' iv)
     \<and> sorted_wrt (<) (map ch_ordinal cs)"

locale chunking_strategy =
  fixes sha :: "string \<Rightarrow> string" and chunk_with :: chunker
  assumes stamps: "chunk_with d iv sz overlap = Inr cs \<Longrightarrow> stamped_chunks sha d iv cs"
begin

lemma ids_distinct:
  assumes "chunk_with d iv sz overlap = Inr cs"
    and "inj_on (\<lambda>n. derive_chunk_id sha (d_doc_id d) n ''1.0'' iv) (set (map ch_ordinal cs))"
  shows "distinct (map ch_chunk_id cs)"
proof -
  have ok: "stamped_chunks sha d iv cs" using stamps [OF assms(1)] .
  then have "distinct (map ch_ordinal cs)"
    by (auto simp: stamped_chunks_def strict_sorted_iff)
  moreover have "map ch_chunk_id cs = map (\<lambda>n. derive_chunk_id sha (d_doc_id d) n ''1.0'' iv) (map ch_ordinal cs)"
    using ok by (simp add: stamped_chunks_def)
  ultimately show ?thesis using assms(2) by (metis distinct_map)
qed

end

lemma fixed_windows_stamped:
  "stamped_chunks sha d iv (fixed_windows sha d iv sz overlap t start ordinal)
   \<and> (\<forall>c \<in> set (fixed_windows sha d iv sz overlap t start ordinal). ordinal \<le> ch_ordinal c)"
proof (induction sha d iv sz overlap t start ordinal rule: fixed_windows.induct)
  case (1 sha d iv sz overlap t start ordinal)
  let ?stop = "min (start + sz) (int (length t))"
  let ?piece = "py_slice t start ?stop"
  let ?next = "start + max (sz - overlap) 1"
  consider (ended) "int (length t) \<le> start"
    | (last) "\<not> int (length t) \<le> start" "int (length t) \<le> ?stop"
    | (blank) "\<not> int (length t) \<le> start" "\<not> int (length t) \<le> ?stop" "strip ?piece = []"
    | (cut) "\<not> int (length t) \<le> start" "\<not> int (length t) \<le> ?stop" "strip ?piece \<noteq> []" by blast
  then show ?case
  proof cases
    case ended
    then show ?thesis by (simp add: fixed_windows.simps stamped_chunks_def)
  next
    case last
    then show ?thesis
      unfolding fixed_windows.simps [of sha d iv sz overlap t start ordinal] Let_def if_not_P [OF last(1)] if_P [OF last(2)]
      by (simp add: stamped_chunks_def)
  next
    case blank
    from 1(1) [OF refl blank(1) refl refl refl blank(3,2)] show ?thesis
      unfolding fixed_windows.simps [of sha d iv sz overlap t start ordinal] Let_def if_not_P [OF blank(1)]
        if_not_P [OF blank(2)] if_P [OF blank(3)] .
  next
    case cut
    from 1(2) [OF refl cut(1) refl refl refl cut(3,2)] show ?thesis
      unfolding fixed_windows.simps [of sha d iv sz overlap t start ordinal] Let_def if_not_P [OF cut(1)]
        if_not_P [OF cut(2)] if_not_P [OF cut(3)]
      by (fastforce simp: stamped_chunks_def)
  qed
qed

lemma locate_stamped:
  "stamped_chunks sha d iv (locate sha d ck iv f advance t ps cursor n)
   \<and> (\<forall>c \<in> set (locate sha d ck iv f advance t ps cursor n). n \<le> ch_ordinal c)"
proof (induction ps arbitrary: cursor n)
  case Nil
  then show ?case by (simp add: stamped_chunks_def)
next
  case (Cons p ps)
  show ?case
    using Cons.IH [of "nat (advance (int ((case find_from t p cursor of None \<Rightarrow> cursor | Some i \<Rightarrow> i) + length p)))" "Suc n"]
    unfolding locate.simps Let_def by (fastforce simp: stamped_chunks_def)
qed

lemma locate_groups_stamped:
  "stamped_chunks sha d iv (locate_groups sha d iv t gs cursor n)
   \<and> (\<forall>c \<in> set (locate_groups sha d iv t gs cursor n). n \<le> ch_ordinal c)"
proof (induction gs arbitrary: cursor n)
  case Nil
  then show ?case by (simp add: stamped_chunks_def)
next
  case (Cons g gs)
  let ?body = "strip (py_join '' '' g)"
  let ?stop = "(case g of [] \<Rightarrow> cursor | s # _ \<Rightarrow> (case find_from t s cursor of None \<Rightarrow> cursor | Some i \<Rightarrow> i))
      + length ?body"
  show ?case
  proof (cases "?body = []")
    case True
    from Cons.IH [of cursor "Suc n"] True show ?thesis by fastforce
  next
    case False
    from Cons.IH [of ?stop "Suc n"] show ?thesis
      unfolding locate_groups.simps Let_def if_not_P [OF False] by (fastforce simp: stamped_chunks_def)
  qed
qed

lemma recursive_stamps: "recursive_chunk sha d iv sz overlap = Inr cs \<Longrightarrow> stamped_chunks sha d iv cs"
  using locate_stamped by (auto simp: recursive_chunk_def stamped_chunks_def split: if_splits)

lemma markdown_stamps: "markdown_chunk sha d iv sz overlap = Inr cs \<Longrightarrow> stamped_chunks sha d iv cs"
  using locate_stamped recursive_stamps
  by (auto simp: markdown_chunk_def stamped_chunks_def [of sha d iv "[]"] split: if_splits)

lemma mark_fallback_stamped: "stamped_chunks sha d iv (map mark_fallback cs) = stamped_chunks sha d iv cs"
  by (simp add: stamped_chunks_def mark_fallback_def cut_from_def comp_def)

lemma semantic_stamps: "semantic_chunk sha embedder q d iv sz overlap = Inr cs \<Longrightarrow> stamped_chunks sha d iv cs"
  using locate_groups_stamped recursive_stamps
  by (auto simp: semantic_chunk_def semantic_chunks_def stamped_chunks_def [of sha d iv "[]"] Let_def
      mark_fallback_stamped split: if_splits option.splits)

interpretation fixed: chunking_strategy sha "\<lambda>d iv sz overlap. Inr (fixed_chunk sha d iv sz overlap)"
  by unfold_locales (auto simp: fixed_chunk_def fixed_windows_stamped)

interpretation recursive: chunking_strategy sha "recursive_chunk sha"
  by unfold_locales (rule recursive_stamps)

interpretation markdown: chunking_strategy sha "markdown_chunk sha"
  by unfold_locales (rule markdown_stamps)

interpretation semantic: chunking_strategy sha "semantic_chunk sha embedder q"
  by unfold_locales (rule semantic_stamps)

text \<open>The registry as it is deployed: the four strategies, the semantic one with or without embedder.\<close>

definition deployed_chunkers :: "(string \<Rightarrow> string) \<Rightarrow> chunkers \<Rightarrow> bool" where
  "deployed_chunkers sha chs \<longleftrightarrow>
     chs = default_chunkers sha \<or> (\<exists>emb. chs = enable_semantic_chunking sha emb (default_chunkers sha))"

lemma deployed_strategies:
  assumes "deployed_chunkers sha chs"
  shows "get_chunker chs ''fixed'' = Inr (\<lambda>d iv sz overlap. Inr (fixed_chunk sha d iv sz overlap))"
    and "get_chunker chs ''recursive'' = Inr (recursive_chunk sha)"
    and "get_chunker chs ''markdown_aware'' = Inr (markdown_chunk sha)"
    and "\<exists>e. get_chunker chs ''semantic'' = Inr (semantic_chunk sha e (3 / 4))"
    and "x \<notin> {''fixed'', ''recursive'', ''markdown_aware'', ''semantic''} \<Longrightarrow> \<exists>m. get_chunker chs x = Inl (KeyError m)"
  using assms by (auto simp: deployed_chunkers_def get_chunker_def default_chunkers_def enable_semantic_chunking_def)

lemma chunk_document_stamps:
  assumes "deployed_chunkers sha chs" "chunk_document chs cfg d iv = Inr cs"
  shows "stamped_chunks sha d iv cs"
    and "inj_on (\<lambda>n. derive_chunk_id sha (d_doc_id d) n ''1.0'' iv) (set (map ch_ordinal cs)) \<Longrightarrow> distinct (map ch_chunk_id cs)"
proof -
  obtain strategy sz overlap where plan: "chunk_plan cfg (d_mime_type d) = (strategy, sz, overlap)"
    by (metis prod_cases3)
  note doc = assms(2) [unfolded chunk_document_def plan]
  note strategies = deployed_strategies [OF assms(1)]
  from doc have "get_chunker chs strategy \<noteq> Inl e" for e by (auto split: if_splits)
  then consider "strategy = ''fixed''" | "strategy = ''recursive''" | "strategy = ''markdown_aware''"
    | "strategy = ''semantic''" using strategies(5) [of strategy] by blast
  then have "stamped_chunks sha d iv cs
      \<and> (inj_on (\<lambda>n. derive_chunk_id sha (d_doc_id d) n ''1.0'' iv) (set (map ch_ordinal cs))
          \<longrightarrow> distinct (map ch_chunk_id cs))"
  proof cases
    case 1
    with doc strategies(1) have "Inr (fixed_chunk sha d iv sz overlap) = Inr cs" by (auto split: if_splits)
    from fixed.stamps [OF this] fixed.ids_distinct [OF this] show ?thesis by blast
  next
    case 2
    with doc strategies(2) have "recursive_chunk sha d iv sz overlap = Inr cs" by (auto split: if_splits)
    from recursive.stamps [OF this] recursive.ids_distinct [OF this] show ?thesis by blast
  next
    case 3
    with doc strategies(3) have "markdown_chunk sha d iv sz overlap = Inr cs" by (auto split: if_splits)
    from markdown.stamps [OF this] markdown.ids_distinct [OF this] show ?thesis by blast
  next
    case 4
    with doc strategies(4) obtain e where "semantic_chunk sha e (3 / 4) d iv sz overlap = Inr cs"
      by (auto split: if_splits)
    from semantic.stamps [OF this] semantic.ids_distinct [OF this] show ?thesis by blast
  qed
  then show "stamped_chunks sha d iv cs"
    "inj_on (\<lambda>n. derive_chunk_id sha (d_doc_id d) n ''1.0'' iv) (set (map ch_ordinal cs)) \<Longrightarrow> distinct (map ch_chunk_id cs)"
    by blast+
qed

section \<open>Properties\<close>

definition example_document :: "string \<Rightarrow> string \<Rightarrow> document" where
  "example_document mime t =
     \<lparr>d_doc_id = ''d'', d_source_uri = ''a.txt'', d_mime_type = mime, d_checksum = ''00'', d_text = Some t,
      d_acl = \<lparr>acl_tenant = ''acme'', acl_allow_groups = {}, acl_classification = ''internal''\<rparr>,
      d_metadata = [], d_ingested_at = 0\<rparr>"

text \<open>
  The fixed chunker, for an overlap below the size: every chunk is the slice of the text its
  span names, at most \<open>sz\<close> long and not blank; the ordinals count from 0; and every character of the
  text that is not white space stands in a chunk.
\<close>

theorem fixed_chunks_exact:
  assumes "0 \<le> overlap" "overlap < sz"
  shows "(\<forall>c \<in> set (fixed_chunk sha d iv sz overlap).
            cut_from d iv c \<and> span_inside d sz c \<and> ch_text c = span_text d c \<and> strip (ch_text c) \<noteq> [])
         \<and> map ch_ordinal (fixed_chunk sha d iv sz overlap) = [0 ..< length (fixed_chunk sha d iv sz overlap)]
         \<and> (\<forall>i < length (doc_text d). \<not> py_space (doc_text d ! i) \<longrightarrow>
              (\<exists>c \<in> set (fixed_chunk sha d iv sz overlap). fst (ch_span c) \<le> int i \<and> int i < snd (ch_span c)))"
  using fixed_windows_exact [OF assms order_refl refl, of sha d iv 0]
    fixed_windows_cover [OF assms order_refl, of _ "doc_text d" sha d iv 0]
  by (auto simp: fixed_chunk_def)

lemma fixed_chunks_exact_witness:
  "let cs = fixed_chunk (\<lambda>s. s) (example_document ''text/plain'' ''some text'') ''v1'' 5 2 in
   (\<forall>c \<in> set cs. cut_from (example_document ''text/plain'' ''some text'') ''v1'' c
      \<and> span_inside (example_document ''text/plain'' ''some text'') 5 c
      \<and> ch_text c = span_text (example_document ''text/plain'' ''some text'') c \<and> strip (ch_text c) \<noteq> [])
   \<and> map ch_ordinal cs = [0 ..< length cs]"
  using fixed_chunks_exact [of 2 5 "\<lambda>s. s" "example_document ''text/plain'' ''some text''" "''v1''"]
  unfolding Let_def by auto

text \<open>
  C28: The recursive chunker never raises for a positive size. Its chunks read back from their
  spans, fit the size, are numbered from 0, follow each other without overlapping, and keep every
  character that is neither white space nor a full stop, in order. The configured overlap has no
  effect.
\<close>

theorem recursive_chunks_exact:
  assumes "1 \<le> sz" "0 \<le> overlap"
  shows "\<exists>cs. recursive_chunk sha d iv sz overlap = Inr cs \<and> recursive_chunk sha d iv sz 0 = Inr cs
           \<and> (\<forall>c \<in> set cs. cut_from d iv c \<and> span_inside d sz c \<and> ch_text c = span_text d c)
           \<and> map ch_ordinal cs = [0 ..< length cs]
           \<and> sorted_wrt (\<lambda>c c'. snd (ch_span c) \<le> fst (ch_span c')) cs
           \<and> filter kept (concat (map ch_text cs)) = filter kept (doc_text d)"
proof -
  obtain cs where cs: "recursive_chunk sha d iv sz overlap = Inr cs" "chunked d iv sz (\<lambda>p. p) cs"
    using recursive_chunk_chunked [OF assms, of sha d iv] by blast
  have "(\<lambda>e. max (e - overlap) e) = (\<lambda>e. max (e - 0) e)" using assms(2) by auto
  then have "recursive_chunk sha d iv sz 0 = recursive_chunk sha d iv sz overlap"
    unfolding recursive_chunk_def by (simp only:)
  moreover have "map ch_text cs = map (span_text d) cs"
    using cs(2) by (simp add: chunked_def)
  then have "filter kept (concat (map ch_text cs)) = filter kept (doc_text d)"
    using cs(2) by (simp only: chunked_def)
  moreover have "follows = (\<lambda>c c'. snd (ch_span c) \<le> fst (ch_span c'))"
    by (intro ext) (simp add: follows_def)
  ultimately show ?thesis using cs by (simp add: chunked_def)
qed

lemma recursive_chunks_exact_witness:
  "\<exists>cs. recursive_chunk (\<lambda>s. s) (example_document ''text/html'' ''One. Two three.'') ''v1'' 6 2 = Inr cs
     \<and> filter kept (concat (map ch_text cs)) = ''OneTwothree''"
proof -
  have "filter kept ''One. Two three.'' = ''OneTwothree''"
    by (simp add: kept_def py_space_def code_def)
  then show ?thesis
    using recursive_chunks_exact [of 6 2 "\<lambda>s. s" "example_document ''text/html'' ''One. Two three.''" "''v1''"]
    by (auto simp: example_document_def doc_text_def)
qed

text \<open>
  The markdown chunker never raises for a positive size; its chunks follow each other, are the
  stripped slices of their spans (or, when no section has content, the plain slices), fit the size
  and keep every character that is neither white space nor a full stop.
\<close>

theorem markdown_chunks_exact:
  assumes "1 \<le> sz" "0 \<le> overlap"
  shows "\<exists>cs. markdown_chunk sha d iv sz overlap = Inr cs
           \<and> (\<forall>c \<in> set cs. cut_from d iv c \<and> span_inside d sz c \<and> strip (ch_text c) = strip (span_text d c))
           \<and> map ch_ordinal cs = [0 ..< length cs]
           \<and> sorted_wrt (\<lambda>c c'. snd (ch_span c) \<le> fst (ch_span c')) cs
           \<and> filter kept (concat (map (span_text d) cs)) = filter kept (doc_text d)"
proof -
  obtain cs f where cs: "markdown_chunk sha d iv sz overlap = Inr cs" "f \<in> {strip, \<lambda>p. p}" "chunked d iv sz f cs"
    using markdown_chunk_chunked [OF assms, of sha d iv] by blast
  have "strip (f x) = strip x" for x using cs(2) by (auto simp: strip_strip)
  moreover have "follows = (\<lambda>c c'. snd (ch_span c) \<le> fst (ch_span c'))"
    by (intro ext) (simp add: follows_def)
  ultimately show ?thesis using cs by (simp add: chunked_def)
qed

lemma markdown_chunks_exact_witness:
  "\<exists>cs. markdown_chunk (\<lambda>s. s) (example_document ''text/markdown'' ''# One two'') ''v1'' 20 2 = Inr cs
     \<and> (\<forall>c \<in> set cs. span_inside (example_document ''text/markdown'' ''# One two'') 20 c)"
  using markdown_chunks_exact [of 20 2 "\<lambda>s. s" "example_document ''text/markdown'' ''# One two''" "''v1''"]
  by auto

text \<open>
  C29: \<open>chunk_document\<close> under the deployed chunkers: an overlap that is not below the size is a
  ValueError and an unknown strategy a KeyError; whatever is returned carries the document's id and
  access list and the index version on every chunk, with chunk ids that differ unless the hash
  collides; the three strategies without embedder never raise and stay within the size.
\<close>

theorem chunk_document_exact:
  assumes "deployed_chunkers sha chs" "chunk_plan cfg (d_mime_type d) = (strategy, sz, overlap)"
  shows "(sz \<le> overlap \<longrightarrow> (\<exists>m. chunk_document chs cfg d iv = Inl (ValueError m)))
         \<and> (overlap < sz \<and> strategy \<notin> {''fixed'', ''recursive'', ''markdown_aware'', ''semantic''}
              \<longrightarrow> (\<exists>m. chunk_document chs cfg d iv = Inl (KeyError m)))
         \<and> (0 \<le> overlap \<and> overlap < sz \<and> strategy \<in> {''fixed'', ''recursive'', ''markdown_aware''}
              \<longrightarrow> (\<exists>cs. chunk_document chs cfg d iv = Inr cs \<and> (\<forall>c \<in> set cs. span_inside d sz c)))
         \<and> (\<forall>cs. chunk_document chs cfg d iv = Inr cs
              \<longrightarrow> (\<forall>c \<in> set cs. ch_doc_id c = d_doc_id d \<and> ch_acl c = d_acl d \<and> ch_index_version c = iv)
                \<and> (inj_on (\<lambda>n. derive_chunk_id sha (d_doc_id d) n ''1.0'' iv) (set (map ch_ordinal cs))
                    \<longrightarrow> distinct (map ch_chunk_id cs)))"
proof -
  note strategies = deployed_strategies [OF assms(1)]
  note doc = chunk_document_def [of chs cfg d iv] assms(2)
  have works: "\<exists>cs. chunk_document chs cfg d iv = Inr cs \<and> (\<forall>c \<in> set cs. span_inside d sz c)"
    if "0 \<le> overlap" "overlap < sz" "strategy \<in> {''fixed'', ''recursive'', ''markdown_aware''}"
    using that strategies(1-3) fixed_windows_exact [OF that(1,2) order_refl refl, of sha d iv 0]
      recursive_chunk_chunked [of sz overlap sha d iv] markdown_chunk_chunked [of sz overlap sha d iv]
    by (auto simp: doc chunked_def fixed_chunk_def)
  with strategies(5) [of strategy] show ?thesis
    using chunk_document_stamps [OF assms(1), of cfg d iv]
    by (auto simp: doc stamped_chunks_def cut_from_def)
qed

lemma chunk_document_exact_witness:
  "\<exists>cs. chunk_document (default_chunkers (\<lambda>s. s)) \<lparr>cg_strategies = [], cg_default_strategy = None, cg_chunker_version = None\<rparr>
          (example_document ''text/plain'' ''some text'') ''v1'' = Inr cs
     \<and> (\<forall>c \<in> set cs. span_inside (example_document ''text/plain'' ''some text'') 512 c)"
  using chunk_document_exact [of "\<lambda>s. s" "default_chunkers (\<lambda>s. s)"
      "\<lparr>cg_strategies = [], cg_default_strategy = None, cg_chunker_version = None\<rparr>" "example_document ''text/plain'' ''some text''"
      "''fixed''" 512 64 "''v1''"]
  by (simp add: example_document_def chunk_plan_def MIME_DEFAULTS_def deployed_chunkers_def)

end
