(* ===== verification/Calls.thy ===== *)
theory Calls
  imports Prelude
begin

text \<open>
  Calls that may raise and leave a state: a call takes the state and returns a value or an exception
  together with the state it leaves. \<open>valid\<close> is their Hoare triple, with one postcondition for the
  value and one for the exception. The offline pipeline and the evaluation runners are calls.
\<close>

section \<open>Sequencing\<close>

type_synonym ('s, 'a) call = "'s \<Rightarrow> 'a result \<times> 's"

definition and_then :: "('s, 'a) call \<Rightarrow> ('a \<Rightarrow> ('s, 'b) call) \<Rightarrow> ('s, 'b) call" where
  "and_then m f st = (case m st of (Inl e, st') \<Rightarrow> (Inl e, st') | (Inr x, st') \<Rightarrow> f x st')"

definition return :: "'a result \<Rightarrow> ('s, 'a) call" where
  "return r st = (r, st)"

lemma and_then_eq:
  "and_then m f st = (r, st') \<longleftrightarrow>
     (\<exists>e. m st = (Inl e, st') \<and> r = Inl e) \<or> (\<exists>x st1. m st = (Inr x, st1) \<and> f x st1 = (r, st'))"
  by (auto simp: and_then_def split: prod.splits sum.splits)

lemma return_eq [simp]: "return r st = (r', st') \<longleftrightarrow> r = r' \<and> st' = st"
  by (auto simp: return_def)

lemma and_then_InrE:
  assumes "and_then m f st = (Inr y, st')"
  obtains x st1 where "m st = (Inr x, st1)" "f x st1 = (Inr y, st')"
  using assms by (auto simp: and_then_eq)

section \<open>Triples\<close>

text \<open>
  \<open>valid P m Q E\<close>: from a state with \<open>P\<close> the call returns a value and a state with \<open>Q\<close>, or
  raises and leaves a state with \<open>E\<close>.
\<close>

definition valid ::
    "('s \<Rightarrow> bool) \<Rightarrow> ('s, 'a) call \<Rightarrow> ('a \<Rightarrow> 's \<Rightarrow> bool) \<Rightarrow> ('s \<Rightarrow> bool) \<Rightarrow> bool" where
  "valid P m Q E \<longleftrightarrow> (\<forall>st r st'. P st \<longrightarrow> m st = (r, st') \<longrightarrow> (case r of Inl e \<Rightarrow> E st' | Inr x \<Rightarrow> Q x st'))"

lemma valid_seq: "valid P m R E \<Longrightarrow> (\<And>x. valid (R x) (f x) Q E) \<Longrightarrow> valid P (and_then m f) Q E"
  unfolding valid_def and_then_eq by (fastforce split: sum.splits)

lemma valid_return:
  "(\<And>x st. r = Inr x \<Longrightarrow> P st \<Longrightarrow> Q x st) \<Longrightarrow> (\<And>st. P st \<Longrightarrow> E st) \<Longrightarrow> valid P (return r) Q E"
  by (auto simp: valid_def split: sum.splits)

lemma valid_conseq:
  "valid P m Q E \<Longrightarrow> (\<And>st. P' st \<Longrightarrow> P st) \<Longrightarrow> (\<And>x st. Q x st \<Longrightarrow> Q' x st) \<Longrightarrow> (\<And>st. E st \<Longrightarrow> E' st)
   \<Longrightarrow> valid P' m Q' E'"
  unfolding valid_def by (fastforce split: sum.splits)

lemma valid_pure: "(\<Phi> \<Longrightarrow> valid P m Q E) \<Longrightarrow> valid (\<lambda>st. P st \<and> \<Phi>) m Q E"
  by (auto simp: valid_def)

lemma validI:
  "(\<And>st x st'. P st \<Longrightarrow> m st = (Inr x, st') \<Longrightarrow> Q x st') \<Longrightarrow> (\<And>st e st'. P st \<Longrightarrow> m st = (Inl e, st') \<Longrightarrow> E st')
   \<Longrightarrow> valid P m Q E"
  unfolding valid_def by (auto split: sum.splits)

lemma validD_value: "valid P m Q E \<Longrightarrow> P st \<Longrightarrow> m st = (Inr x, st') \<Longrightarrow> Q x st'"
  and validD_raise: "valid P m Q E \<Longrightarrow> P st \<Longrightarrow> m st = (Inl e, st') \<Longrightarrow> E st'"
  unfolding valid_def by fastforce+

end
