(* ===== verification/Ingest.thy ===== *)
theory Ingest
  imports TextUtil PyVal
begin

text \<open>
  \<open>src/rag/ingestion\<close> and \<open>src/rag/parsing\<close>: from the files below a directory to parsed
  documents. \<open>files\<close> is what the file system holds, by absolute path; a path is the list of its
  parts. SHA-256, the decoding of UTF-8, the clock and the pages that pypdf extracts are arguments.
\<close>

section \<open>Paths and URIs\<close>

type_synonym path = "string list"

type_synonym files = "(path \<times> string) list"

definition path_str :: "path \<Rightarrow> string" where
  "path_str p = CHR ''/'' # py_join ''/'' p"

definition path_of :: "string \<Rightarrow> path" where
  "path_of s = filter (\<lambda>x. x \<noteq> [] \<and> x \<noteq> ''.'') (split_char (CHR ''/'') s)"

definition path_name :: "path \<Rightarrow> string" where
  "path_name p = (if p = [] then [] else last p)"

text \<open>Where the suffix starts: the last dot, when it is neither the first nor the last character.\<close>

definition suffix_start :: "string \<Rightarrow> nat option" where
  "suffix_start name =
     (let after = takeWhile (\<lambda>c. c \<noteq> CHR ''.'') (rev name); i = length name - length after - 1 in
      if length after < length name \<and> 0 < i \<and> after \<noteq> [] then Some i else None)"

definition path_suffix :: "path \<Rightarrow> string" where
  "path_suffix p = (case suffix_start (path_name p) of None \<Rightarrow> [] | Some i \<Rightarrow> drop i (path_name p))"

definition path_stem :: "path \<Rightarrow> string" where
  "path_stem p = (case suffix_start (path_name p) of None \<Rightarrow> path_name p | Some i \<Rightarrow> take i (path_name p))"

text \<open>\<open>Path.as_uri\<close>: the bytes of the path, those that are not plain as percent escapes.\<close>

definition utf8_char :: "char \<Rightarrow> string" where
  "utf8_char c =
     (if code c < 128 then [c] else [char_of (192 + code c div 64), char_of (128 + code c mod 64)])"

definition upper_hex :: "nat \<Rightarrow> char" where
  "upper_hex n = char_of (if n < 10 then 48 + n else 55 + n)"

definition uri_plain :: "char \<Rightarrow> bool" where
  "uri_plain c \<longleftrightarrow> ascii_alnum c \<or> c \<in> {CHR ''/'', CHR ''_'', CHR ''.'', CHR ''-'', CHR ''~''}"

definition quote_byte :: "char \<Rightarrow> string" where
  "quote_byte c =
     (if uri_plain c then [c] else [CHR ''%'', upper_hex (code c div 16), upper_hex (code c mod 16)])"

definition as_uri :: "path \<Rightarrow> string" where
  "as_uri p = ''file://'' @ concat (map quote_byte (concat (map utf8_char (path_str p))))"

definition removeprefix :: "string \<Rightarrow> string \<Rightarrow> string" where
  "removeprefix s pre = (if take (length pre) s = pre then drop (length pre) s else s)"

section \<open>Connectors\<close>

definition DEFAULT_ACL :: acl_tags where
  "DEFAULT_ACL = \<lparr>acl_tenant = ''default'', acl_allow_groups = {''public''}, acl_classification = ''internal''\<rparr>"

definition checksum_bytes :: "(string \<Rightarrow> string) \<Rightarrow> string \<Rightarrow> string" where
  "checksum_bytes sha bytes = sha256_hex sha [bytes]"

definition guess_mime :: "path \<Rightarrow> string" where
  "guess_mime p =
     (case map_of
        [(''.txt'', ''text/plain''), (''.md'', ''text/markdown''), (''.markdown'', ''text/markdown''),
         (''.pdf'', ''application/pdf''), (''.html'', ''text/html''), (''.htm'', ''text/html''),
         (''.json'', ''application/json'')] (py_lower (path_suffix p)) of
        None \<Rightarrow> ''application/octet-stream''
      | Some m \<Rightarrow> m)"

text \<open>\<open>sorted(root.glob("**/*"))\<close> without the two excluded names: the files below the dir.\<close>

definition below :: "path \<Rightarrow> path \<Rightarrow> bool" where
  "below dir p \<longleftrightarrow> length dir < length p \<and> take (length dir) p = dir"

definition list_uris :: "files \<Rightarrow> path \<Rightarrow> string list" where
  "list_uris fs dir =
     map as_uri (filter (\<lambda>p. path_name p \<noteq> ''.gitkeep'' \<and> path_name p \<noteq> ''README.md'')
       (sort (filter (below dir) (map fst fs))))"

record reader =
  rd_sha :: "string \<Rightarrow> string"
  rd_decode :: "string \<Rightarrow> string option"
  rd_now :: real
  rd_pages :: "json \<Rightarrow> string list result"

definition fetch :: "reader \<Rightarrow> files \<Rightarrow> string \<Rightarrow> acl_tags option \<Rightarrow> document result" where
  "fetch rd fs uri acl =
     (let p = path_of (removeprefix uri ''file://'') in
      case map_of fs p of
        None \<Rightarrow> Inl (OSError (''[Errno 2] No such file or directory: '' @ repr_str (path_str p)))
      | Some bytes \<Rightarrow> Inr
          \<lparr>d_doc_id = path_stem p, d_source_uri = uri, d_mime_type = guess_mime p,
           d_checksum = checksum_bytes (rd_sha rd) bytes, d_text = rd_decode rd bytes,
           d_acl = (case acl of None \<Rightarrow> DEFAULT_ACL | Some a \<Rightarrow> a),
           d_metadata = [(''path'', JStr (path_str p))], d_ingested_at = rd_now rd\<rparr>)"

text \<open>A connector is what the factory makes of the dir: its listing and its fetch.\<close>

type_synonym connector = "string list \<times> (string \<Rightarrow> acl_tags option \<Rightarrow> document result)"

definition local_fs :: "reader \<Rightarrow> files \<Rightarrow> path \<Rightarrow> connector" where
  "local_fs rd fs dir = (list_uris fs dir, fetch rd fs)"

definition connectors :: "reader \<Rightarrow> files \<Rightarrow> (string \<times> (path \<Rightarrow> connector)) list" where
  "connectors rd fs = [(''local_fs'', local_fs rd fs)]"

definition get_connector :: "(string \<times> (path \<Rightarrow> connector)) list \<Rightarrow> string \<Rightarrow> path \<Rightarrow> connector result" where
  "get_connector reg name dir =
     (case map_of reg name of
        None \<Rightarrow> Inl (KeyError (''Unknown connector: '' @ name @ ''. Available: ''
                  @ py_repr (\<lambda>x. []) (JList (map JStr (sort (map fst reg))))))
      | Some factory \<Rightarrow> Inr (factory dir))"

section \<open>Parsers\<close>

definition with_meta :: "json_dict \<Rightarrow> document \<Rightarrow> document" where
  "with_meta kvs d = d\<lparr>d_metadata := fold (\<lambda>(k, v). AList.update k v) kvs (d_metadata d)\<rparr>"

definition no_text :: "document \<Rightarrow> 'a result" where
  "no_text d = Inl (ValueError (''No text available for '' @ d_doc_id d))"

definition parse_text :: "document \<Rightarrow> document result" where
  "parse_text d =
     (case d_text d of
        None \<Rightarrow> no_text d
      | Some t \<Rightarrow> Inr (with_meta [(''parser'', JStr ''text'')] (d\<lparr>d_text := Some (strip t)\<rparr>)))"

definition parse_markdown :: "document \<Rightarrow> document result" where
  "parse_markdown d =
     (case d_text d of
        None \<Rightarrow> no_text d
      | Some t \<Rightarrow> Inr (with_meta [(''parser'', JStr ''markdown'')] (d\<lparr>d_text := Some (collapse_blank_lines t)\<rparr>)))"

text \<open>A literal text under \<open>re.I\<close>, for texts of ASCII letters and signs.\<close>

fun rx_text_ci :: "string \<Rightarrow> rx" where
  "rx_text_ci [] = Rep True 0 (Some 0) (\<lambda>_. True)"
| "rx_text_ci (c # cs) = Seq (Cls (\<lambda>x. lower_char x = lower_char c)) (rx_text_ci cs)"

definition element_rx :: "string \<Rightarrow> rx" where
  "element_rx name =
     Seq (rx_text_ci (CHR ''<'' # name)) (Seq (Rep False 0 None (\<lambda>_. True)) (rx_text_ci (''</'' @ name @ ''>'')))"

definition TAG :: rx where
  "TAG = Seq (Cls (\<lambda>c. c = CHR ''<'')) (Seq (Rep True 1 None (\<lambda>c. c \<noteq> CHR ''>'')) (Cls (\<lambda>c. c = CHR ''>'')))"

definition strip_html :: "string \<Rightarrow> string" where
  "strip_html t =
     (let blank = (\<lambda>_. '' '');
          t = rx_sub (element_rx ''script'') blank t;
          t = rx_sub (element_rx ''style'') blank t;
          t = rx_sub TAG blank t
      in normalize_whitespace t)"

definition parse_html :: "document \<Rightarrow> document result" where
  "parse_html d =
     (case d_text d of
        None \<Rightarrow> no_text d
      | Some t \<Rightarrow> Inr (with_meta [(''parser'', JStr ''html'')] (d\<lparr>d_text := Some (strip_html t)\<rparr>)))"

text \<open>\<open>rd_pages\<close> is the text of every page, empty where pypdf finds none.\<close>

definition parse_pdf :: "reader \<Rightarrow> document \<Rightarrow> document result" where
  "parse_pdf rd d =
     (let path = (case map_of (d_metadata d) ''path'' of None \<Rightarrow> JNull | Some j \<Rightarrow> j) in
      if \<not> truthy path then
        (case d_text d of
           Some t \<Rightarrow> Inr (with_meta [(''parser'', JStr ''pdf-passthrough'')] d)
         | None \<Rightarrow> Inl (ValueError (''no path or text available for '' @ d_doc_id d)))
      else
        bind_result (rd_pages rd path) (\<lambda>pages.
        let t = py_join [CHR 0x0A, CHR 0x0A] (filter (\<lambda>p. p \<noteq> []) (map strip pages)) in
        Inr (with_meta [(''parser'', JStr ''pdf''), (''page_count'', JInt (int (length pages)))]
              (d\<lparr>d_text := Some t\<rparr>))))"

type_synonym parsers = "(string \<times> (document \<Rightarrow> document result)) list"

definition default_parsers :: "reader \<Rightarrow> parsers" where
  "default_parsers rd =
     [(''text/plain'', parse_text), (''application/json'', parse_text), (''text/markdown'', parse_markdown),
      (''text/html'', parse_html), (''application/pdf'', parse_pdf rd)]"

definition get_parser :: "parsers \<Rightarrow> string \<Rightarrow> (document \<Rightarrow> document result) result" where
  "get_parser ps mime_type =
     (case map_of ps mime_type of
        None \<Rightarrow> Inl (KeyError (''No parser for mime type: '' @ mime_type))
      | Some p \<Rightarrow> Inr p)"

definition parse_document :: "parsers \<Rightarrow> document \<Rightarrow> document result" where
  "parse_document ps d = bind_result (get_parser ps (d_mime_type d)) (\<lambda>p. p d)"

definition register_parser :: "string \<Rightarrow> (document \<Rightarrow> document result) \<Rightarrow> parsers \<Rightarrow> parsers" where
  "register_parser mime_type p ps = AList.update mime_type p ps"

section \<open>What a URI names\<close>

definition quoted :: "string \<Rightarrow> string" where
  "quoted x = concat (map quote_byte (concat (map utf8_char x)))"

definition path_ok :: "path \<Rightarrow> bool" where
  "path_ok p \<longleftrightarrow> (\<forall>x \<in> set p. x \<noteq> [] \<and> CHR ''/'' \<notin> set x \<and> x \<noteq> ''.'')"

definition path_plain :: "path \<Rightarrow> bool" where
  "path_plain p \<longleftrightarrow> (\<forall>x \<in> set p. \<forall>c \<in> set x. uri_plain c)"

lemma quoted_simps [simp]:
  "quoted [] = []" "quoted (c # x) = concat (map quote_byte (utf8_char c)) @ quoted x"
  by (simp_all add: quoted_def)

lemma quoted_append [simp]: "quoted (x @ y) = quoted x @ quoted y"
  by (simp add: quoted_def)

lemma uri_plain_ascii: "uri_plain c \<Longrightarrow> code c < 128"
  by (auto simp: uri_plain_def ascii_alnum_def ascii_upper_def ascii_lower_def py_digit_def code_def)

lemma quote_plain: "uri_plain c \<Longrightarrow> concat (map quote_byte (utf8_char c)) = [c]"
  using uri_plain_ascii [of c] by (simp add: utf8_char_def quote_byte_def)

lemma quoted_plain: "\<forall>c \<in> set x. uri_plain c \<Longrightarrow> quoted x = x"
  by (induction x) (simp_all add: quote_plain)

lemma quote_unplain:
  assumes "\<not> uri_plain c"
  shows "CHR ''%'' \<in> set (concat (map quote_byte (utf8_char c)))"
proof (cases "code c < 128")
  case True
  with assms show ?thesis by (simp add: utf8_char_def quote_byte_def)
next
  case False
  then have "\<not> uri_plain (char_of (192 + code c div 64))"
    using uri_plain_ascii [of "char_of (192 + code c div 64)"] code_less [of c]
    by (auto simp: code_char_of)
  with False show ?thesis by (simp add: utf8_char_def quote_byte_def)
qed

lemma quoted_percent: "c \<in> set x \<Longrightarrow> \<not> uri_plain c \<Longrightarrow> CHR ''%'' \<in> set (quoted x)"
  by (induction x) (use quote_unplain in auto)

lemma upper_hex_no_slash: "n < 16 \<Longrightarrow> upper_hex n \<noteq> CHR ''/''"
proof
  assume "n < 16" "upper_hex n = CHR ''/''"
  then have "code (upper_hex n) = 47" by (simp add: code_def)
  with \<open>n < 16\<close> show False by (auto simp: upper_hex_def code_char_of split: if_splits)
qed

lemma quote_byte_no_slash: "c \<noteq> CHR ''/'' \<Longrightarrow> CHR ''/'' \<notin> set (quote_byte c)"
  using upper_hex_no_slash [of "code c div 16"] upper_hex_no_slash [of "code c mod 16"] code_less [of c]
  by (auto simp: quote_byte_def less_mult_imp_div_less)

lemma utf8_no_slash: "c \<noteq> CHR ''/'' \<Longrightarrow> CHR ''/'' \<notin> set (utf8_char c)"
proof -
  assume "c \<noteq> CHR ''/''"
  moreover have "char_of (192 + code c div 64) \<noteq> CHR ''/''" "char_of (128 + code c mod 64) \<noteq> CHR ''/''"
    if "\<not> code c < 128"
  proof -
    have "code (CHR ''/'') = 47" by (simp add: code_def)
    moreover have "code (char_of (192 + code c div 64)) = 192 + code c div 64"
      using code_less [of c] by (intro code_char_of) linarith
    moreover have "code (char_of (128 + code c mod 64)) = 128 + code c mod 64"
      using mod_less_divisor [of 64 "code c"] by (intro code_char_of) linarith
    ultimately show "char_of (192 + code c div 64) \<noteq> CHR ''/''" "char_of (128 + code c mod 64) \<noteq> CHR ''/''"
      by auto
  qed
  ultimately show ?thesis by (auto simp: utf8_char_def)
qed

lemma quoted_no_slash: "CHR ''/'' \<notin> set x \<Longrightarrow> CHR ''/'' \<notin> set (quoted x)"
proof (induction x)
  case (Cons c x)
  have "CHR ''/'' \<notin> set (utf8_char c)" using Cons.prems by (intro utf8_no_slash) auto
  then have "\<forall>b \<in> set (utf8_char c). CHR ''/'' \<notin> set (quote_byte b)"
    using quote_byte_no_slash by metis
  with Cons show ?case by simp
qed simp

lemma quoted_path_str: "quoted (path_str p) = path_str (map quoted p)"
proof -
  have slash: "concat (map quote_byte (utf8_char (CHR ''/''))) = ''/''"
    by (rule quote_plain) (simp add: uri_plain_def)
  have "quoted (py_join ''/'' p) = py_join ''/'' (map quoted p)"
    by (induction "''/''" p rule: py_join.induct) (simp_all add: slash)
  with slash show ?thesis by (simp add: path_str_def)
qed

lemma path_of_str:
  assumes "path_ok p"
  shows "path_of (path_str p) = p"
proof -
  have "filter (\<lambda>x. x \<noteq> [] \<and> x \<noteq> ''.'') (split_char (CHR ''/'') (py_join ''/'' p)) = p"
  proof (cases "p = []")
    case False
    then have "split_char (CHR ''/'') (py_join ''/'' p) = p"
      using assms by (intro split_char_py_join) (auto simp: path_ok_def)
    with assms show ?thesis by (simp add: path_ok_def filter_id_conv)
  qed simp
  then show ?thesis by (simp add: path_of_def path_str_def)
qed

lemma quoted_part_ok:
  assumes "x \<noteq> []" "CHR ''/'' \<notin> set x" "x \<noteq> ''.''"
  shows "quoted x \<noteq> [] \<and> CHR ''/'' \<notin> set (quoted x) \<and> quoted x \<noteq> ''.''"
proof (cases "\<forall>c \<in> set x. uri_plain c")
  case True
  with assms quoted_plain [OF True] show ?thesis by simp
next
  case False
  then have "CHR ''%'' \<in> set (quoted x)" using quoted_percent by blast
  with quoted_no_slash [OF assms(2)] show ?thesis by auto
qed

lemma uri_names:
  assumes "path_ok p"
  shows "path_of (removeprefix (as_uri p) ''file://'') = map quoted p"
proof -
  have "path_ok (map quoted p)"
    using assms quoted_part_ok by (simp add: path_ok_def)
  then show ?thesis
    using path_of_str [of "map quoted p"] quoted_path_str [of p]
    by (simp add: as_uri_def removeprefix_def quoted_def [symmetric])
qed

lemma quoted_path_id:
  assumes "\<forall>x \<in> set p. CHR ''%'' \<notin> set x"
  shows "map quoted p = p \<longleftrightarrow> path_plain p"
proof
  assume same: "map quoted p = p"
  have "uri_plain c" if "x \<in> set p" "c \<in> set x" for x c
  proof (rule ccontr)
    assume "\<not> uri_plain c"
    with that(2) have "CHR ''%'' \<in> set (quoted x)" by (rule quoted_percent)
    moreover have "quoted x \<in> set p" using that(1) same by (metis image_eqI list.set_map)
    ultimately show False using assms by blast
  qed
  then show "path_plain p" by (simp add: path_plain_def)
next
  assume "path_plain p"
  then show "map quoted p = p" by (simp add: path_plain_def quoted_plain map_idI)
qed

section \<open>Properties\<close>

definition ascii_reader :: reader where
  "ascii_reader =
     \<lparr>rd_sha = (\<lambda>s. s), rd_decode = (\<lambda>b. if \<forall>c \<in> set b. code c < 128 then Some b else None), rd_now = 0,
      rd_pages = (\<lambda>p. Inl (OSError ''not a PDF''))\<rparr>"

text \<open>
  fetching what the listing names, in a tree where no file name holds a percent sign. A file
  whose path has only letters, digits and \<open>_.-~\<close> comes back as a document with its bytes, its stem
  as id and the tags given; any other file is listed and then not found, which ends the ingestion.
\<close>

theorem fetch_listed:
  assumes "\<forall>p \<in> fst ` set fs. path_ok p \<and> (\<forall>x \<in> set p. CHR ''%'' \<notin> set x)"
    and "map_of fs p = Some bytes"
  shows "if path_plain p
         then \<exists>d. fetch rd fs (as_uri p) acl = Inr d \<and> d_doc_id d = path_stem p \<and> d_source_uri d = as_uri p
                \<and> d_mime_type d = guess_mime p \<and> d_checksum d = checksum_bytes (rd_sha rd) bytes \<and> d_text d = rd_decode rd bytes
                \<and> d_acl d = (case acl of None \<Rightarrow> DEFAULT_ACL | Some a \<Rightarrow> a)
         else \<exists>m. fetch rd fs (as_uri p) acl = Inl (OSError m)"
proof -
  have "p \<in> fst ` set fs" using assms(2) by (rule map_of_SomeD [THEN rev_image_eqI]) simp
  then have p: "path_ok p" "\<forall>x \<in> set p. CHR ''%'' \<notin> set x" using assms(1) by auto
  note names = uri_names [OF p(1)] quoted_path_id [OF p(2)]
  show ?thesis
  proof (cases "path_plain p")
    case True
    with names have "path_of (removeprefix (as_uri p) ''file://'') = p" by simp
    with True assms(2) show ?thesis by (simp add: fetch_def)
  next
    case False
    then obtain x c where "x \<in> set p" "c \<in> set x" "\<not> uri_plain c" by (auto simp: path_plain_def)
    then have "quoted x \<in> set (map quoted p)" "CHR ''%'' \<in> set (quoted x)" using quoted_percent by auto
    with assms(1) have "map_of fs (map quoted p) = None" by (force simp: map_of_eq_None_iff)
    with False names(1) show ?thesis by (simp add: fetch_def)
  qed
qed

lemma fetch_listed_witness:
  "let fs = [([''data'', ''my doc.md''], ''# Hi''), ([''data'', ''a.txt''], ''hello'')] in
   (\<exists>m. fetch ascii_reader fs (as_uri [''data'', ''my doc.md'']) None = Inl (OSError m))
   \<and> (\<exists>d. fetch ascii_reader fs (as_uri [''data'', ''a.txt'']) None = Inr d \<and> d_doc_id d = ''a'')"
proof -
  let ?fs = "[([''data'', ''my doc.md''], ''# Hi''), ([''data'', ''a.txt''], ''hello'')]"
  have plain: "\<not> path_plain [''data'', ''my doc.md'']" "path_plain [''data'', ''a.txt'']"
    by (simp_all add: path_plain_def uri_plain_def ascii_alnum_def ascii_upper_def ascii_lower_def
        py_digit_def code_def)
  have "path_stem [''data'', ''a.txt''] = ''a''"
    by (simp add: path_stem_def path_name_def suffix_start_def)
  then show ?thesis
    using fetch_listed [of ?fs "[''data'', ''my doc.md'']" "''# Hi''" ascii_reader None]
      fetch_listed [of ?fs "[''data'', ''a.txt'']" "''hello''" ascii_reader None] plain
    by (auto simp: path_ok_def)
qed

end
