(* ===== verification/Index_Registry.thy ===== *)
theory Index_Registry
  imports Json PyVal
begin

text \<open>
  \<open>src/rag/index_registry.py\<close>: the YAML file that records the index versions and which of them
  is active. The state is what the file holds after parsing and whether it can be written; the
  dump sorts the keys, which \<open>json_norm\<close> does. \<open>validate\<close> is pydantic's \<open>model_validate\<close>.
\<close>

section \<open>Definitions\<close>

record index_version =
  ix_version :: string
  ix_collection :: string
  ix_alias :: string
  ix_status :: string
  ix_created_at :: string
  ix_chunk_count :: int
  ix_embedding_model :: "string option"
  ix_chunker_version :: "string option"

text \<open>\<open>rg_file\<close>: no file, a text that YAML rejects, or the parsed value.\<close>

record index_registry =
  rg_file :: "json result option"
  rg_writable :: bool

definition json_opt :: "string option \<Rightarrow> json" where
  "json_opt s = (case s of None \<Rightarrow> JNull | Some x \<Rightarrow> JStr x)"

definition ix_dump :: "index_version \<Rightarrow> json_dict" where
  "ix_dump e =
     [(''collection'', JStr (ix_collection e)), (''alias'', JStr (ix_alias e)), (''status'', JStr (ix_status e)),
      (''created_at'', JStr (ix_created_at e)), (''chunk_count'', JInt (ix_chunk_count e)),
      (''embedding_model'', json_opt (ix_embedding_model e)), (''chunker_version'', json_opt (ix_chunker_version e))]"

definition setdefault :: "string \<Rightarrow> json \<Rightarrow> json_dict \<Rightarrow> json_dict" where
  "setdefault k v d = (if map_of d k = None then d @ [(k, v)] else d)"

definition no_versions :: json_dict where
  "no_versions = [(''active'', JNull), (''versions'', JDict [])]"

definition with_defaults :: "json \<Rightarrow> json_dict" where
  "with_defaults j =
     (case (if truthy j then j else JDict []) of
        JDict kvs \<Rightarrow> setdefault ''versions'' (JDict []) (setdefault ''active'' JNull kvs)
      | _ \<Rightarrow> no_versions)"

definition reg_load :: "index_registry \<Rightarrow> json_dict result" where
  "reg_load r =
     (case rg_file r of
        None \<Rightarrow> Inr no_versions
      | Some content \<Rightarrow> bind_result content (\<lambda>j. Inr (with_defaults j)))"

definition the_versions :: "json_dict \<Rightarrow> json" where
  "the_versions data = (case map_of data ''versions'' of None \<Rightarrow> JNull | Some j \<Rightarrow> j)"

definition no_attribute :: "json \<Rightarrow> string \<Rightarrow> 'a result" where
  "no_attribute j name = Inl (AttributeError (repr_str (type_name j) @ '' object has no attribute '' @ repr_str name))"

definition active_version :: "(real \<Rightarrow> string) \<Rightarrow> index_registry \<Rightarrow> string option result" where
  "active_version frepr r =
     bind_result (reg_load r) (\<lambda>data.
       let active = (case map_of data ''active'' of None \<Rightarrow> JNull | Some j \<Rightarrow> j) in
       Inr (if truthy active then Some (py_str frepr active) else None))"

text \<open>\<open>IndexVersion.model_validate({"version": name, **body})\<close>.\<close>

definition validated :: "(json_dict \<Rightarrow> index_version result) \<Rightarrow> string \<Rightarrow> json \<Rightarrow> index_version result" where
  "validated validate name body =
     (case body of
        JDict kvs \<Rightarrow> validate (fold (\<lambda>(k, v). AList.update k v) kvs [(''version'', JStr name)])
      | j \<Rightarrow> Inl (TypeError (repr_str (type_name j) @ '' object is not a mapping'')))"

definition reg_get ::
    "(json_dict \<Rightarrow> index_version result) \<Rightarrow> index_registry \<Rightarrow> string \<Rightarrow> index_version option result" where
  "reg_get validate r version =
     bind_result (reg_load r) (\<lambda>data.
       (case the_versions data of
          JDict vs \<Rightarrow>
            (case map_of vs version of
               None \<Rightarrow> Inr None
             | Some raw \<Rightarrow>
                 if \<not> truthy raw then Inr None
                 else bind_result (validated validate version raw) (\<lambda>e. Inr (Some e)))
        | j \<Rightarrow> no_attribute j ''get''))"

definition list_versions ::
    "(json_dict \<Rightarrow> index_version result) \<Rightarrow> index_registry \<Rightarrow> index_version list result" where
  "list_versions validate r =
     bind_result (reg_load r) (\<lambda>data.
       (case the_versions data of
          JDict vs \<Rightarrow> map_result (\<lambda>(name, body). validated validate name body) (sort_key fst vs)
        | j \<Rightarrow> no_attribute j ''items''))"

definition reg_save :: "json_dict \<Rightarrow> index_registry \<Rightarrow> index_registry" where
  "reg_save data r = (if rg_writable r then r\<lparr>rg_file := Some (Inr (json_norm (JDict data)))\<rparr> else r)"

text \<open>\<open>data["versions"][entry.version] = body\<close>, then the save.\<close>

definition reg_record :: "index_version \<Rightarrow> index_registry \<Rightarrow> unit result \<times> index_registry" where
  "reg_record e r =
     (case reg_load r of
        Inl x \<Rightarrow> (Inl x, r)
      | Inr data \<Rightarrow>
          (case the_versions data of
             JDict vs \<Rightarrow>
               (Inr (), reg_save (AList.update ''versions'' (JDict (AList.update (ix_version e) (JDict (ix_dump e)) vs)) data) r)
           | JList js \<Rightarrow> (Inl (TypeError ''list indices must be integers or slices, not str''), r)
           | j \<Rightarrow> (Inl (TypeError (repr_str (type_name j) @ '' object does not support item assignment'')), r)))"

text \<open>The loop over the versions: the named one becomes active, every other one retired.\<close>

fun set_status :: "string \<Rightarrow> (string \<times> json) list \<Rightarrow> (string \<times> json) list result" where
  "set_status version [] = Inr []"
| "set_status version ((name, body) # vs) =
     (case body of
        JDict kvs \<Rightarrow>
          bind_result (set_status version vs) (\<lambda>rest.
            Inr ((name, JDict (AList.update ''status''
                    (JStr (if name = version then ''active'' else ''retired'')) kvs)) # rest))
      | JList js \<Rightarrow> Inl (TypeError ''list indices must be integers or slices, not str'')
      | j \<Rightarrow> Inl (TypeError (repr_str (type_name j) @ '' object does not support item assignment'')))"

text \<open>\<open>version in versions\<close>.\<close>

definition py_in :: "string \<Rightarrow> json \<Rightarrow> bool result" where
  "py_in x j =
     (case j of
        JDict kvs \<Rightarrow> Inr (x \<in> fst ` set kvs)
      | JList js \<Rightarrow> Inr (JStr x \<in> set js)
      | JStr s \<Rightarrow> Inr (contains s x)
      | _ \<Rightarrow> Inl (TypeError (''argument of type '' @ repr_str (type_name j) @ '' is not iterable'')))"

definition reg_activate :: "string \<Rightarrow> index_registry \<Rightarrow> unit result \<times> index_registry" where
  "reg_activate version r =
     (case bind_result (reg_load r) (\<lambda>data.
           bind_result (py_in version (the_versions data)) (\<lambda>known.
           if \<not> known
           then Inl (KeyError (''cannot activate unknown index version '' @ repr_str version))
           else
             (case the_versions data of
                JDict vs \<Rightarrow>
                  bind_result (set_status version vs) (\<lambda>vs'.
                  Inr (AList.update ''active'' (JStr version) (AList.update ''versions'' (JDict vs') data)))
              | j \<Rightarrow> no_attribute j ''items''))) of
        Inl x \<Rightarrow> (Inl x, r)
      | Inr data \<Rightarrow> (Inr (), reg_save data r))"

section \<open>What the file holds\<close>

text \<open>A well-formed registry: no file yet, or a mapping whose versions map names to mappings.\<close>

definition reg_ok :: "index_registry \<Rightarrow> bool" where
  "reg_ok r \<longleftrightarrow> (\<exists>data vs. reg_load r = Inr data \<and> the_versions data = JDict vs
      \<and> (\<forall>(name, body) \<in> set vs. \<exists>kvs. body = JDict kvs))"

text \<open>The body recorded for a version, and the version that is active.\<close>

definition reg_body :: "index_registry \<Rightarrow> string \<Rightarrow> json option" where
  "reg_body r name =
     (case reg_load r of
        Inl e \<Rightarrow> None
      | Inr data \<Rightarrow> (case the_versions data of JDict vs \<Rightarrow> map_of vs name | _ \<Rightarrow> None))"

definition reg_active :: "index_registry \<Rightarrow> json option" where
  "reg_active r = (case reg_load r of Inl e \<Rightarrow> None | Inr data \<Rightarrow> map_of data ''active'')"

definition body_field :: "string \<Rightarrow> json \<Rightarrow> json option" where
  "body_field k j = (case j of JDict kvs \<Rightarrow> map_of kvs k | _ \<Rightarrow> None)"

lemma map_of_filter: "map_of xs k = (case filter (\<lambda>y. fst y = k) xs of [] \<Rightarrow> None | x # _ \<Rightarrow> Some (snd x))"
  by (induction xs) auto

lemma map_of_sort_key: "map_of (sort_key fst xs) k = map_of xs k"
  by (simp add: map_of_filter [of "sort_key fst xs"] map_of_filter [of xs] sort_key_stable)

lemma map_of_json_norm:
  "map_of (sort_key fst (map (map_prod id json_norm) kvs)) k = map_option json_norm (map_of kvs k)"
  unfolding map_of_sort_key by (induction kvs) auto

lemma setdefault_same: "map_of d k \<noteq> None \<Longrightarrow> setdefault k v d = d"
  by (simp add: setdefault_def)

lemma setdefault_keys:
  "map_of (setdefault k v d) k \<noteq> None" "map_of d j \<noteq> None \<Longrightarrow> map_of (setdefault k v d) j \<noteq> None"
  by (auto simp: setdefault_def map_add_def split: option.splits)

lemma with_defaults_keys:
  "map_of (with_defaults j) ''active'' \<noteq> None" "map_of (with_defaults j) ''versions'' \<noteq> None"
proof -
  have "with_defaults j = no_versions
      \<or> (\<exists>kvs. with_defaults j = setdefault ''versions'' (JDict []) (setdefault ''active'' JNull kvs))"
    by (cases j) (auto simp: with_defaults_def)
  then show "map_of (with_defaults j) ''active'' \<noteq> None" "map_of (with_defaults j) ''versions'' \<noteq> None"
    using setdefault_keys by (auto simp: no_versions_def)
qed

lemma reg_load_keys:
  assumes "reg_load r = Inr data"
  shows "map_of data ''active'' \<noteq> None \<and> map_of data ''versions'' \<noteq> None"
proof (cases "rg_file r")
  case None
  with assms show ?thesis by (auto simp: reg_load_def no_versions_def)
next
  case (Some content)
  with assms obtain j where "data = with_defaults j" by (auto simp: reg_load_def)
  then show ?thesis using with_defaults_keys by simp
qed

text \<open>Saving a value that has both keys and loading it again gives the value, its keys sorted.\<close>

lemma reg_load_save:
  assumes "rg_writable r" "map_of data ''active'' \<noteq> None" "map_of data ''versions'' \<noteq> None"
  shows "\<exists>data'. reg_load (reg_save data r) = Inr data' \<and> (\<forall>k. map_of data' k = map_option json_norm (map_of data k))"
proof -
  let ?data = "sort_key fst (map (map_prod id json_norm) data)"
  have look: "map_of ?data k = map_option json_norm (map_of data k)" for k
    by (rule map_of_json_norm)
  have "?data \<noteq> []" using look [of "''active''"] assms(2) by force
  then have "reg_load (reg_save data r)
      = Inr (setdefault ''versions'' (JDict []) (setdefault ''active'' JNull ?data))"
    using assms(1) by (simp add: reg_load_def reg_save_def with_defaults_def)
  moreover have "setdefault ''versions'' (JDict []) (setdefault ''active'' JNull ?data) = ?data"
    using assms(2,3) by (simp add: setdefault_same look)
  ultimately show ?thesis using look by simp
qed

lemma body_field_norm: "body_field k (json_norm j) = map_option json_norm (body_field k j)"
  by (cases j) (simp_all add: body_field_def map_of_json_norm)

lemma saved:
  assumes "rg_writable r" "map_of data ''active'' \<noteq> None" "map_of data ''versions'' = Some (JDict vs)"
  shows "reg_body (reg_save data r) name = map_option json_norm (map_of vs name)"
    and "reg_active (reg_save data r) = map_option json_norm (map_of data ''active'')"
    and "(\<forall>(name, body) \<in> set vs. \<exists>kvs. body = JDict kvs) \<Longrightarrow> reg_ok (reg_save data r)"
proof -
  obtain data' where data': "reg_load (reg_save data r) = Inr data'"
      "\<And>k. map_of data' k = map_option json_norm (map_of data k)"
    using reg_load_save [OF assms(1,2)] assms(3) by auto
  have vs: "the_versions data' = JDict (sort_key fst (map (map_prod id json_norm) vs))"
    using assms(3) by (simp add: the_versions_def data'(2))
  show "reg_body (reg_save data r) name = map_option json_norm (map_of vs name)"
    by (simp add: reg_body_def data'(1) vs map_of_json_norm)
  show "reg_active (reg_save data r) = map_option json_norm (map_of data ''active'')"
    by (simp add: reg_active_def data')
  assume "\<forall>(name, body) \<in> set vs. \<exists>kvs. body = JDict kvs"
  then have "\<forall>(name, body) \<in> set (sort_key fst (map (map_prod id json_norm) vs)). \<exists>kvs. body = JDict kvs"
    by fastforce
  with data'(1) vs show "reg_ok (reg_save data r)" by (auto simp: reg_ok_def)
qed

lemma map_of_Some_versions: "the_versions data = JDict vs \<Longrightarrow> map_of data ''versions'' = Some (JDict vs)"
  by (auto simp: the_versions_def split: option.splits)

lemma reg_record_effect:
  assumes "reg_ok r" "rg_writable r"
  shows "\<exists>r'. reg_record e r = (Inr (), r') \<and> reg_ok r' \<and> rg_writable r'
           \<and> reg_body r' (ix_version e) = Some (json_norm (JDict (ix_dump e)))
           \<and> (\<forall>name. name \<noteq> ix_version e \<longrightarrow> reg_body r' name = map_option json_norm (reg_body r name))
           \<and> reg_active r' = map_option json_norm (reg_active r)"
proof -
  obtain data vs where data: "reg_load r = Inr data" "the_versions data = JDict vs"
      "\<forall>(name, body) \<in> set vs. \<exists>kvs. body = JDict kvs"
    using assms(1) by (auto simp: reg_ok_def)
  let ?vs = "AList.update (ix_version e) (JDict (ix_dump e)) vs"
  let ?data = "AList.update ''versions'' (JDict ?vs) data"
  have dicts: "\<forall>(name, body) \<in> set ?vs. \<exists>kvs. body = JDict kvs"
    using data(3) by (auto dest!: in_update)
  have act: "map_of ?data ''active'' = map_of data ''active''" "map_of ?data ''versions'' = Some (JDict ?vs)"
    by (simp_all add: update_conv)
  note saved = saved [OF assms(2) _ act(2)]
  have "map_of ?data ''active'' \<noteq> None" using reg_load_keys [OF data(1)] by (simp add: update_conv)
  note saved = saved [OF this]
  have "reg_record e r = (Inr (), reg_save ?data r)" by (simp add: reg_record_def data(1,2))
  moreover have "reg_ok (reg_save ?data r)" using saved(3) dicts by blast
  moreover have "rg_writable (reg_save ?data r)" using assms(2) by (simp add: reg_save_def)
  moreover have "reg_body r name = map_of vs name" for name by (simp add: reg_body_def data(1,2))
  moreover have "reg_active r = map_of data ''active''" by (simp add: reg_active_def data(1))
  ultimately show ?thesis using saved(1,2) act(1) by (simp add: update_conv)
qed

definition marked :: "string \<Rightarrow> string \<Rightarrow> json \<Rightarrow> json" where
  "marked version name body =
     (case body of
        JDict kvs \<Rightarrow> JDict (AList.update ''status'' (JStr (if name = version then ''active'' else ''retired'')) kvs)
      | j \<Rightarrow> j)"

lemma set_status_marked:
  "\<forall>(name, body) \<in> set vs. \<exists>kvs. body = JDict kvs
   \<Longrightarrow> set_status version vs = Inr (map (\<lambda>(name, body). (name, marked version name body)) vs)"
  by (induction version vs rule: set_status.induct) (auto simp: marked_def)

lemma map_of_marked:
  "map_of (map (\<lambda>(name, body). (name, marked version name body)) vs) n = map_option (marked version n) (map_of vs n)"
  by (induction vs) auto

lemma reg_activate_effect:
  assumes "reg_ok r" "rg_writable r" "reg_body r version \<noteq> None"
  shows "\<exists>r'. reg_activate version r = (Inr (), r') \<and> reg_ok r' \<and> rg_writable r'
           \<and> reg_active r' = Some (JStr version)
           \<and> (\<forall>name. reg_body r' name = map_option (json_norm \<circ> marked version name) (reg_body r name))"
proof -
  obtain data vs where data: "reg_load r = Inr data" "the_versions data = JDict vs"
      "\<forall>(name, body) \<in> set vs. \<exists>kvs. body = JDict kvs"
    using assms(1) by (auto simp: reg_ok_def)
  have body: "reg_body r name = map_of vs name" for name by (simp add: reg_body_def data(1,2))
  with assms(3) have known: "version \<in> fst ` set vs" by (simp add: map_of_eq_None_iff)
  let ?vs = "map (\<lambda>(name, body). (name, marked version name body)) vs"
  let ?data = "AList.update ''active'' (JStr version) (AList.update ''versions'' (JDict ?vs) data)"
  have act: "map_of ?data ''active'' = Some (JStr version)" "map_of ?data ''versions'' = Some (JDict ?vs)"
    by (simp_all add: update_conv)
  then have "map_of ?data ''active'' \<noteq> None" by simp
  note saved = saved [OF assms(2) this act(2)]
  have "\<forall>(name, body) \<in> set ?vs. \<exists>kvs. body = JDict kvs"
    using data(3) by (fastforce simp: marked_def)
  with saved(3) have "reg_ok (reg_save ?data r)" by blast
  moreover have "reg_activate version r = (Inr (), reg_save ?data r)"
    by (simp add: reg_activate_def data(1,2) py_in_def known set_status_marked [OF data(3)])
  moreover have "rg_writable (reg_save ?data r)" using assms(2) by (simp add: reg_save_def)
  ultimately show ?thesis
    using saved(1,2) act(1) body by (simp add: map_of_marked option.map_comp)
qed

lemma reg_activate_unknown:
  assumes "reg_ok r" "reg_body r version = None"
  shows "\<exists>m. reg_activate version r = (Inl (KeyError m), r)"
proof -
  obtain data vs where data: "reg_load r = Inr data" "the_versions data = JDict vs"
    using assms(1) by (auto simp: reg_ok_def)
  with assms(2) have "version \<notin> fst ` set vs" by (force simp: reg_body_def map_of_eq_None_iff)
  with data show ?thesis by (simp add: reg_activate_def py_in_def)
qed

section \<open>Properties\<close>

lemma map_of_fold_update:
  "map_of (fold (\<lambda>(k, v). AList.update k v) kvs d) = map_of d ++ map_of (rev kvs)"
  by (induction kvs arbitrary: d) (auto simp: update_conv' map_add_upd_left fun_eq_iff map_add_def split: option.splits)

lemma ix_dump_norm: "json_norm (JDict (ix_dump e)) = JDict (sort_key fst (ix_dump e))"
  by (simp add: ix_dump_def json_opt_def split: option.split)

lemma ix_dump_distinct: "distinct (map fst (sort_key fst (ix_dump e)))"
  by (simp add: ix_dump_def)

text \<open>
  Recording a version and reading it back gives the entry; the other versions keep their
  bodies, up to the order of keys, and the active version stays.
\<close>

theorem registry_record_get:
  assumes "reg_ok r" "rg_writable r"
    and "\<And>d. \<forall>(k, v) \<in> set ((''version'', JStr (ix_version e)) # ix_dump e). map_of d k = Some v
           \<Longrightarrow> validate d = Inr e"
  shows "\<exists>r'. reg_record e r = (Inr (), r') \<and> reg_ok r' \<and> reg_get validate r' (ix_version e) = Inr (Some e)
           \<and> (\<forall>name. name \<noteq> ix_version e \<longrightarrow> reg_body r' name = map_option json_norm (reg_body r name))
           \<and> reg_active r' = map_option json_norm (reg_active r)"
proof -
  obtain r' where r': "reg_record e r = (Inr (), r')" "reg_ok r'"
      "reg_body r' (ix_version e) = Some (json_norm (JDict (ix_dump e)))"
      "\<forall>name. name \<noteq> ix_version e \<longrightarrow> reg_body r' name = map_option json_norm (reg_body r name)"
      "reg_active r' = map_option json_norm (reg_active r)"
    using reg_record_effect [OF assms(1,2), of e] by auto
  obtain data vs where data: "reg_load r' = Inr data" "the_versions data = JDict vs"
    using r'(2) by (auto simp: reg_ok_def)
  with r'(3) have raw: "map_of vs (ix_version e) = Some (JDict (sort_key fst (ix_dump e)))"
    by (simp only: reg_body_def sum.case json.case ix_dump_norm)
  let ?d = "fold (\<lambda>(k, v). AList.update k v) (sort_key fst (ix_dump e)) [(''version'', JStr (ix_version e))]"
  have "map_of (rev (sort_key fst (ix_dump e))) = map_of (sort_key fst (ix_dump e))"
    using ix_dump_distinct [of e] by (simp add: map_of_inject_set rev_map [symmetric])
  then have look: "map_of ?d k = (map_of [(''version'', JStr (ix_version e))] ++ map_of (ix_dump e)) k" for k
    using map_of_sort_key [of "ix_dump e" k] by (simp only: map_of_fold_update map_add_def)
  have "map_of ?d k = Some v" if kv: "(k, v) \<in> set ((''version'', JStr (ix_version e)) # ix_dump e)" for k v
  proof (cases "(k, v) \<in> set (ix_dump e)")
    case True
    have "distinct (map fst (ix_dump e))" by (simp add: ix_dump_def)
    with True have "map_of (ix_dump e) k = Some v" by simp
    then show ?thesis unfolding look by (rule map_add_find_right)
  next
    case False
    with kv have "k = ''version''" "v = JStr (ix_version e)" by auto
    moreover have "map_of (ix_dump e) ''version'' = None" by (simp add: ix_dump_def)
    ultimately show ?thesis unfolding look by (simp add: map_add_def)
  qed
  then have "\<forall>(k, v) \<in> set ((''version'', JStr (ix_version e)) # ix_dump e). map_of ?d k = Some v" by blast
  then have "validate ?d = Inr e" by (rule assms(3))
  moreover have "set (sort_key fst (ix_dump e)) \<noteq> {}" by (simp add: ix_dump_def del: sort_key_simps)
  then have "sort_key fst (ix_dump e) \<noteq> []" by fastforce
  ultimately have "reg_get validate r' (ix_version e) = Inr (Some e)"
    by (simp add: reg_get_def data raw validated_def)
  with r' show ?thesis by blast
qed

text \<open>
  activating a recorded version makes it the one active version: every other version is
  retired and none is added or lost. An unknown version is a KeyError that changes nothing.
\<close>

theorem registry_activate_exclusive:
  assumes "reg_ok r" "rg_writable r"
  shows "if reg_body r version = None then \<exists>m. reg_activate version r = (Inl (KeyError m), r)
         else \<exists>r'. reg_activate version r = (Inr (), r') \<and> reg_ok r'
           \<and> active_version frepr r' = Inr (if version = [] then None else Some version)
           \<and> (\<forall>name. reg_body r' name = None \<longleftrightarrow> reg_body r name = None)
           \<and> (\<forall>name body. reg_body r' name = Some body \<longrightarrow>
                body_field ''status'' body = Some (JStr (if name = version then ''active'' else ''retired'')))"
proof (cases "reg_body r version = None")
  case True
  with reg_activate_unknown [OF assms(1)] show ?thesis by simp
next
  case False
  obtain r' where r': "reg_activate version r = (Inr (), r')" "reg_ok r'" "reg_active r' = Some (JStr version)"
      "\<And>name. reg_body r' name = map_option (json_norm \<circ> marked version name) (reg_body r name)"
    using reg_activate_effect [OF assms False] by auto
  have "active_version frepr r' = Inr (if version = [] then None else Some version)"
    using r'(2,3) by (auto simp: active_version_def reg_active_def reg_ok_def)
  moreover have "body_field ''status'' body = Some (JStr (if name = version then ''active'' else ''retired''))"
    if body: "reg_body r' name = Some body" for name body
  proof -
    obtain old where old: "reg_body r name = Some old" "body = json_norm (marked version name old)"
      using body r'(4) [of name] by (cases "reg_body r name") auto
    obtain data vs where data: "reg_load r = Inr data" "the_versions data = JDict vs"
        "\<forall>(name, body) \<in> set vs. \<exists>kvs. body = JDict kvs" using assms(1) by (auto simp: reg_ok_def)
    then obtain kvs where "old = JDict kvs"
      using old(1) by (fastforce simp: reg_body_def dest: map_of_SomeD)
    with old(2) show ?thesis by (simp add: body_field_norm) (simp add: marked_def body_field_def update_conv')
  qed
  ultimately show ?thesis using False r'(1,2,4) by auto
qed

definition example_entry :: index_version where
  "example_entry =
     \<lparr>ix_version = ''v2'', ix_collection = ''docs__v2'', ix_alias = ''docs_live'', ix_status = ''built'',
      ix_created_at = ''2026-01-01'', ix_chunk_count = 3, ix_embedding_model = Some ''hash-64'',
      ix_chunker_version = Some ''1.0''\<rparr>"

definition example_registry :: index_registry where
  "example_registry =
     \<lparr>rg_file = Some (Inr (JDict [(''active'', JStr ''v1''),
        (''versions'', JDict [(''v1'', JDict [(''status'', JStr ''active'')]), (''v2'', JDict [(''status'', JStr ''built'')])])])),
      rg_writable = True\<rparr>"

lemma example_registry_ok: "reg_ok example_registry"
  by (simp add: reg_ok_def reg_load_def example_registry_def with_defaults_def setdefault_def the_versions_def)

text \<open>A \<open>validate\<close> that reads the fields the entry has.\<close>

definition example_validate :: "json_dict \<Rightarrow> index_version result" where
  "example_validate d =
     (if list_all (\<lambda>(k, v). map_of d k = Some v) ((''version'', JStr ''v2'') # ix_dump example_entry)
      then Inr example_entry else Inl (ValueError ''validation error''))"

lemma registry_record_get_witness:
  "\<exists>r'. reg_record example_entry example_registry = (Inr (), r')
     \<and> reg_get example_validate r' ''v2'' = Inr (Some example_entry)"
proof -
  have "example_validate d = Inr example_entry"
    if "\<forall>(k, v) \<in> set ((''version'', JStr (ix_version example_entry)) # ix_dump example_entry). map_of d k = Some v" for d
    using that by (simp add: example_validate_def list_all_iff example_entry_def)
  moreover have "ix_version example_entry = ''v2''" by (simp add: example_entry_def)
  ultimately show ?thesis
    using registry_record_get [OF example_registry_ok, of example_entry example_validate]
    by (auto simp: example_registry_def)
qed

lemma registry_activate_exclusive_witness:
  "\<exists>r'. reg_activate ''v2'' example_registry = (Inr (), r')
     \<and> active_version (\<lambda>x. []) r' = Inr (Some ''v2'')
     \<and> (\<forall>body. reg_body r' ''v1'' = Some body \<longrightarrow> body_field ''status'' body = Some (JStr ''retired''))"
proof -
  have "reg_body example_registry ''v2'' \<noteq> None"
    by (simp add: reg_body_def reg_load_def example_registry_def with_defaults_def setdefault_def the_versions_def)
  moreover have "rg_writable example_registry" by (simp add: example_registry_def)
  ultimately show ?thesis
    using registry_activate_exclusive [OF example_registry_ok, of "''v2''" "\<lambda>x. []"] by auto
qed

end
