(* ===== verification/Offline.thy ===== *)
theory Offline
  imports Calls Ingest Index_Registry Chunking Bm25 Config Query
begin

text \<open>
  \<open>src/rag/pipelines/offline.py\<close>: ingest, parse, chunk, embed, index, publish. A call takes the
  state and returns a value or an exception together with the state it leaves, so that what a
  failing run has already written is part of the model. The stores are arguments: \<open>index_writer\<close>
  states what the pipeline relies on about aliases, and the in-memory stores interpret it.
\<close>

section \<open>The pipeline\<close>

record ('v, 'l) offline =
  of_upsert :: "chunk list \<Rightarrow> real list list \<Rightarrow> ('v, unit) call"
  of_set_alias :: "string \<Rightarrow> string \<Rightarrow> ('v, unit) call"
  of_index :: "chunk list \<Rightarrow> ('l, unit) call"
  of_embed :: "string list \<Rightarrow> real list list result"
  of_model_name :: string
  of_settings :: settings
  of_chunking :: "chunking_cfg result"
  of_chunkers :: chunkers
  of_parsers :: parsers
  of_connect :: "path \<Rightarrow> connector"
  of_now :: string

record ('v, 'l) offline_state =
  os_vectors :: 'v
  os_lexical :: 'l
  os_registry :: index_registry

text \<open>A call on one part of the state.\<close>

definition on_vectors :: "('v, 'a) call \<Rightarrow> (('v, 'l) offline_state, 'a) call" where
  "on_vectors m st = (let (r, v) = m (os_vectors st) in (r, st\<lparr>os_vectors := v\<rparr>))"

definition on_lexical :: "('l, 'a) call \<Rightarrow> (('v, 'l) offline_state, 'a) call" where
  "on_lexical m st = (let (r, l) = m (os_lexical st) in (r, st\<lparr>os_lexical := l\<rparr>))"

definition on_registry :: "(index_registry, 'a) call \<Rightarrow> (('v, 'l) offline_state, 'a) call" where
  "on_registry m st = (let (r, g) = m (os_registry st) in (r, st\<lparr>os_registry := g\<rparr>))"

definition ingest :: "('v, 'l) offline \<Rightarrow> connector \<Rightarrow> acl_tags option \<Rightarrow> document list result" where
  "ingest op conn acl = map_result (\<lambda>uri. snd conn uri acl) (fst conn)"

text \<open>\<open>except (KeyError, ValueError)\<close>.\<close>

fun skippable :: "py_exn \<Rightarrow> bool" where
  "skippable (KeyError m) = True"
| "skippable (ValueError m) = True"
| "skippable e = False"

definition redacted :: "settings \<Rightarrow> document \<Rightarrow> document" where
  "redacted s d =
     (case d_text d of
        None \<Rightarrow> d
      | Some t \<Rightarrow> if t \<noteq> [] \<and> se_pii_redaction_enabled s then d\<lparr>d_text := Some (redact_pii t)\<rparr> else d)"

fun parse_stage :: "('v, 'l) offline \<Rightarrow> document list \<Rightarrow> document list result" where
  "parse_stage op [] = Inr []"
| "parse_stage op (d # ds) =
     (case parse_document (of_parsers op) d of
        Inl e \<Rightarrow> if skippable e then parse_stage op ds else Inl e
      | Inr p \<Rightarrow> bind_result (parse_stage op ds) (\<lambda>ps. Inr (redacted (of_settings op) p # ps)))"

definition chunk_stage :: "('v, 'l) offline \<Rightarrow> chunking_cfg \<Rightarrow> string \<Rightarrow> document list \<Rightarrow> chunk list result" where
  "chunk_stage op cfg version ds =
     bind_result (map_result (\<lambda>d. chunk_document (of_chunkers op) cfg d version) ds) (\<lambda>css. Inr (concat css))"

definition stamp_model :: "('v, 'l) offline \<Rightarrow> chunk \<Rightarrow> chunk" where
  "stamp_model op c = c\<lparr>ch_embedding_model := Some (of_model_name op)\<rparr>"

definition embed_and_index :: "('v, 'l) offline \<Rightarrow> chunk list \<Rightarrow> (('v, 'l) offline_state, chunk list) call" where
  "embed_and_index op chunks =
     (let stamped = map (stamp_model op) chunks in
      and_then (return (of_embed op (map ch_text stamped))) (\<lambda>vectors.
      and_then (on_vectors (of_upsert op stamped vectors)) (\<lambda>_.
      and_then (on_lexical (of_index op stamped)) (\<lambda>_.
      return (Inr stamped)))))"

definition run_version :: "('v, 'l) offline \<Rightarrow> string option \<Rightarrow> string" where
  "run_version op iv = (case iv of None \<Rightarrow> se_index_version (of_settings op) | Some v \<Rightarrow> str_or v (se_index_version (of_settings op)))"

definition registry_entry :: "('v, 'l) offline \<Rightarrow> string \<Rightarrow> string \<Rightarrow> int \<Rightarrow> string option \<Rightarrow> index_version" where
  "registry_entry op version status n chunker_version =
     \<lparr>ix_version = version, ix_collection = collection_for (of_settings op) (Some version),
      ix_alias = se_collection_alias (of_settings op), ix_status = status, ix_created_at = of_now op,
      ix_chunk_count = n, ix_embedding_model = Some (of_model_name op), ix_chunker_version = chunker_version\<rparr>"

text \<open>\<open>activate\<close>: the alias first, then the registry; a version the registry lacks is only logged.\<close>

definition registry_activate :: "string \<Rightarrow> (index_registry, unit) call" where
  "registry_activate version r =
     (case reg_activate version r of (Inl (KeyError m), r') \<Rightarrow> (Inr (), r') | x \<Rightarrow> x)"

definition offline_activate :: "('v, 'l) offline \<Rightarrow> string \<Rightarrow> (('v, 'l) offline_state, unit) call" where
  "offline_activate op version =
     and_then (on_vectors (of_set_alias op (se_collection_alias (of_settings op)) version)) (\<lambda>_.
     on_registry (registry_activate version))"

text \<open>\<open>run\<close> up to the point where the new version is recorded as built.\<close>

definition offline_build ::
    "('v, 'l) offline \<Rightarrow> path \<Rightarrow> string \<Rightarrow> acl_tags option \<Rightarrow> (('v, 'l) offline_state, chunk list) call" where
  "offline_build op source version acl =
     and_then (return (of_chunking op)) (\<lambda>cfg.
     and_then (on_registry (reg_record (registry_entry op version ''building'' 0 None))) (\<lambda>_.
     and_then (return (ingest op (of_connect op source) acl)) (\<lambda>docs.
     and_then (return (parse_stage op docs)) (\<lambda>parsed.
     and_then (return (chunk_stage op cfg version parsed)) (\<lambda>all_chunks.
     and_then (if all_chunks = [] then return (Inr []) else embed_and_index op all_chunks) (\<lambda>all_chunks.
     and_then (on_registry (reg_record (registry_entry op version ''built'' (int (length all_chunks))
         (Some (case cg_chunker_version cfg of None \<Rightarrow> ''1.0'' | Some v \<Rightarrow> v))))) (\<lambda>_.
     return (Inr all_chunks))))))))"

definition offline_run ::
    "('v, 'l) offline \<Rightarrow> path \<Rightarrow> string option \<Rightarrow> acl_tags option \<Rightarrow> bool \<Rightarrow> (('v, 'l) offline_state, chunk list) call" where
  "offline_run op source iv acl activate =
     (let version = run_version op iv in
      and_then (offline_build op source version acl) (\<lambda>all_chunks.
      and_then (if activate \<and> all_chunks \<noteq> [] then offline_activate op version else return (Inr ())) (\<lambda>_.
      return (Inr all_chunks))))"

section \<open>The jobs\<close>

definition reindex ::
    "('v, 'l) offline \<Rightarrow> path \<Rightarrow> string \<Rightarrow> bool \<Rightarrow> acl_tags option \<Rightarrow> (('v, 'l) offline_state, nat) call" where
  "reindex op source iv activate acl =
     and_then (offline_run op source (Some iv) acl activate) (\<lambda>chunks. return (Inr (length chunks)))"

definition show_opt :: "string option \<Rightarrow> string" where
  "show_opt x = (case x of None \<Rightarrow> ''None'' | Some s \<Rightarrow> s)"

definition job_list_versions ::
    "(real \<Rightarrow> string) \<Rightarrow> (json_dict \<Rightarrow> index_version result) \<Rightarrow> index_registry \<Rightarrow> string list result" where
  "job_list_versions frepr validate r =
     bind_result (active_version frepr r) (\<lambda>active.
     bind_result (list_versions validate r) (\<lambda>vs.
     Inr (map (\<lambda>v. ix_version v @ [CHR 0x09] @ ix_status v @ [CHR 0x09] @ ''chunks='' @ show_int (ix_chunk_count v)
            @ [CHR 0x09] @ ''embedding='' @ show_opt (ix_embedding_model v)
            @ (if Some (ix_version v) = active then '' (active)'' else [])) vs)))"

section \<open>The in-memory stores\<close>

definition mem_upsert :: "chunk list \<Rightarrow> real list list \<Rightarrow> (vector_store, unit) call" where
  "mem_upsert chunks vectors st =
     (case vs_upsert chunks vectors st of Inl e \<Rightarrow> (Inl e, st) | Inr st' \<Rightarrow> (Inr (), st'))"

definition mem_set_alias :: "string \<Rightarrow> string \<Rightarrow> (vector_store, unit) call" where
  "mem_set_alias a v st = (Inr (), vs_set_alias a v st)"

definition mem_index :: "chunk list \<Rightarrow> (bm25, unit) call" where
  "mem_index chunks st = (case bm_upsert chunks st of Inl e \<Rightarrow> (Inl e, st) | Inr st' \<Rightarrow> (Inr (), st'))"

definition in_memory_offline :: "('a, 'b) offline \<Rightarrow> (vector_store, bm25) offline" where
  "in_memory_offline op =
     \<lparr>of_upsert = mem_upsert, of_set_alias = mem_set_alias, of_index = mem_index, of_embed = of_embed op,
      of_model_name = of_model_name op, of_settings = of_settings op, of_chunking = of_chunking op,
      of_chunkers = of_chunkers op, of_parsers = of_parsers op, of_connect = of_connect op, of_now = of_now op\<rparr>"

section \<open>What the pipeline relies on of its stores\<close>

lemma on_vectors_eq: "on_vectors m st = (r, st') \<longleftrightarrow> (\<exists>v. m (os_vectors st) = (r, v) \<and> st' = st\<lparr>os_vectors := v\<rparr>)"
  by (auto simp: on_vectors_def split: prod.splits)

lemma on_lexical_eq: "on_lexical m st = (r, st') \<longleftrightarrow> (\<exists>l. m (os_lexical st) = (r, l) \<and> st' = st\<lparr>os_lexical := l\<rparr>)"
  by (auto simp: on_lexical_def split: prod.splits)

lemma on_registry_eq: "on_registry m st = (r, st') \<longleftrightarrow> (\<exists>g. m (os_registry st) = (r, g) \<and> st' = st\<lparr>os_registry := g\<rparr>)"
  by (auto simp: on_registry_def split: prod.splits)

lemmas call_eqs = and_then_eq on_vectors_eq on_lexical_eq on_registry_eq

text \<open>Both stores keep what they hold and only \<open>set_alias\<close> moves an alias.\<close>

locale index_writer =
  fixes upsert :: "chunk list \<Rightarrow> real list list \<Rightarrow> ('v, unit) call"
    and set_alias :: "string \<Rightarrow> string \<Rightarrow> ('v, unit) call"
    and resolve :: "'v \<Rightarrow> string \<Rightarrow> string option"
    and vholds :: "'v \<Rightarrow> string set" and vinv :: "'v \<Rightarrow> bool"
    and index :: "chunk list \<Rightarrow> ('l, unit) call"
    and lholds :: "'l \<Rightarrow> string set" and linv :: "'l \<Rightarrow> bool"
  assumes upsert_writes: "vinv v \<Longrightarrow> upsert cs vs v = (r, v') \<Longrightarrow> vinv v' \<and> resolve v' = resolve v
        \<and> (r = Inr () \<longrightarrow> ch_chunk_id ` set cs \<subseteq> vholds v')"
    and alias_moves: "vinv v \<Longrightarrow> set_alias a x v = (r, v') \<Longrightarrow> vinv v'
        \<and> (if r = Inr () then vholds v' = vholds v \<and> resolve v' = (resolve v)(a \<mapsto> x) else resolve v' = resolve v)"
    and index_writes: "linv l \<Longrightarrow> index cs l = (r, l') \<Longrightarrow> linv l'
        \<and> (r = Inr () \<longrightarrow> ch_chunk_id ` set cs \<subseteq> lholds l')"
begin

definition writes :: "('v, 'l) offline \<Rightarrow> bool" where
  "writes op \<longleftrightarrow> of_upsert op = upsert \<and> of_set_alias op = set_alias \<and> of_index op = index"

definition sound :: "('v, 'l) offline_state \<Rightarrow> bool" where
  "sound st \<longleftrightarrow> vinv (os_vectors st) \<and> linv (os_lexical st)"

definition complete :: "chunk list \<Rightarrow> ('v, 'l) offline_state \<Rightarrow> bool" where
  "complete cs st \<longleftrightarrow> ch_chunk_id ` set cs \<subseteq> vholds (os_vectors st) \<and> ch_chunk_id ` set cs \<subseteq> lholds (os_lexical st)"

text \<open>\<open>still R\<close>: the invariants hold and the aliases are \<open>R\<close>.\<close>

definition still :: "(string \<Rightarrow> string option) \<Rightarrow> ('v, 'l) offline_state \<Rightarrow> bool" where
  "still R st \<longleftrightarrow> sound st \<and> resolve (os_vectors st) = R"

lemma registry_still: "valid (still R) (on_registry m) (\<lambda>_. still R) (still R)"
  by (rule validI) (auto simp: on_registry_eq still_def sound_def)

lemma registry_complete:
  "valid (\<lambda>st. still R st \<and> complete cs st) (on_registry m) (\<lambda>_ st. still R st \<and> complete cs st) (still R)"
  by (rule validI) (auto simp: on_registry_eq still_def sound_def complete_def)

lemma upsert_still:
  "valid (still R) (on_vectors (upsert cs vs)) (\<lambda>_ st. still R st \<and> ch_chunk_id ` set cs \<subseteq> vholds (os_vectors st)) (still R)"
proof (rule validI)
  fix st x st' assume st: "still R st" "on_vectors (upsert cs vs) st = (Inr x, st')"
  then obtain v where v: "upsert cs vs (os_vectors st) = (Inr x, v)" "st' = st\<lparr>os_vectors := v\<rparr>"
    unfolding on_vectors_eq by blast
  with st(1) upsert_writes [OF _ v(1)] show "still R st' \<and> ch_chunk_id ` set cs \<subseteq> vholds (os_vectors st')"
    by (simp add: still_def sound_def)
next
  fix st e st' assume st: "still R st" "on_vectors (upsert cs vs) st = (Inl e, st')"
  then obtain v where v: "upsert cs vs (os_vectors st) = (Inl e, v)" "st' = st\<lparr>os_vectors := v\<rparr>"
    unfolding on_vectors_eq by blast
  with st(1) upsert_writes [OF _ v(1)] show "still R st'"
    by (simp add: still_def sound_def)
qed

lemma index_still:
  "valid (\<lambda>st. still R st \<and> ch_chunk_id ` set cs \<subseteq> vholds (os_vectors st)) (on_lexical (index cs))
     (\<lambda>_ st. still R st \<and> complete cs st) (still R)"
proof (rule validI)
  fix st x st'
  assume st: "still R st \<and> ch_chunk_id ` set cs \<subseteq> vholds (os_vectors st)" "on_lexical (index cs) st = (Inr x, st')"
  then obtain l where l: "index cs (os_lexical st) = (Inr x, l)" "st' = st\<lparr>os_lexical := l\<rparr>"
    unfolding on_lexical_eq by blast
  with st(1) index_writes [OF _ l(1)] show "still R st' \<and> complete cs st'"
    by (simp add: still_def sound_def complete_def)
next
  fix st e st'
  assume st: "still R st \<and> ch_chunk_id ` set cs \<subseteq> vholds (os_vectors st)" "on_lexical (index cs) st = (Inl e, st')"
  then obtain l where l: "index cs (os_lexical st) = (Inl e, l)" "st' = st\<lparr>os_lexical := l\<rparr>"
    unfolding on_lexical_eq by blast
  with st(1) index_writes [OF _ l(1)] show "still R st'"
    by (simp add: still_def sound_def)
qed

lemma embed_and_index_still:
  assumes "writes op"
  shows "valid (still R) (embed_and_index op cs) (\<lambda>cs' st. still R st \<and> complete cs' st) (still R)"
proof -
  let ?cs = "map (stamp_model op) cs"
  have "valid (\<lambda>st. still R st \<and> complete ?cs st) (return (Inr ?cs)) (\<lambda>cs' st. still R st \<and> complete cs' st) (still R)"
    by (rule valid_return) auto
  note finish = valid_seq [OF index_still this]
  note dense = valid_seq [OF upsert_still finish]
  have "valid (still R) (return (of_embed op (map ch_text ?cs))) (\<lambda>_. still R) (still R)"
    by (rule valid_return) auto
  from valid_seq [OF this dense] assms show ?thesis
    by (simp add: embed_and_index_def Let_def writes_def)
qed

lemma return_still: "valid (still R) (return r) (\<lambda>_. still R) (still R)"
  by (rule valid_return) auto

text \<open>Building moves no alias; when it succeeds, both stores hold every chunk.\<close>

lemma build_still:
  assumes "writes op"
  shows "valid (still R) (offline_build op source version acl) (\<lambda>cs st. still R st \<and> complete cs st) (still R)"
proof -
  have stage: "valid (still R) (if cs = [] then return (Inr []) else embed_and_index op cs)
      (\<lambda>cs' st. still R st \<and> complete cs' st) (still R)" for cs
  proof (cases "cs = []")
    case True
    have "valid (still R) (return (Inr [])) (\<lambda>cs' st. still R st \<and> complete cs' st) (still R)"
      by (rule valid_return) (auto simp: complete_def)
    with True show ?thesis by simp
  qed (simp add: embed_and_index_still [OF assms])
  have "valid (\<lambda>st. still R st \<and> complete cs st) (return (Inr cs)) (\<lambda>cs' st. still R st \<and> complete cs' st) (still R)" for cs
    by (rule valid_return) auto
  note finish = valid_seq [OF stage valid_seq [OF registry_complete this]]
  show ?thesis
    unfolding offline_build_def
    by (intro valid_seq [OF return_still] valid_seq [OF registry_still] finish)
qed

text \<open>Activation moves the one alias and nothing else.\<close>

definition moved :: "(string \<Rightarrow> string option) \<Rightarrow> ('v, 'l) offline \<Rightarrow> string \<Rightarrow> string \<Rightarrow> string option" where
  "moved R op version = R(se_collection_alias (of_settings op) \<mapsto> version)"

lemma activate_moves:
  assumes "writes op"
  shows "valid (\<lambda>st. still R st \<and> complete cs st) (offline_activate op version)
     (\<lambda>_ st. still (moved R op version) st \<and> complete cs st)
     (\<lambda>st. still R st \<or> still (moved R op version) st \<and> complete cs st)"
proof -
  have flip: "valid (\<lambda>st. still R st \<and> complete cs st)
      (on_vectors (of_set_alias op (se_collection_alias (of_settings op)) version))
      (\<lambda>_ st. still (moved R op version) st \<and> complete cs st)
      (\<lambda>st. still R st \<or> still (moved R op version) st \<and> complete cs st)"
  proof (rule validI)
    fix st x st'
    assume st: "still R st \<and> complete cs st"
      "on_vectors (of_set_alias op (se_collection_alias (of_settings op)) version) st = (Inr x, st')"
    then obtain v where v: "set_alias (se_collection_alias (of_settings op)) version (os_vectors st) = (Inr x, v)"
        "st' = st\<lparr>os_vectors := v\<rparr>"
      using assms unfolding on_vectors_eq writes_def by auto
    with st(1) alias_moves [OF _ v(1)] show "still (moved R op version) st' \<and> complete cs st'"
      by (simp add: still_def sound_def complete_def moved_def)
  next
    fix st e st'
    assume st: "still R st \<and> complete cs st"
      "on_vectors (of_set_alias op (se_collection_alias (of_settings op)) version) st = (Inl e, st')"
    then obtain v where v: "set_alias (se_collection_alias (of_settings op)) version (os_vectors st) = (Inl e, v)"
        "st' = st\<lparr>os_vectors := v\<rparr>"
      using assms unfolding on_vectors_eq writes_def by auto
    with st(1) alias_moves [OF _ v(1)] show "still R st' \<or> still (moved R op version) st' \<and> complete cs st'"
      by (simp add: still_def sound_def)
  qed
  have "valid (\<lambda>st. still (moved R op version) st \<and> complete cs st) (on_registry (registry_activate version))
      (\<lambda>_ st. still (moved R op version) st \<and> complete cs st)
      (\<lambda>st. still R st \<or> still (moved R op version) st \<and> complete cs st)"
    by (rule validI) (auto simp: on_registry_eq still_def sound_def complete_def)
  with flip show ?thesis
    unfolding offline_activate_def by (rule valid_seq)
qed

text \<open>
  A run leaves the aliases as they were, or it moved the one alias to its version and both stores
  hold every chunk it built; in the end it has moved it whenever it was asked to and built something.
\<close>

lemma run_swaps:
  assumes "writes op"
  shows "valid (still R) (offline_run op source iv acl activate)
     (\<lambda>cs st. still (if activate \<and> cs \<noteq> [] then moved R op (run_version op iv) else R) st \<and> complete cs st)
     (\<lambda>st. still R st \<or> activate \<and> still (moved R op (run_version op iv)) st
        \<and> (\<exists>cs. cs \<noteq> [] \<and> complete cs st))"
proof -
  let ?E = "\<lambda>st. still R st \<or> activate \<and> still (moved R op (run_version op iv)) st \<and> (\<exists>cs. cs \<noteq> [] \<and> complete cs st)"
  let ?Q = "\<lambda>cs st. still (if activate \<and> cs \<noteq> [] then moved R op (run_version op iv) else R) st \<and> complete cs st"
  have publish: "valid (\<lambda>st. still R st \<and> complete cs st)
      (if activate \<and> cs \<noteq> [] then offline_activate op (run_version op iv) else return (Inr ())) (\<lambda>_. ?Q cs) ?E" for cs
  proof (cases "activate \<and> cs \<noteq> []")
    case True
    have "valid (\<lambda>st. still R st \<and> complete cs st) (offline_activate op (run_version op iv)) (\<lambda>_. ?Q cs) ?E"
      by (rule valid_conseq [OF activate_moves [OF assms]]) (use True in auto)
    with True show ?thesis by simp
  next
    case False
    have "valid (\<lambda>st. still R st \<and> complete cs st) (return (Inr ())) (\<lambda>_. ?Q cs) ?E"
      by (rule valid_return) (use False in auto)
    with False show ?thesis by (simp only: if_False)
  qed
  have finish: "valid (?Q cs) (return (Inr cs)) ?Q ?E" for cs
    by (rule valid_return) (simp, metis)
  have build: "valid (still R) (offline_build op source (run_version op iv) acl)
      (\<lambda>cs st. still R st \<and> complete cs st) ?E"
    by (rule valid_conseq [OF build_still [OF assms]]) auto
  show ?thesis
    unfolding offline_run_def Let_def
    by (intro valid_seq [OF build] valid_seq [OF publish] finish)
qed

end

section \<open>The in-memory stores keep the contract\<close>

definition vs_ids :: "vector_store \<Rightarrow> string set" where
  "vs_ids st = fst ` set (vs_items st)"

definition bm_ids :: "bm25 \<Rightarrow> string set" where
  "bm_ids st = fst ` set (bm_chunks st)"

lemma keys_update: "fst ` set (AList.update k v d) = insert k (fst ` set d)"
  by (induction d) auto

lemma keys_vs_fold:
  "fst ` set (fold (\<lambda>(ch, v). AList.update (ch_chunk_id ch) (ch, v)) ps d) = fst ` set d \<union> ch_chunk_id ` fst ` set ps"
proof (induction ps arbitrary: d)
  case (Cons p ps)
  then show ?case by (cases p) (simp add: keys_update)
qed simp

lemma keys_bm_fold:
  "fst ` set (fold (\<lambda>ch. AList.update (ch_chunk_id ch) ch) chs d) = fst ` set d \<union> ch_chunk_id ` set chs"
  by (induction chs arbitrary: d) (auto simp: keys_update)

lemma mem_upsert_writes:
  assumes "vs_inv v" "mem_upsert cs vs v = (r, v')"
  shows "vs_inv v' \<and> vs_resolve_alias a v' = vs_resolve_alias a v \<and> (r = Inr () \<longrightarrow> ch_chunk_id ` set cs \<subseteq> vs_ids v')"
proof (cases "vs_upsert cs vs v")
  case (Inl e)
  with assms show ?thesis by (auto simp: mem_upsert_def)
next
  case (Inr v1)
  with assms(2) have v': "v' = v1" by (simp add: mem_upsert_def)
  have items: "length cs = length vs"
      "v1 = v\<lparr>vs_items := fold (\<lambda>(ch, v). AList.update (ch_chunk_id ch) (ch, v)) (zip cs vs) (vs_items v)\<rparr>"
    using Inr by (auto simp: vs_upsert_def split: if_splits)
  then have "vs_ids v1 = vs_ids v \<union> ch_chunk_id ` set cs"
    using keys_vs_fold [of "zip cs vs" "vs_items v"] set_map [of fst "zip cs vs"] by (simp add: vs_ids_def)
  moreover have "vs_resolve_alias a v1 = vs_resolve_alias a v"
    by (simp add: items(2) vs_resolve_alias_def)
  ultimately show ?thesis
    using vs_upsert_inv [OF assms(1) Inr] v' by auto
qed

lemma mem_index_writes:
  assumes "bm_inv l" "mem_index cs l = (r, l')"
  shows "bm_inv l' \<and> r = Inr () \<and> ch_chunk_id ` set cs \<subseteq> bm_ids l'"
proof -
  obtain l1 where l1: "bm_upsert cs l = Inr l1" "bm_inv l1"
      "bm_chunks l1 = fold (\<lambda>ch. AList.update (ch_chunk_id ch) ch) cs (bm_chunks l)"
    using bm_apply_inv [OF assms(1), of "Bm_Upsert cs"] by auto
  with assms(2) keys_bm_fold [of cs "bm_chunks l"] show ?thesis
    by (auto simp: mem_index_def bm_ids_def)
qed

lemma mem_set_alias_moves:
  "vs_inv v \<Longrightarrow> mem_set_alias a x v = (r, v')
   \<Longrightarrow> vs_inv v' \<and> r = Inr () \<and> vs_ids v' = vs_ids v
     \<and> (\<lambda>b. vs_resolve_alias b v') = (\<lambda>b. vs_resolve_alias b v)(a \<mapsto> x)"
  by (auto simp: mem_set_alias_def vs_set_alias_def vs_inv_def vs_ids_def vs_resolve_alias_def update_conv')

interpretation mem: index_writer mem_upsert mem_set_alias "\<lambda>v a. vs_resolve_alias a v" vs_ids vs_inv
    mem_index bm_ids bm_inv
proof (unfold_locales, goal_cases)
  case (1 v cs vs r v')
  then show ?case using mem_upsert_writes by blast
next
  case (2 v a x r v')
  then show ?case using mem_set_alias_moves [OF 2] by auto
next
  case (3 l cs r l')
  then show ?case using mem_index_writes [OF 3] by blast
qed

lemma in_memory_writes: "mem.writes (in_memory_offline op)"
  by (simp add: mem.writes_def in_memory_offline_def)

lemma in_memory_offline_simps [simp]:
  "of_settings (in_memory_offline op) = of_settings op" "of_chunkers (in_memory_offline op) = of_chunkers op"
  "of_parsers (in_memory_offline op) = of_parsers op" "of_connect (in_memory_offline op) = of_connect op"
  "of_model_name (in_memory_offline op) = of_model_name op" "of_upsert (in_memory_offline op) = mem_upsert"
  "of_index (in_memory_offline op) = mem_index" "of_set_alias (in_memory_offline op) = mem_set_alias"
  by (simp_all add: in_memory_offline_def)

section \<open>What a run makes of the files\<close>

lemma embed_and_index_value: "embed_and_index op cs st = (Inr cs', st') \<Longrightarrow> cs' = map (stamp_model op) cs"
  by (auto simp: embed_and_index_def Let_def elim!: and_then_InrE)

lemma build_value:
  assumes "offline_build op source version acl st = (Inr cs, st')"
  shows "\<exists>cfg docs parsed chunks. of_chunking op = Inr cfg \<and> ingest op (of_connect op source) acl = Inr docs
    \<and> parse_stage op docs = Inr parsed \<and> chunk_stage op cfg version parsed = Inr chunks
    \<and> cs = map (stamp_model op) chunks"
  using assms unfolding offline_build_def
  by (auto elim!: and_then_InrE dest!: embed_and_index_value split: if_splits)

lemma run_value:
  "offline_run op source iv acl activate st = (Inr cs, st')
   \<Longrightarrow> \<exists>st1. offline_build op source (run_version op iv) acl st = (Inr cs, st1)"
  unfolding offline_run_def Let_def by (auto elim!: and_then_InrE)

lemma with_meta_simps [simp]:
  "d_acl (with_meta kvs d) = d_acl d" "d_doc_id (with_meta kvs d) = d_doc_id d"
  by (simp_all add: with_meta_def)

lemma parse_keeps:
  "parse_document (default_parsers rd) d = Inr p \<Longrightarrow> d_acl p = d_acl d \<and> d_doc_id p = d_doc_id d"
  by (auto simp: parse_document_def get_parser_def default_parsers_def parse_text_def parse_markdown_def
      parse_html_def parse_pdf_def no_text_def Let_def split: if_splits option.splits)

lemma redacted_simps [simp]: "d_acl (redacted s d) = d_acl d" "d_doc_id (redacted s d) = d_doc_id d"
  by (simp_all add: redacted_def split: option.split)

lemma parse_stage_from:
  assumes "of_parsers op = default_parsers rd" "parse_stage op ds = Inr ps" "p \<in> set ps"
  shows "\<exists>d \<in> set ds. d_acl p = d_acl d \<and> d_doc_id p = d_doc_id d"
  using assms(2,3)
proof (induction ds arbitrary: ps)
  case (Cons d ds)
  show ?case
  proof (cases "parse_document (of_parsers op) d")
    case (Inl e)
    with Cons.prems(1) have "parse_stage op ds = Inr ps" by (simp split: if_splits)
    from Cons.IH [OF this Cons.prems(2)] show ?thesis by auto
  next
    case (Inr q)
    with Cons.prems(1) obtain qs where qs: "parse_stage op ds = Inr qs" "ps = redacted (of_settings op) q # qs"
      by auto
    have "d_acl q = d_acl d \<and> d_doc_id q = d_doc_id d" using parse_keeps Inr assms(1) by simp
    with Cons.IH [OF qs(1)] qs(2) Cons.prems(2) show ?thesis by auto
  qed
qed simp

lemma fetch_facts:
  "fetch rd fs uri acl = Inr d \<Longrightarrow> d_acl d = (case acl of None \<Rightarrow> DEFAULT_ACL | Some a \<Rightarrow> a)
     \<and> (\<exists>p \<in> fst ` set fs. d_doc_id d = path_stem p)"
  by (auto simp: fetch_def Let_def split: option.splits dest!: map_of_SomeD)
    (metis fst_conv image_eqI)+

lemma chunk_stage_from:
  assumes "deployed_chunkers sha (of_chunkers op)" "chunk_stage op cfg version ds = Inr cs" "c \<in> set cs"
  shows "\<exists>d \<in> set ds. ch_acl c = d_acl d \<and> ch_doc_id c = d_doc_id d \<and> ch_index_version c = version
           \<and> ch_chunk_id c = derive_chunk_id sha (d_doc_id d) (ch_ordinal c) ''1.0'' version"
proof -
  obtain css where css: "map_result (\<lambda>d. chunk_document (of_chunkers op) cfg d version) ds = Inr css" "cs = concat css"
    using assms(2) by (auto simp: chunk_stage_def)
  then obtain one where "one \<in> set css" "c \<in> set one" using assms(3) by auto
  with map_result_in [OF css(1)] obtain d where "d \<in> set ds" "chunk_document (of_chunkers op) cfg d version = Inr one"
    by blast
  with chunk_document_stamps(1) [OF assms(1)] \<open>c \<in> set one\<close> show ?thesis
    by (fastforce simp: stamped_chunks_def cut_from_def)
qed

text \<open>A run writes the chunks of its own version only.\<close>

definition own_chunk :: "(string \<Rightarrow> string) \<Rightarrow> string \<Rightarrow> chunk \<Rightarrow> bool" where
  "own_chunk sha version c \<longleftrightarrow> ch_index_version c = version
     \<and> (\<exists>doc n. ch_chunk_id c = derive_chunk_id sha doc n ''1.0'' version)"

text \<open>\<open>apart\<close>: no item of another version has an id that a chunk of \<open>version\<close> could get.\<close>

definition apart :: "(string \<Rightarrow> string) \<Rightarrow> string \<Rightarrow> vector_store \<Rightarrow> bool" where
  "apart sha version v \<longleftrightarrow>
     (\<forall>(cid, ch, w) \<in> set (vs_items v). ch_index_version ch \<noteq> version
        \<longrightarrow> (\<forall>doc n. cid \<noteq> derive_chunk_id sha doc n ''1.0'' version))"

definition items_of :: "string \<Rightarrow> vector_store \<Rightarrow> (chunk \<times> real list) list" where
  "items_of version v = filter (\<lambda>(ch, w). ch_index_version ch = version) (map snd (vs_items v))"

lemma in_update_pairs:
  "x \<in> set (fold (\<lambda>(ch, v). AList.update (ch_chunk_id ch) (ch, v)) ps d)
   \<Longrightarrow> x \<in> set d \<or> (\<exists>(ch, v) \<in> set ps. x = (ch_chunk_id ch, ch, v))"
proof (induction ps arbitrary: d)
  case (Cons p ps)
  obtain ch v where p: "p = (ch, v)" by (cases p)
  from Cons.IH [of "AList.update (ch_chunk_id ch) (ch, v) d"] Cons.prems show ?case
    by (auto simp: p dest!: in_update)
qed simp

lemma upsert_apart:
  assumes "apart sha version v" "\<forall>c \<in> set cs. own_chunk sha version c" "vs_upsert cs vs v = Inr v'" "other \<noteq> version"
  shows "apart sha version v' \<and> items_of other v' = items_of other v"
proof
  have "vs_items v' = fold (\<lambda>(ch, v). AList.update (ch_chunk_id ch) (ch, v)) (zip cs vs) (vs_items v)"
    using assms(3) by (auto simp: vs_upsert_def split: if_splits)
  with assms(1,2) show "apart sha version v'"
    by (fastforce simp: apart_def own_chunk_def dest!: in_update_pairs dest: set_zip_leftD)
  have "\<not> ch_index_version old = other"
    if "ch \<in> set cs" "map_of (vs_items v) (ch_chunk_id ch) = Some (old, w)" for ch old w
    using assms(1,2,4) that map_of_SomeD [OF that(2)] by (fastforce simp: apart_def own_chunk_def)
  with vs_upsert_frame [OF assms(3), of "\<lambda>ch. ch_index_version ch = other"] assms(2,4)
  show "items_of other v' = items_of other v"
    by (fastforce simp: items_of_def own_chunk_def)
qed

definition apart_with :: "(string \<Rightarrow> string) \<Rightarrow> string \<Rightarrow> string \<Rightarrow> (chunk \<times> real list) list \<Rightarrow> (vector_store, bm25) offline_state \<Rightarrow> bool" where
  "apart_with sha version other F st \<longleftrightarrow> apart sha version (os_vectors st) \<and> items_of other (os_vectors st) = F"

lemma apart_registry: "valid (apart_with sha version other F) (on_registry m) (\<lambda>_. apart_with sha version other F) (apart_with sha version other F)"
  by (rule validI) (auto simp: on_registry_eq apart_with_def)

lemma apart_lexical: "valid (apart_with sha version other F) (on_lexical m) (\<lambda>_. apart_with sha version other F) (apart_with sha version other F)"
  by (rule validI) (auto simp: on_lexical_eq apart_with_def)

lemma apart_return: "valid (apart_with sha version other F) (return r) (\<lambda>_. apart_with sha version other F) (apart_with sha version other F)"
  by (rule valid_return) auto

lemma apart_alias:
  "valid (apart_with sha version other F) (on_vectors (mem_set_alias a x)) (\<lambda>_. apart_with sha version other F) (apart_with sha version other F)"
  by (rule validI) (auto simp: on_vectors_eq apart_with_def mem_set_alias_def vs_set_alias_def apart_def items_of_def)

lemma apart_upsert:
  assumes "other \<noteq> version" "\<forall>c \<in> set cs. own_chunk sha version c"
  shows "valid (apart_with sha version other F) (on_vectors (mem_upsert cs vs)) (\<lambda>_. apart_with sha version other F) (apart_with sha version other F)"
  by (rule validI)
    (use upsert_apart [OF _ assms(2) _ assms(1)] in \<open>auto simp: on_vectors_eq apart_with_def mem_upsert_def split: sum.splits\<close>)

section \<open>Properties\<close>


text \<open>Every chunk of a run comes from a file of the tree.\<close>

lemma run_stamped:
  assumes "deployed_chunkers sha (of_chunkers op)" "of_parsers op = default_parsers rd"
    and "of_connect op = local_fs rd fs"
    and "offline_run op source iv acl activate st = (Inr cs, st')"
  shows "\<forall>c \<in> set cs. (\<exists>p \<in> fst ` set fs. ch_doc_id c = path_stem p)
           \<and> ch_acl c = (case acl of None \<Rightarrow> DEFAULT_ACL | Some a \<Rightarrow> a)
           \<and> ch_index_version c = run_version op iv \<and> ch_embedding_model c = Some (of_model_name op)
           \<and> ch_chunk_id c = derive_chunk_id sha (ch_doc_id c) (ch_ordinal c) ''1.0'' (run_version op iv)"
proof
  fix c assume c: "c \<in> set cs"
  obtain cfg docs parsed chunks where run: "ingest op (of_connect op source) acl = Inr docs"
      "parse_stage op docs = Inr parsed" "chunk_stage op cfg (run_version op iv) parsed = Inr chunks"
      "cs = map (stamp_model op) chunks"
    using build_value run_value [OF assms(4)] by blast
  from c run(4) obtain ch where ch: "ch \<in> set chunks" "c = stamp_model op ch" by auto
  obtain p where p: "p \<in> set parsed" "ch_acl ch = d_acl p" "ch_doc_id ch = d_doc_id p"
      "ch_index_version ch = run_version op iv"
      "ch_chunk_id ch = derive_chunk_id sha (d_doc_id p) (ch_ordinal ch) ''1.0'' (run_version op iv)"
    using chunk_stage_from [OF assms(1) run(3) ch(1)] by blast
  obtain d where d: "d \<in> set docs" "d_acl p = d_acl d" "d_doc_id p = d_doc_id d"
    using parse_stage_from [OF assms(2) run(2) p(1)] by blast
  obtain uri where "fetch rd fs uri acl = Inr d"
    using map_result_in [OF run(1) [unfolded ingest_def] d(1)] assms(3) by (auto simp: local_fs_def)
  with fetch_facts ch(2) p(2-) d(2,3) show "(\<exists>p \<in> fst ` set fs. ch_doc_id c = path_stem p)
      \<and> ch_acl c = (case acl of None \<Rightarrow> DEFAULT_ACL | Some a \<Rightarrow> a)
      \<and> ch_index_version c = run_version op iv \<and> ch_embedding_model c = Some (of_model_name op)
      \<and> ch_chunk_id c = derive_chunk_id sha (ch_doc_id c) (ch_ordinal c) ''1.0'' (run_version op iv)"
    by (simp add: stamp_model_def)
qed

text \<open>
  C12: under the deployed strategies, parsers and connector every chunk that a run returns belongs
  to a file of the tree, carries the tags the run was given (or the default ones), the version of
  the run and the model that embedded it, and is named by its document, ordinal and version.
\<close>

theorem offline_chunks_stamped:
  assumes "deployed_chunkers sha (of_chunkers op)" "of_parsers op = default_parsers rd"
    and "of_connect op = local_fs rd fs"
    and "offline_run op source iv acl activate st = (Inr cs, st')"
  shows "\<forall>c \<in> set cs. (\<exists>p \<in> fst ` set fs. ch_doc_id c = path_stem p)
           \<and> ch_acl c = (case acl of None \<Rightarrow> DEFAULT_ACL | Some a \<Rightarrow> a)
           \<and> ch_index_version c = run_version op iv \<and> ch_embedding_model c = Some (of_model_name op)
           \<and> ch_chunk_id c = derive_chunk_id sha (ch_doc_id c) (ch_ordinal c) ''1.0'' (run_version op iv)"
  by (rule run_stamped [OF assms])

text \<open>Every stage leaves the chunks of another version alone.\<close>

lemma embed_apart:
  assumes live: "live \<noteq> v" and own: "\<forall>c \<in> set cs. own_chunk sha v c"
  shows "valid (apart_with sha v live xs) (embed_and_index (in_memory_offline op) cs)
    (\<lambda>_. apart_with sha v live xs) (apart_with sha v live xs)"
proof -
  have "\<forall>c \<in> set (map (stamp_model (in_memory_offline op)) cs). own_chunk sha v c"
    using own by (auto simp: own_chunk_def stamp_model_def)
  note upsert = apart_upsert [OF live this]
  show ?thesis
    unfolding embed_and_index_def Let_def in_memory_offline_simps
    by (intro valid_seq [OF apart_return] valid_seq [OF apart_lexical] valid_seq [OF upsert] apart_return)
qed

lemma build_apart:
  assumes "deployed_chunkers sha (of_chunkers op)" "live \<noteq> v"
  shows "valid (apart_with sha v live xs) (offline_build (in_memory_offline op) source v acl)
    (\<lambda>_. apart_with sha v live xs) (apart_with sha v live xs)"
proof -
  let ?op = "in_memory_offline op" and ?I = "apart_with sha v live xs"
  have stage: "valid (\<lambda>st. ?I st \<and> chunk_stage ?op cfg v parsed = Inr cs)
      (if cs = [] then return (Inr []) else embed_and_index ?op cs) (\<lambda>_. ?I) ?I" for cfg parsed cs
  proof (rule valid_pure)
    assume "chunk_stage ?op cfg v parsed = Inr cs"
    then have "\<forall>c \<in> set cs. own_chunk sha v c"
      using chunk_stage_from [of sha ?op cfg v parsed cs] assms(1) by (fastforce simp: own_chunk_def)
    then show "valid ?I (if cs = [] then return (Inr []) else embed_and_index ?op cs) (\<lambda>_. ?I) ?I"
      using embed_apart [OF assms(2), of cs] apart_return by (cases "cs = []") simp_all
  qed
  have chunk: "valid ?I (return (chunk_stage ?op cfg v parsed))
      (\<lambda>cs st. ?I st \<and> chunk_stage ?op cfg v parsed = Inr cs) ?I" for cfg parsed
    by (rule valid_return) auto
  note tail = valid_seq [OF chunk valid_seq [OF stage valid_seq [OF apart_registry apart_return]]]
  show ?thesis
    unfolding offline_build_def
    by (intro tail valid_seq [OF apart_return] valid_seq [OF apart_registry])
qed

lemma publish_apart:
  "valid (apart_with sha v live xs) (if b then offline_activate (in_memory_offline op) v else return (Inr ()))
    (\<lambda>_. apart_with sha v live xs) (apart_with sha v live xs)"
proof (cases b)
  case True
  have "valid (apart_with sha v live xs) (offline_activate (in_memory_offline op) v)
      (\<lambda>_. apart_with sha v live xs) (apart_with sha v live xs)"
    unfolding offline_activate_def in_memory_offline_simps
    by (intro valid_seq [OF apart_alias] apart_registry)
  with True show ?thesis by simp
next
  case False
  then show ?thesis using apart_return by (simp only: if_False)
qed

lemma vs_search_items_of:
  assumes "items_of live st' = items_of live st" "live \<noteq> []"
  shows "vs_search q top_k p (Some live) st' = vs_search q top_k p (Some live) st"
proof -
  have "filter (\<lambda>(ch, w). is_allowed p (ch_acl ch)) (items_of live st')
      = filter (\<lambda>(ch, w). is_allowed p (ch_acl ch)) (items_of live st)" using assms(1) by simp
  then have "filter (\<lambda>(ch, w). visible p (Some live) ch) (map snd (vs_items st'))
      = filter (\<lambda>(ch, w). visible p (Some live) ch) (map snd (vs_items st))"
    using assms(2) by (simp add: items_of_def visible_def wanted_def case_prod_beta' conj_commute)
  then show ?thesis by (simp add: vs_search_def)
qed

text \<open>
  a run over the in-memory stores, however it ends, changes no dense search that is pinned to
  another version: build and live version do not disturb each other, as long as no indexed chunk of
  another version has an id that the hash gives to a chunk of this one.
\<close>

theorem offline_version_isolated:
  assumes "deployed_chunkers sha (of_chunkers op)" "apart sha (run_version op iv) (os_vectors st)"
    and "offline_run (in_memory_offline op) source iv acl activate st = (r, st')"
    and "live \<noteq> run_version op iv" "live \<noteq> []"
  shows "vs_search q top_k p (Some live) (os_vectors st') = vs_search q top_k p (Some live) (os_vectors st)"
proof -
  let ?op = "in_memory_offline op" and ?v = "run_version op iv"
  let ?I = "apart_with sha ?v live (items_of live (os_vectors st))"
  have version: "run_version ?op iv = ?v" by (cases iv) (simp_all add: run_version_def)
  note build = build_apart [OF assms(1,4)]
  have "valid ?I (offline_run ?op source iv acl activate) (\<lambda>_. ?I) ?I"
    unfolding offline_run_def Let_def version
    by (intro valid_seq [OF build] valid_seq [OF publish_apart] apart_return)
  moreover have "?I st" using assms(2) by (simp add: apart_with_def)
  ultimately have "?I st'"
    using assms(3) by (cases r) (auto dest: validD_raise validD_value)
  then have "items_of live (os_vectors st') = items_of live (os_vectors st)" by (simp add: apart_with_def)
  then show ?thesis using assms(5) by (rule vs_search_items_of)
qed

text \<open>A run over one file, on which the properties are applied.\<close>

definition example_files :: files where
  "example_files = [([''data'', ''a.txt''], ''hi'')]"

definition example_offline :: "(unit, unit) offline" where
  "example_offline =
     \<lparr>of_upsert = (\<lambda>cs vs st. (Inr (), st)), of_set_alias = (\<lambda>a v st. (Inr (), st)), of_index = (\<lambda>cs st. (Inr (), st)),
      of_embed = (\<lambda>ts. Inr (map (\<lambda>t. [1]) ts)), of_model_name = ''hash-64'',
      of_settings = default_settings\<lparr>se_pii_redaction_enabled := False\<rparr>,
      of_chunking = Inr \<lparr>cg_strategies = [], cg_default_strategy = None, cg_chunker_version = None\<rparr>,
      of_chunkers = default_chunkers (\<lambda>s. s), of_parsers = default_parsers ascii_reader,
      of_connect = local_fs ascii_reader example_files, of_now = ''2026-01-01''\<rparr>"

definition example_offline_state :: "(vector_store, bm25) offline_state" where
  "example_offline_state =
     \<lparr>os_vectors = empty_vector_store, os_lexical = bm_empty (3 / 2) (3 / 4), os_registry = example_registry\<rparr>"

lemma example_ingest:
  "\<exists>d. ingest example_offline (of_connect example_offline [''data'']) None = Inr [d]
     \<and> d_text d = Some ''hi'' \<and> d_mime_type d = ''text/plain'' \<and> d_acl d = DEFAULT_ACL \<and> d_doc_id d = ''a''"
proof -
  let ?p = "[''data'', ''a.txt'']"
  have plain: "\<forall>x \<in> set ?p. \<forall>c \<in> set x. uri_plain c"
    by (simp add: uri_plain_def ascii_alnum_def ascii_upper_def ascii_lower_def py_digit_def code_def)
  then have names: "path_of (removeprefix (as_uri ?p) ''file://'') = ?p"
    using uri_names [of ?p] by (simp add: path_ok_def quoted_plain del: quoted_simps)
  have "list_uris example_files [''data''] = [as_uri ?p]"
    by (simp add: list_uris_def example_files_def below_def path_name_def)
  moreover have "map_of example_files ?p = Some ''hi''" by (simp add: example_files_def)
  moreover have "guess_mime ?p = ''text/plain''"
    by (simp add: guess_mime_def path_suffix_def path_name_def suffix_start_def py_lower_def lower_char_def
        ascii_upper_def code_def)
  moreover have "path_stem ?p = ''a''" by (simp add: path_stem_def path_name_def suffix_start_def)
  ultimately show ?thesis
    by (simp add: ingest_def example_offline_def local_fs_def fetch_def names ascii_reader_def code_def Let_def)
qed

lemma example_chunks:
  assumes "ingest example_offline (of_connect example_offline [''data'']) None = Inr [d]"
    and "d_text d = Some ''hi''" "d_mime_type d = ''text/plain''"
  shows "\<exists>q c. parse_stage example_offline [d] = Inr [q]
     \<and> chunk_stage example_offline \<lparr>cg_strategies = [], cg_default_strategy = None, cg_chunker_version = None\<rparr> ''v1'' [q] = Inr [c]
     \<and> ch_text c = ''hi''"
proof -
  let ?q = "with_meta [(''parser'', JStr ''text'')] (d\<lparr>d_text := Some ''hi''\<rparr>)"
  have "strip ''hi'' = ''hi''"
    by (simp add: strip_def rstrip_def lstrip_def py_space_def code_def)
  with assms(2,3) have parse: "parse_stage example_offline [d] = Inr [?q]"
    by (simp add: example_offline_def parse_document_def get_parser_def default_parsers_def parse_text_def
        redacted_def with_meta_def)
  have content: "doc_text ?q = ''hi''" "d_mime_type ?q = ''text/plain''"
    using assms(3) by (simp_all add: doc_text_def with_meta_def)
  have "fixed_chunk (\<lambda>s. s) ?q ''v1'' 512 64 = [make_chunk (\<lambda>s. s) ?q ''fixed'' ''v1'' 0 ''hi'' (0, 2)]"
    by (simp add: fixed_chunk_def content fixed_windows.simps Let_def py_slice_def slice_bound_def
        strip_def rstrip_def lstrip_def py_space_def code_def)
  then have "chunk_stage example_offline \<lparr>cg_strategies = [], cg_default_strategy = None, cg_chunker_version = None\<rparr> ''v1'' [?q]
      = Inr [make_chunk (\<lambda>s. s) ?q ''fixed'' ''v1'' 0 ''hi'' (0, 2)]"
    by (simp add: chunk_stage_def example_offline_def chunk_document_def chunk_plan_def content(2) MIME_DEFAULTS_def
        get_chunker_def default_chunkers_def)
  with parse show ?thesis by (intro exI conjI) (assumption | simp)+
qed

lemma example_files_run:
  assumes "of_chunking op = of_chunking example_offline" "of_chunkers op = of_chunkers example_offline"
    and "of_parsers op = of_parsers example_offline" "of_connect op = of_connect example_offline"
    and "of_settings op = of_settings example_offline" "of_embed op [''hi''] = Inr [vec]"
  shows "\<exists>c st'. offline_run (in_memory_offline op) [''data''] None None True example_offline_state = (Inr [c], st')
     \<and> ch_text c = ''hi''"
proof -
  let ?op = "in_memory_offline op" and ?st = example_offline_state
  let ?cfg = "\<lparr>cg_strategies = [], cg_default_strategy = None, cg_chunker_version = None\<rparr>"
  have same: "ingest ?op = ingest example_offline" "chunk_stage ?op = chunk_stage example_offline"
      "stamp_model ?op = stamp_model op"
    by (simp_all add: fun_eq_iff ingest_def chunk_stage_def stamp_model_def assms)
  have parse: "parse_stage ?op ds = parse_stage example_offline ds" for ds
    by (induction ds) (simp_all add: assms split: sum.split)
  have version: "run_version ?op None = ''v1''"
    by (simp add: run_version_def assms) (simp add: example_offline_def default_settings_def)
  have cfg: "of_chunking ?op = Inr ?cfg" by (simp add: in_memory_offline_def assms) (simp add: example_offline_def)
  obtain d where d: "ingest example_offline (of_connect example_offline [''data'']) None = Inr [d]"
      "d_text d = Some ''hi''" "d_mime_type d = ''text/plain''" using example_ingest by blast
  obtain q c where qc: "parse_stage example_offline [d] = Inr [q]"
      "chunk_stage example_offline ?cfg ''v1'' [q] = Inr [c]" "ch_text c = ''hi''"
    using example_chunks [OF d] by blast
  let ?c = "stamp_model op c"
  have inv: "bm_inv (os_lexical ?st)" "reg_ok (os_registry ?st)" "rg_writable (os_registry ?st)"
    using example_registry_ok bm_empty_inv [of "3 / 2" "3 / 4"]
    by (simp_all add: example_offline_state_def example_registry_def)
  obtain r1 where r1: "reg_record (registry_entry ?op ''v1'' ''building'' 0 None) (os_registry ?st) = (Inr (), r1)"
      "reg_ok r1" "rg_writable r1"
    using reg_record_effect [OF inv(2,3)] by blast
  let ?e = "registry_entry ?op ''v1'' ''built'' 1 (Some ''1.0'')"
  obtain r2 where r2: "reg_record ?e r1 = (Inr (), r2)" "reg_ok r2" "rg_writable r2" "reg_body r2 ''v1'' \<noteq> None"
    using reg_record_effect [OF r1(2,3), of ?e] by (auto simp: registry_entry_def)
  obtain r3 where r3: "reg_activate ''v1'' r2 = (Inr (), r3)"
    using reg_activate_effect [OF r2(2,3,4)] by blast
  have embed: "of_embed ?op (map ch_text [?c]) = Inr [vec]"
    using assms(6) qc(3) by (simp add: in_memory_offline_def stamp_model_def)
  obtain v where v: "mem_upsert [?c] [vec] (os_vectors ?st) = (Inr (), v)"
    by (auto simp: mem_upsert_def vs_upsert_def)
  obtain l where l: "mem_index [?c] (os_lexical ?st) = (Inr (), l)"
    using mem_index_writes [OF inv(1)] by (metis prod.exhaust)
  let ?st1 = "?st\<lparr>os_registry := r1\<rparr>"
  let ?st2 = "?st\<lparr>os_registry := r1, os_vectors := v, os_lexical := l\<rparr>"
  have "embed_and_index ?op [c] ?st1 = (Inr [?c], ?st2)"
    using embed v l by (simp add: embed_and_index_def Let_def and_then_def return_def on_vectors_def on_lexical_def same)
  then have "offline_build ?op [''data''] ''v1'' None ?st = (Inr [?c], ?st2\<lparr>os_registry := r2\<rparr>)"
    using d(1) qc(1,2) r1(1) r2(1)
    by (simp add: offline_build_def and_then_def return_def on_registry_def cfg same parse assms)
  then have "\<exists>st'. offline_run ?op [''data''] None None True ?st = (Inr [?c], st')"
    using r3 by (simp add: offline_run_def Let_def version and_then_def return_def offline_activate_def
        on_registry_def on_vectors_def mem_set_alias_def registry_activate_def)
  moreover have "ch_text ?c = ''hi''" using qc(3) by (simp add: stamp_model_def)
  ultimately show ?thesis by blast
qed

lemma example_offline_run:
  "\<exists>c st'. offline_run (in_memory_offline example_offline) [''data''] None None True example_offline_state = (Inr [c], st')
     \<and> ch_text c = ''hi''"
  by (rule example_files_run) (simp_all add: example_offline_def)


lemma offline_chunks_stamped_witness:
  "\<exists>st' c. offline_run (in_memory_offline example_offline) [''data''] None None True example_offline_state = (Inr [c], st')
     \<and> ch_acl c = DEFAULT_ACL \<and> ch_doc_id c = ''a'' \<and> ch_index_version c = ''v1''"
proof -
  obtain c st' where run: "offline_run (in_memory_offline example_offline) [''data''] None None True example_offline_state
      = (Inr [c], st')" using example_offline_run by blast
  have "deployed_chunkers (\<lambda>s. s) (of_chunkers (in_memory_offline example_offline))"
      "of_parsers (in_memory_offline example_offline) = default_parsers ascii_reader"
      "of_connect (in_memory_offline example_offline) = local_fs ascii_reader example_files"
    by (simp_all add: example_offline_def deployed_chunkers_def)
  from offline_chunks_stamped [OF this run] run show ?thesis
    by (auto simp: example_files_def path_stem_def path_name_def suffix_start_def run_version_def example_offline_def
        default_settings_def)
qed

lemma example_ids: "4 \<le> length (derive_chunk_id (\<lambda>s. s) doc n ''1.0'' iv)"
  by (simp add: derive_chunk_id_def short_id_def sha256_hex_def slice_to_def)

lemma offline_version_isolated_witness:
  "let st = example_offline_state
       \<lparr>os_vectors := \<lparr>vs_items = [(''c1'', example_chunk ''c1'' ''acme'', [1])], vs_aliases = [(''docs_live'', ''v1'')]\<rparr>\<rparr> in
   \<exists>r st'. offline_run (in_memory_offline example_offline) [''data''] (Some ''v2'') None True st = (r, st')
     \<and> vs_search [1] 5 example_caller (Some ''v1'') (os_vectors st')
        = vs_search [1] 5 example_caller (Some ''v1'') (os_vectors st)"
proof -
  let ?st = "example_offline_state
       \<lparr>os_vectors := \<lparr>vs_items = [(''c1'', example_chunk ''c1'' ''acme'', [1])], vs_aliases = [(''docs_live'', ''v1'')]\<rparr>\<rparr>"
  obtain r st' where run: "offline_run (in_memory_offline example_offline) [''data''] (Some ''v2'') None True
      ?st = (r, st')" by fastforce
  have version: "run_version example_offline (Some ''v2'') = ''v2''" by (simp add: run_version_def str_or_def)
  have "''c1'' \<noteq> derive_chunk_id (\<lambda>s. s) doc n ''1.0'' ''v2''" for doc n
  proof
    assume "''c1'' = derive_chunk_id (\<lambda>s. s) doc n ''1.0'' ''v2''"
    then have "4 \<le> length ''c1''" using example_ids [of doc n "''v2''"] by (simp only:)
    then show False by simp
  qed
  then have "deployed_chunkers (\<lambda>s. s) (of_chunkers example_offline)"
      "apart (\<lambda>s. s) (run_version example_offline (Some ''v2'')) (os_vectors ?st)"
      "''v1'' \<noteq> run_version example_offline (Some ''v2'')" "''v1'' \<noteq> []"
    unfolding version by (simp_all add: example_offline_def deployed_chunkers_def apart_def)
  from offline_version_isolated [OF this(1,2) run this(3,4), of "[1]" 5 example_caller] run show ?thesis
    unfolding Let_def by blast
qed

text \<open>
  one malformed document does not end a run. With the deployed parsers the stage keeps, in
  order, the documents that parse, and only the PDF reader can end it, by an exception that is
  neither a KeyError nor a ValueError.
\<close>

theorem parse_stage_skips:
  assumes "of_parsers op = default_parsers rd"
  shows "(\<forall>ps. parse_stage op ds = Inr ps \<longrightarrow>
            map d_doc_id ps = map d_doc_id (filter (\<lambda>d. \<exists>p. parse_document (default_parsers rd) d = Inr p) ds))
     \<and> (\<forall>e. parse_stage op ds = Inl e \<longrightarrow> \<not> skippable e
            \<and> (\<exists>d \<in> set ds. d_mime_type d = ''application/pdf'' \<and> (\<exists>path. rd_pages rd path = Inl e)))"
proof (induction ds)
  case (Cons d ds)
  show ?case
  proof (cases "parse_document (of_parsers op) d")
    case (Inl e)
    then have "skippable e \<or> d_mime_type d = ''application/pdf'' \<and> (\<exists>path. rd_pages rd path = Inl e)"
      by (auto simp: assms parse_document_def get_parser_def default_parsers_def parse_text_def parse_markdown_def
          parse_html_def parse_pdf_def no_text_def Let_def bind_result_Inl split: if_splits option.splits)
    with Inl Cons.IH assms show ?thesis by auto
  next
    case (Inr p)
    with Cons.IH parse_keeps [of rd d p] assms show ?thesis
      by (cases "parse_stage op ds") auto
  qed
qed simp

lemma parse_stage_skips_witness:
  "let ds = [example_document ''image/png'' ''x'', example_document ''text/plain'' ''some text''] in
   \<exists>ps. parse_stage example_offline ds = Inr ps
     \<and> map d_doc_id ps = map d_doc_id (filter (\<lambda>d. \<exists>p. parse_document (default_parsers ascii_reader) d = Inr p) ds)"
proof -
  let ?ds = "[example_document ''image/png'' ''x'', example_document ''text/plain'' ''some text'']"
  have "of_parsers example_offline = default_parsers ascii_reader" by (simp add: example_offline_def)
  note skips = parse_stage_skips [OF this, of ?ds]
  have "\<nexists>d. d \<in> set ?ds \<and> d_mime_type d = ''application/pdf''" by (auto simp: example_document_def)
  with skips obtain ps where "parse_stage example_offline ?ds = Inr ps"
    by (cases "parse_stage example_offline ?ds") blast+
  with skips show ?thesis unfolding Let_def by blast
qed

end
