(* ===== verification/Eval.thy ===== *)
theory Eval
  imports Calls Runtime
begin

text \<open>
  \<open>src/rag/eval\<close>: the metrics, the reports and the two runners over a golden set. The functions
  that a runner evaluates are calls on a state. Reading the data set and printing the report are I/O.
\<close>

section \<open>Retrieval metrics\<close>

definition recall_at_k :: "string list \<Rightarrow> string list \<Rightarrow> int \<Rightarrow> real" where
  "recall_at_k retrieved relevant k =
     (if relevant = [] then 0
      else real (card (set (slice_to retrieved k) \<inter> set relevant)) / real (card (set relevant)))"

fun mrr_from :: "nat \<Rightarrow> string set \<Rightarrow> string list \<Rightarrow> real" where
  "mrr_from i relevant [] = 0"
| "mrr_from i relevant (r # rs) = (if r \<in> relevant then 1 / real i else mrr_from (Suc i) relevant rs)"

definition mrr :: "string list \<Rightarrow> string list \<Rightarrow> real" where
  "mrr retrieved relevant = mrr_from 1 (set relevant) retrieved"

definition gain :: "nat \<Rightarrow> real" where
  "gain i = 1 / log 2 (real (i + 1))"

fun dcg_from :: "nat \<Rightarrow> string set \<Rightarrow> string list \<Rightarrow> real" where
  "dcg_from i relevant [] = 0"
| "dcg_from i relevant (r # rs) = (if r \<in> relevant then gain i else 0) + dcg_from (Suc i) relevant rs"

definition idcg :: "nat \<Rightarrow> real" where
  "idcg n = (\<Sum>i \<in> {1..n}. gain i)"

definition ndcg_at_k :: "string list \<Rightarrow> string list \<Rightarrow> int \<Rightarrow> real" where
  "ndcg_at_k retrieved relevant k =
     (if relevant = [] then 0
      else let ideal = idcg (nat (min (int (card (set relevant))) k)) in
        if ideal \<noteq> 0 then dcg_from 1 (set relevant) (slice_to retrieved k) / ideal else 0)"

section \<open>Generation metrics\<close>

definition tokens :: "string \<Rightarrow> string set" where
  "tokens t = set (split_ws (py_lower t))"

definition faithfulness :: "string \<Rightarrow> string list \<Rightarrow> real" where
  "faithfulness answer contexts =
     (if strip answer = [] \<or> contexts = [] \<or> tokens answer = {} then 0
      else real (card (tokens answer \<inter> \<Union> (tokens ` set contexts))) / real (card (tokens answer)))"

definition answer_relevance :: "string \<Rightarrow> string \<Rightarrow> real" where
  "answer_relevance answer question =
     (if strip answer = [] \<or> strip question = [] \<or> tokens question = {} then 0
      else real (card (tokens answer \<inter> tokens question)) / real (card (tokens question)))"

section \<open>Agent metrics\<close>

definition task_success :: "agent_answer \<Rightarrow> bool \<Rightarrow> real" where
  "task_success a require_citations =
     (if a_refused a then 0
      else if aa_fallback_used a then 0
      else if aa_stop_reason a \<notin> ANSWERABLE_STOPS then 0
      else if require_citations \<and> a_citations a = [] then 0
      else 1)"

definition step_efficiency :: "int \<Rightarrow> int \<Rightarrow> real" where
  "step_efficiency steps_taken budget_steps =
     (if budget_steps \<le> 1 then (if steps_taken \<le> 1 then 1 else 0)
      else real_of_int (max (budget_steps - steps_taken) 0) / real_of_int (budget_steps - 1))"

definition tool_selection_precision :: "string list \<Rightarrow> string list \<Rightarrow> real" where
  "tool_selection_precision predicted expected =
     (if expected = [] then 1
      else if predicted = [] then 0
      else
        let hits = card (set predicted \<inter> set expected) in
        if hits = 0 then 0
        else
          let precision = real hits / real (card (set predicted)); recall = real hits / real (card (set expected))
          in 2 * precision * recall / (precision + recall))"

definition self_correction_rate :: "int \<Rightarrow> int \<Rightarrow> real" where
  "self_correction_rate self_corrections steps_taken =
     (if steps_taken \<le> 0 then 0 else min (real_of_int self_corrections / real_of_int steps_taken) 1)"

definition cost_per_correct :: "real \<Rightarrow> real \<Rightarrow> real" where
  "cost_per_correct cost_usd success = (if success \<le> 0 then 0 else cost_usd / success)"

section \<open>Runners\<close>

record golden_example =
  ge_id :: string
  ge_question :: string
  ge_relevant_doc_ids :: "string list"
  ge_relevant_chunk_ids :: "string list"
  ge_reference_answer :: "string option"
  ge_expected_tools :: "string list"
  ge_retrieval_rounds :: int
  ge_expect_self_correction :: bool

record eval_case =
  ec_id :: string
  ec_recall_5 :: real
  ec_recall_10 :: real
  ec_mrr :: real
  ec_ndcg_10 :: real
  ec_faithfulness :: real
  ec_relevance :: real
  ec_refused :: bool

record eval_report =
  er_n :: nat
  er_recall_5 :: real
  er_recall_10 :: real
  er_mrr :: real
  er_ndcg_10 :: real
  er_faithfulness :: real
  er_relevance :: real
  er_refusal_rate :: real
  er_cases :: "eval_case list"

definition mean_of :: "('a \<Rightarrow> real) \<Rightarrow> 'a list \<Rightarrow> real" where
  "mean_of f cs = sum_list (map f cs) / real (if cs = [] then 1 else length cs)"

definition indicator_of :: "('a \<Rightarrow> bool) \<Rightarrow> 'a \<Rightarrow> real" where
  "indicator_of P c = (if P c then 1 else 0)"

definition report_from_cases :: "eval_case list \<Rightarrow> eval_report" where
  "report_from_cases cs =
     \<lparr>er_n = length cs, er_recall_5 = mean_of ec_recall_5 cs, er_recall_10 = mean_of ec_recall_10 cs,
      er_mrr = mean_of ec_mrr cs, er_ndcg_10 = mean_of ec_ndcg_10 cs, er_faithfulness = mean_of ec_faithfulness cs,
      er_relevance = mean_of ec_relevance cs, er_refusal_rate = mean_of (indicator_of ec_refused) cs, er_cases = cs\<rparr>"

definition eval_case_of :: "golden_example \<Rightarrow> query_result \<Rightarrow> answer \<Rightarrow> eval_case" where
  "eval_case_of ex qr ans =
     (let relevant = (if ge_relevant_chunk_ids ex \<noteq> [] then ge_relevant_chunk_ids ex else ge_relevant_doc_ids ex);
          retrieved = (if ge_relevant_chunk_ids ex \<noteq> [] then map (ch_chunk_id \<circ> sc_chunk) (qr_results qr)
                       else map (ch_doc_id \<circ> sc_chunk) (qr_results qr))
      in \<lparr>ec_id = ge_id ex, ec_recall_5 = recall_at_k retrieved relevant 5,
          ec_recall_10 = recall_at_k retrieved relevant 10, ec_mrr = mrr retrieved relevant,
          ec_ndcg_10 = ndcg_at_k retrieved relevant 10,
          ec_faithfulness = faithfulness (a_text ans) (map (ch_text \<circ> sc_chunk) (qr_results qr)),
          ec_relevance = answer_relevance (a_text ans) (ge_question ex), ec_refused = a_refused ans\<rparr>)"

fun eval_cases ::
    "(string \<Rightarrow> ('s, query_result) call) \<Rightarrow> (string \<Rightarrow> query_result \<Rightarrow> ('s, answer) call)
     \<Rightarrow> golden_example list \<Rightarrow> ('s, eval_case list) call" where
  "eval_cases retrieve_fn generate_fn [] = return (Inr [])"
| "eval_cases retrieve_fn generate_fn (ex # exs) =
     and_then (retrieve_fn (ge_question ex)) (\<lambda>qr.
     and_then (generate_fn (ge_question ex) qr) (\<lambda>ans.
     and_then (eval_cases retrieve_fn generate_fn exs) (\<lambda>cs. return (Inr (eval_case_of ex qr ans # cs)))))"

definition eval_run ::
    "(string \<Rightarrow> ('s, query_result) call) \<Rightarrow> (string \<Rightarrow> query_result \<Rightarrow> ('s, answer) call)
     \<Rightarrow> golden_example list \<Rightarrow> ('s, eval_report) call" where
  "eval_run retrieve_fn generate_fn exs =
     and_then (eval_cases retrieve_fn generate_fn exs) (\<lambda>cs. return (Inr (report_from_cases cs)))"

record agent_case =
  ac_id :: string
  ac_success :: real
  ac_steps :: int
  ac_efficiency :: real
  ac_tool_precision :: real
  ac_correction_rate :: real
  ac_cost :: real
  ac_cost_per_correct :: real
  ac_fallback :: bool
  ac_refused :: bool
  ac_trajectory_ok :: bool

record agent_report =
  ar_n :: nat
  ar_success_rate :: real
  ar_avg_steps :: real
  ar_avg_efficiency :: real
  ar_avg_tool_precision :: real
  ar_avg_correction_rate :: real
  ar_avg_cost :: real
  ar_avg_cost_per_correct :: real
  ar_fallback_rate :: real
  ar_refusal_rate :: real
  ar_trajectory_rate :: real
  ar_cases :: "agent_case list"

definition agent_report_from_cases :: "agent_case list \<Rightarrow> agent_report" where
  "agent_report_from_cases cs =
     \<lparr>ar_n = length cs, ar_success_rate = mean_of ac_success cs, ar_avg_steps = mean_of (real_of_int \<circ> ac_steps) cs,
      ar_avg_efficiency = mean_of ac_efficiency cs, ar_avg_tool_precision = mean_of ac_tool_precision cs,
      ar_avg_correction_rate = mean_of ac_correction_rate cs, ar_avg_cost = mean_of ac_cost cs,
      ar_avg_cost_per_correct = mean_of ac_cost_per_correct cs,
      ar_fallback_rate = mean_of (indicator_of ac_fallback) cs, ar_refusal_rate = mean_of (indicator_of ac_refused) cs,
      ar_trajectory_rate = mean_of (indicator_of ac_trajectory_ok) cs, ar_cases = cs\<rparr>"

definition trajectory_ok :: "golden_example \<Rightarrow> agent_answer \<Rightarrow> bool" where
  "trajectory_ok ex a \<longleftrightarrow> (if aa_tool_calls a < ge_retrieval_rounds ex then False
     else \<not> (ge_expect_self_correction ex \<and> aa_self_corrections a < 1))"

definition tools_from_answer :: "agent_answer \<Rightarrow> string list" where
  "tools_from_answer a =
     (case aa_trace a of
        None \<Rightarrow> []
      | Some tr \<Rightarrow> concat (map (\<lambda>st. map tc_name (st_tool_calls st)) (at_steps tr)))"

definition agent_case_of :: "int \<Rightarrow> golden_example \<Rightarrow> agent_answer \<Rightarrow> agent_case" where
  "agent_case_of budget_steps ex a =
     (let success = task_success a True;
          predicted = (if aa_tools_used a \<noteq> [] then aa_tools_used a else tools_from_answer a);
          cost = u_cost_usd (a_usage a)
      in \<lparr>ac_id = ge_id ex, ac_success = success, ac_steps = aa_steps_taken a,
          ac_efficiency = step_efficiency (aa_steps_taken a) budget_steps,
          ac_tool_precision = tool_selection_precision predicted (ge_expected_tools ex),
          ac_correction_rate = self_correction_rate (int (aa_self_corrections a)) (aa_steps_taken a),
          ac_cost = cost, ac_cost_per_correct = cost_per_correct cost success,
          ac_fallback = aa_fallback_used a, ac_refused = a_refused a, ac_trajectory_ok = trajectory_ok ex a\<rparr>)"

fun agent_cases ::
    "(string \<Rightarrow> ('s, agent_answer) call) \<Rightarrow> int \<Rightarrow> golden_example list \<Rightarrow> ('s, agent_case list) call" where
  "agent_cases run budget_steps [] = return (Inr [])"
| "agent_cases run budget_steps (ex # exs) =
     and_then (run (ge_question ex)) (\<lambda>a.
     and_then (agent_cases run budget_steps exs) (\<lambda>cs. return (Inr (agent_case_of budget_steps ex a # cs))))"

definition agent_eval_run ::
    "(string \<Rightarrow> ('s, agent_answer) call) \<Rightarrow> int \<Rightarrow> golden_example list \<Rightarrow> ('s, agent_report) call" where
  "agent_eval_run run budget_steps exs =
     and_then (agent_cases run budget_steps exs) (\<lambda>cs. return (Inr (agent_report_from_cases cs)))"

section \<open>Bounds\<close>

definition unit_interval :: "real \<Rightarrow> bool" where
  "unit_interval x \<longleftrightarrow> 0 \<le> x \<and> x \<le> 1"

lemma card_ratio: "finite B \<Longrightarrow> unit_interval (real (card (A \<inter> B)) / real (card B))"
  by (cases "card B = 0") (auto simp: unit_interval_def divide_le_eq card_mono)

lemma card_ratio': "finite B \<Longrightarrow> unit_interval (real (card (B \<inter> A)) / real (card B))"
  using card_ratio [of B A] by (simp add: Int_commute)

lemma recall_unit: "unit_interval (recall_at_k retrieved relevant k)"
  using card_ratio [of "set relevant" "set (slice_to retrieved k)"]
  by (auto simp: recall_at_k_def unit_interval_def)

lemma mrr_unit: "unit_interval (mrr retrieved relevant)"
proof -
  have "unit_interval (mrr_from i R rs)" if "1 \<le> i" for i R rs
    using that by (induction rs arbitrary: i) (auto simp: unit_interval_def divide_le_eq)
  then show ?thesis by (simp add: mrr_def)
qed

lemma faithfulness_unit: "unit_interval (faithfulness answer contexts)"
proof -
  have "finite (tokens answer)" by (simp add: tokens_def)
  from card_ratio' [OF this] show ?thesis by (simp add: faithfulness_def unit_interval_def)
qed

lemma relevance_unit: "unit_interval (answer_relevance answer question)"
proof -
  have "finite (tokens question)" by (simp add: tokens_def)
  from card_ratio [OF this] show ?thesis by (simp add: answer_relevance_def unit_interval_def)
qed

lemma gain_pos: "1 \<le> i \<Longrightarrow> 0 < gain i"
  by (simp add: gain_def)

lemma gain_mono: "1 \<le> j \<Longrightarrow> j \<le> i \<Longrightarrow> gain i \<le> gain j"
  by (simp add: gain_def frac_le)

text \<open>The hits of a list, each at its position or later, gain no more than as many hits at the top.\<close>

lemma dcg_bound:
  assumes "1 \<le> j" "j \<le> i"
  shows "0 \<le> dcg_from i R xs \<and> dcg_from i R xs \<le> (\<Sum>n \<in> {j..<j + length (filter (\<lambda>x. x \<in> R) xs)}. gain n)"
  using assms
proof (induction xs arbitrary: i j)
  case (Cons x xs)
  show ?case
  proof (cases "x \<in> R")
    case True
    from Cons.IH [of "Suc j" "Suc i"] Cons.prems
    have IH: "0 \<le> dcg_from (Suc i) R xs"
        "dcg_from (Suc i) R xs \<le> (\<Sum>n \<in> {Suc j..<Suc j + length (filter (\<lambda>x. x \<in> R) xs)}. gain n)" by simp_all
    have "(\<Sum>n \<in> {j..<Suc (j + length (filter (\<lambda>x. x \<in> R) xs))}. gain n)
        = gain j + (\<Sum>n \<in> {Suc j..<Suc j + length (filter (\<lambda>x. x \<in> R) xs)}. gain n)"
      by (simp add: sum.atLeast_Suc_lessThan)
    with IH True gain_mono [OF Cons.prems] gain_pos [of i] Cons.prems show ?thesis by simp
  next
    case False
    with Cons.IH [of j "Suc i"] Cons.prems show ?thesis by simp
  qed
qed simp

lemma ndcg_unit:
  assumes "distinct retrieved"
  shows "unit_interval (ndcg_at_k retrieved relevant k)"
proof -
  let ?R = "set relevant" and ?top = "slice_to retrieved k"
  let ?h = "length (filter (\<lambda>x. x \<in> ?R) ?top)"
  let ?n = "nat (min (int (card ?R)) k)"
  have pos: "0 \<le> idcg n" for n
    unfolding idcg_def by (intro sum_nonneg) (use gain_pos in \<open>auto intro: less_imp_le\<close>)
  have "dcg_from 1 ?R ?top \<le> idcg ?n" if k: "0 \<le> k"
  proof -
    have top: "distinct ?top" "length ?top \<le> nat k"
      using assms k by (simp_all add: slice_to_def)
    have "?h = card (set (filter (\<lambda>x. x \<in> ?R) ?top))"
      using top(1) by (simp add: distinct_card [symmetric])
    also have "\<dots> \<le> card ?R" by (rule card_mono) auto
    finally have "?h \<le> card ?R" .
    moreover have "?h \<le> nat k" using top(2) length_filter_le order_trans by blast
    ultimately have "?h \<le> ?n" by (simp add: min_def)
    have "dcg_from 1 ?R ?top \<le> (\<Sum>n \<in> {1..<1 + ?h}. gain n)"
      using dcg_bound [of 1 1 ?R ?top] by simp
    also have "\<dots> \<le> idcg ?n"
      unfolding idcg_def using \<open>?h \<le> ?n\<close> gain_pos by (intro sum_mono2) (auto intro: less_imp_le)
    finally show ?thesis .
  qed
  moreover have "idcg ?n = 0" if "\<not> 0 \<le> k" using that by (simp add: idcg_def min_def)
  ultimately have "idcg ?n \<noteq> 0 \<Longrightarrow> dcg_from 1 ?R ?top \<le> idcg ?n" by blast
  moreover have "0 \<le> dcg_from 1 ?R ?top" using dcg_bound [of 1 1 ?R ?top] by simp
  ultimately show ?thesis
    using pos [of ?n] by (auto simp: ndcg_at_k_def unit_interval_def Let_def divide_le_eq)
qed

lemma mean_unit: "\<forall>c \<in> set cs. unit_interval (f c) \<Longrightarrow> unit_interval (mean_of f cs)"
proof -
  assume unit: "\<forall>c \<in> set cs. unit_interval (f c)"
  then have "0 \<le> sum_list (map f cs)" "sum_list (map f cs) \<le> real (length cs)"
    by (induction cs) (auto simp: unit_interval_def)
  then show ?thesis by (auto simp: mean_of_def unit_interval_def divide_le_eq)
qed

definition case_bounded :: "eval_case \<Rightarrow> bool" where
  "case_bounded c \<longleftrightarrow> unit_interval (ec_recall_5 c) \<and> unit_interval (ec_recall_10 c) \<and> unit_interval (ec_mrr c)
     \<and> unit_interval (ec_ndcg_10 c) \<and> unit_interval (ec_faithfulness c) \<and> unit_interval (ec_relevance c)"

lemma eval_case_bounded:
  assumes "ge_relevant_chunk_ids ex \<noteq> []" "distinct (map (ch_chunk_id \<circ> sc_chunk) (qr_results qr))"
  shows "case_bounded (eval_case_of ex qr ans)"
  using assms by (simp add: case_bounded_def eval_case_of_def Let_def recall_unit mrr_unit ndcg_unit
      faithfulness_unit relevance_unit)

lemma eval_cases_bounded:
  assumes "\<And>q st qr st'. retrieve_fn q st = (Inr qr, st') \<Longrightarrow> distinct (map (ch_chunk_id \<circ> sc_chunk) (qr_results qr))"
    and "\<forall>ex \<in> set exs. ge_relevant_chunk_ids ex \<noteq> []"
    and "eval_cases retrieve_fn generate_fn exs st = (Inr cs, st')"
  shows "length cs = length exs \<and> (\<forall>c \<in> set cs. case_bounded c)"
  using assms(2,3)
proof (induction exs arbitrary: st cs st')
  case (Cons ex exs)
  then obtain qr ans cs' st1 st2 where run: "retrieve_fn (ge_question ex) st = (Inr qr, st1)"
      "eval_cases retrieve_fn generate_fn exs st2 = (Inr cs', st')" "cs = eval_case_of ex qr ans # cs'"
    by (auto elim!: and_then_InrE)
  with Cons.IH [OF _ run(2)] Cons.prems(1) eval_case_bounded assms(1) [OF run(1)] show ?case by simp
qed simp

section \<open>Properties\<close>

text \<open>
  on a golden set that pins chunk ids, with a retriever that lists no chunk twice, every average
  of the evaluation report lies between 0 and 1.
\<close>

theorem eval_report_bounded:
  assumes "\<And>q st qr st'. retrieve_fn q st = (Inr qr, st') \<Longrightarrow> distinct (map (ch_chunk_id \<circ> sc_chunk) (qr_results qr))"
    and "\<forall>ex \<in> set exs. ge_relevant_chunk_ids ex \<noteq> []"
    and "eval_run retrieve_fn generate_fn exs st = (Inr rep, st')"
  shows "er_n rep = length exs
     \<and> (\<forall>x \<in> {er_recall_5 rep, er_recall_10 rep, er_mrr rep, er_ndcg_10 rep, er_faithfulness rep, er_relevance rep,
              er_refusal_rate rep}. 0 \<le> x \<and> x \<le> 1)"
proof -
  obtain cs st1 where cs: "eval_cases retrieve_fn generate_fn exs st = (Inr cs, st1)" "rep = report_from_cases cs"
    using assms(3) unfolding eval_run_def by (auto elim!: and_then_InrE)
  have "length cs = length exs" "\<forall>c \<in> set cs. case_bounded c"
    using eval_cases_bounded [OF assms(1,2) cs(1)] by auto
  moreover have "unit_interval (indicator_of P c)" for P and c :: eval_case
    by (simp add: indicator_of_def unit_interval_def)
  ultimately show ?thesis
    using mean_unit [of cs] by (simp add: cs(2) report_from_cases_def case_bounded_def flip: unit_interval_def)
qed

text \<open>
  Over document ids the bound fails: two chunks of the one relevant document count as two hits.
\<close>

lemma ndcg_documents_exceed: "1 < ndcg_at_k [''d'', ''d''] [''d''] 10"
proof -
  have "gain 1 = 1" "0 < gain 2" by (simp_all add: gain_def)
  then show ?thesis
    by (simp add: ndcg_at_k_def slice_to_def idcg_def Let_def numeral_2_eq_2)
qed

definition example_golden :: golden_example where
  "example_golden =
     \<lparr>ge_id = ''q1'', ge_question = ''what is it'', ge_relevant_doc_ids = [], ge_relevant_chunk_ids = [''b''],
      ge_reference_answer = None, ge_expected_tools = [], ge_retrieval_rounds = 1, ge_expect_self_correction = False\<rparr>"

definition example_query_result :: query_result where
  "example_query_result =
     \<lparr>qr_query = ''what is it'', qr_rewritten = [], qr_results = [example_hit ''a'' ''acme'' 2 1, example_hit ''b'' ''acme'' 1 2],
      qr_index_version = ''v1'', qr_trace_id = [], qr_latency_ms = 0, qr_cache_hit = False\<rparr>"

lemma eval_report_bounded_witness:
  "\<exists>rep st'. eval_run (\<lambda>q. return (Inr example_query_result)) (\<lambda>q qr. return (Inr example_answer)) [example_golden] () = (Inr rep, st')
     \<and> er_n rep = 1 \<and> er_ndcg_10 rep \<le> 1"
proof -
  obtain rep st' where run: "eval_run (\<lambda>q. return (Inr example_query_result)) (\<lambda>q qr. return (Inr example_answer))
      [example_golden] () = (Inr rep, st')"
    by (simp add: eval_run_def and_then_def return_def)
  have "distinct (map (ch_chunk_id \<circ> sc_chunk) (qr_results qr))"
    if "return (Inr example_query_result) st = (Inr qr, st')" for st st' :: unit and qr
    using that by (auto simp: example_query_result_def example_defs)
  from eval_report_bounded [OF this _ run] run show ?thesis
    by (auto simp: example_golden_def)
qed

end
