(* ===== verification/Deployment.thy ===== *)
theory Deployment
  imports Runtime
begin

text \<open>
  The agent over the online pipeline, as \<open>src/rag/backends.py\<close> wires them: they share one cache and
  one state. The locale \<open>agent_host\<close> states what a turn of the agent relies on from the models, the
  tools and the pipeline around it; the in-memory deployment interprets it.
\<close>

section \<open>Wiring\<close>

text \<open>
  What surrounds the two: whether the deadline of the turn ends the wait for a worker thread, the
  readers and printers of the standard library and the clock. A cancelled wait does not stop the
  thread: \<open>answer_within\<close> drops the answer, what the pipeline changed stays.
\<close>

record ('s, 't, 'c, 'w) agent_env =
  ae_deadline :: "('s, 't, 'c, 'w) online_state \<Rightarrow> bool"
  ae_dump :: "tool_result \<Rightarrow> string"
  ae_load :: "string \<Rightarrow> tool_result result"
  ae_dump_answer :: "agent_answer \<Rightarrow> string"
  ae_load_answer :: "string \<Rightarrow> agent_answer result"
  ae_reader :: json_reader
  ae_exn_text :: "py_exn \<Rightarrow> string"
  ae_clock :: "('s, 't, 'c, 'w) online_state \<Rightarrow> real"

definition answer_within ::
    "('s, 't, 'c, 'w) agent_env \<Rightarrow> ('s, 't, 'c, 'w) pipeline \<Rightarrow> string \<Rightarrow> string \<Rightarrow> principal
     \<Rightarrow> ('s, 't, 'c, 'w) online_state \<Rightarrow> answer result option \<times> ('s, 't, 'c, 'w) online_state" where
  "answer_within E P trace_id question p st =
     (let (res, st') = online_answer P trace_id question p st
      in (if ae_deadline E st then None else Some res, st'))"

definition wired_runtime ::
    "('s, 't, 'c, 'w) agent_env \<Rightarrow> ('s, 't, 'c, 'w) pipeline \<Rightarrow> ('s, 't, 'c, 'w) online_state chat_llm \<Rightarrow> string
     \<Rightarrow> ('s, 't, 'c, 'w) online_state registry \<Rightarrow> ('s, 't, 'c, 'w) online_state agent_runtime" where
  "wired_runtime E P chat trace_id registry =
     \<lparr>ar_chat_llm = chat, ar_tools = registry,
      ar_critic = \<lparr>ck_llm = chat, ck_prompt_version = ''v1'', ck_max_evidence_chars = 6000\<rparr>,
      ar_budget = agent_budget (on_settings P), ar_allow_egress = se_agent_allow_egress (on_settings P),
      ar_include_trace = se_agent_include_trace (on_settings P), ar_prompt_version = ''v1'',
      ar_max_evidence_chars = 6000, ar_active_index_version = active_index_version P,
      ar_answer = online_answer P trace_id, ar_answer_within = answer_within E P trace_id,
      ar_pii_redaction_enabled = se_pii_redaction_enabled (on_settings P), ar_get_prompt = on_get_prompt P,
      ar_reader = ae_reader E, ar_exn_text = ae_exn_text E, ar_clock = ae_clock E\<rparr>"

definition build_agent_runtime ::
    "('s, 't, 'c, 'w) agent_env \<Rightarrow> ('s, 't, 'c, 'w) pipeline \<Rightarrow> ('s, 't, 'c, 'w) online_state chat_llm \<Rightarrow> string
     \<Rightarrow> ('s, 't, 'c, 'w) online_state agent_runtime option result" where
  "build_agent_runtime E P chat trace_id =
     (if \<not> se_agent_enabled (on_settings P) then Inr None
      else bind_result (build_tool_registry P (ae_deadline E) trace_id (ae_dump E) (ae_load E))
             (\<lambda>registry. Inr (Some (wired_runtime E P chat trace_id registry))))"

section \<open>What a turn relies on\<close>

lemma evaluate_world:
  assumes "evaluate get_prompt J ck question draft sources w = (x, w')"
  shows "w' = w \<or> (\<exists>ms ts y. cm_chat (ck_llm ck) ms ts w = (y, w'))"
  using assms by (auto simp: evaluate_def split: sum.splits option.splits prod.splits)

text \<open>
  \<open>J\<close> is an invariant of the world, \<open>V\<close> the index versions that may be active, \<open>K\<close> the calls the
  model may ask for, \<open>G\<close> the sources that tools may return and \<open>A\<close> the answers the pipeline may give.
\<close>

locale agent_host =
  fixes R :: "'w agent_runtime" and p :: principal and question :: string
    and J :: "'w \<Rightarrow> bool" and V :: "string \<Rightarrow> bool" and K :: "tool_call \<Rightarrow> bool"
    and G :: "source \<Rightarrow> bool" and A :: "answer \<Rightarrow> bool"
  assumes version: "J w \<Longrightarrow> ar_active_index_version R w = Inr iv \<Longrightarrow> V iv"
    and chat_keeps: "J w \<Longrightarrow> cm_chat (ar_chat_llm R) ms ts w = (x, w')
        \<Longrightarrow> J w' \<and> (\<forall>c. x = Some (Inr c) \<longrightarrow> (\<forall>call \<in> set (completion_tool_calls c). K call))"
    and critic_keeps: "J w \<Longrightarrow> cm_chat (ck_llm (ar_critic R)) ms ts w = (x, w') \<Longrightarrow> J w'"
    and execute_keeps: "J w \<Longrightarrow> V iv \<Longrightarrow> K call
        \<Longrightarrow> execute (ar_exn_text R) (jr_frepr (ar_reader R)) (ar_tools R) call p b (ar_allow_egress R) iv w = (y, w')
        \<Longrightarrow> J w' \<and> (\<forall>r. y = Some (Inr r) \<longrightarrow> (\<forall>s \<in> set (tr_sources r). G s))"
    and answer_keeps: "J w \<Longrightarrow> ar_answer R question p w = (z, w') \<Longrightarrow> J w' \<and> (\<forall>a. z = Inr a \<longrightarrow> A a)"
    and within_keeps: "J w \<Longrightarrow> ar_answer_within R question p w = (o', w') \<Longrightarrow> J w' \<and> (\<forall>a. o' = Some (Inr a) \<longrightarrow> A a)"
begin

definition hosted :: "'w turn \<Rightarrow> bool" where
  "hosted tn \<longleftrightarrow> J (tn_world tn) \<and> (\<forall>s \<in> evidence p (tn_steps tn). G s)"

definition fine :: "agent_answer \<Rightarrow> bool" where
  "fine a \<longleftrightarrow> (\<forall>c \<in> set (a_citations a). \<exists>s. G s \<and> c = citation_from_source s)
     \<or> (\<exists>ans. A ans \<and> a_citations a = a_citations ans)"

fun outcome_hosted :: "'w outcome \<Rightarrow> bool" where
  "outcome_hosted (Stopped s tn) = hosted tn"
| "outcome_hosted (Cancelled tn) = hosted tn"
| "outcome_hosted (Planner_failed tn) = hosted tn"
| "outcome_hosted (Raised e w) = J w"

fun progress_hosted :: "'w progress \<Rightarrow> bool" where
  "progress_hosted (Continue tn) = hosted tn"
| "progress_hosted (Done out) = outcome_hosted out"

lemma hosted_simps [simp]:
  "hosted (say ms tn) = hosted tn" "hosted (spend u tn) = hosted tn"
  "hosted (tn\<lparr>tn_draft := d\<rparr>) = hosted tn" "hosted (tn\<lparr>tn_verdict := v\<rparr>) = hosted tn"
  "hosted (tn\<lparr>tn_self_corrections := n\<rparr>) = hosted tn" "hosted (tn\<lparr>tn_tracker := t\<rparr>) = hosted tn"
  by (simp_all add: hosted_def say_def spend_def)

lemma hosted_world: "hosted tn \<Longrightarrow> J w \<Longrightarrow> hosted (tn\<lparr>tn_world := w\<rparr>)"
  by (simp add: hosted_def)

lemma hosted_step: "hosted tn \<Longrightarrow> st_tool_results s = [] \<Longrightarrow> hosted (add_step s tn)"
  by (simp add: hosted_def add_step_def)

lemma hosted_raised: "hosted tn \<Longrightarrow> progress_hosted (raised e tn)"
  by (simp add: raised_def hosted_def)

lemma run_tools_hosted:
  assumes "J w" "V iv" "\<forall>call \<in> set calls. K call" "run_tools R p b iv calls w = (x, w')"
  shows "J w' \<and> (\<forall>rs. x = Some (Inr rs) \<longrightarrow> (\<forall>r \<in> set rs. \<forall>s \<in> set (tr_sources r). G s))"
  using assms(1,3,4)
proof (induction calls arbitrary: w x w')
  case (Cons call calls)
  obtain y w1 where y: "execute (ar_exn_text R) (jr_frepr (ar_reader R)) (ar_tools R) call p b (ar_allow_egress R) iv w = (y, w1)"
    by fastforce
  have K: "K call" "\<forall>call \<in> set calls. K call" using Cons.prems(2) by simp_all
  note one = execute_keeps [OF Cons.prems(1) assms(2) K(1) y]
  show ?case
  proof (cases "\<exists>r. y = Some (Inr r)")
    case False
    then have "y = None \<or> (\<exists>e. y = Some (Inl e))" by (metis option.exhaust sum.exhaust)
    with Cons.prems(3) y have "w' = w1 \<and> (\<forall>rs. x \<noteq> Some (Inr rs))" by auto
    with one show ?thesis by auto
  next
    case True
    then obtain r where r: "y = Some (Inr r)" by blast
    obtain z w2 where z: "run_tools R p b iv calls w1 = (z, w2)" by fastforce
    note rest = Cons.IH [OF conjunct1 [OF one] K(2) z]
    have "w' = w2 \<and> (\<forall>rs. x = Some (Inr rs) \<longrightarrow> (\<exists>rs'. z = Some (Inr rs') \<and> rs = r # rs'))"
      using Cons.prems(3) y z r by (auto split: option.splits sum.splits)
    with one rest r show ?thesis by auto
  qed
qed auto

lemma act_step_hosted:
  assumes h: "hosted tn" and iv: "V iv" and calls: "\<forall>call \<in> set (completion_tool_calls c). K call"
  shows "progress_hosted (act_step R p iv started c tn)"
proof (cases "remaining_tool_calls (tn_tracker tn) \<le> 0")
  case True
  with h show ?thesis by (simp add: act_step_def)
next
  case False
  let ?calls = "slice_to (completion_tool_calls c) (remaining_tool_calls (tn_tracker tn))"
  obtain x w where run: "run_tools R p (tn_tracker tn) iv ?calls (tn_world tn) = (x, w)" by fastforce
  have K: "\<forall>call \<in> set ?calls. K call" using calls set_slice_to by metis
  have J: "J (tn_world tn)" using h by (simp add: hosted_def)
  note tools = run_tools_hosted [OF J iv K run]
  consider (cancelled) "x = None" | (raises) e where "x = Some (Inl e)" | (results) rs where "x = Some (Inr rs)"
    by (metis option.exhaust sum.exhaust)
  then show ?thesis
  proof cases
    case cancelled
    with run False tools h show ?thesis by (simp add: act_step_def Let_def hosted_world)
  next
    case raises
    with run False tools h show ?thesis by (simp add: act_step_def Let_def hosted_world hosted_raised)
  next
    case results
    with tools have "\<forall>s \<in> set (authorised_sources rs p). G s" by (auto simp: authorised_sources_def)
    with h tools have "hosted (add_step
        \<lparr>st_index = 0, st_kind = Act, st_thought = completion_text c, st_tool_calls = ?calls,
         st_tool_results = rs, st_draft = None, st_usage = cc_usage c,
         st_latency_ms = (ar_clock R w - started) * 1000\<rparr>
        (tn\<lparr>tn_world := w, tn_tracker := charge_tool_calls (int (length ?calls)) (tn_tracker tn),
            tn_ledger := snd (ledger_add (authorised_sources rs p) (tn_ledger tn))\<rparr>))"
      by (auto simp: hosted_def add_step_def)
    with run False results show ?thesis by (simp add: act_step_def Let_def)
  qed
qed

lemma critique_step_hosted:
  assumes h: "hosted tn"
  shows "progress_hosted (critique_step R question draft c tn)"
proof -
  obtain x w where run: "evaluate (ar_get_prompt R) (ar_reader R) (ar_critic R) question draft
      (ledger_sources (tn_ledger tn)) (tn_world tn) = (x, w)" by fastforce
  have "J (tn_world tn)" using h by (simp add: hosted_def)
  with evaluate_world [OF run] critic_keeps have J: "J w" by blast
  consider (cancelled) "x = None" | (raises) e where "x = Some (Inl e)" | (verdict) v u where "x = Some (Inr (v, u))"
    by (metis option.exhaust sum.exhaust prod.exhaust)
  then show ?thesis
  proof cases
    case cancelled
    with run h J show ?thesis by (simp add: critique_step_def hosted_world)
  next
    case raises
    with run h J show ?thesis by (simp add: critique_step_def hosted_world hosted_raised)
  next
    case verdict
    with run h J show ?thesis by (simp add: critique_step_def Let_def hosted_world hosted_step)
  qed
qed

lemma draft_step_hosted: "hosted tn \<Longrightarrow> progress_hosted (draft_step R question started c tn)"
  by (simp add: draft_step_def Let_def hosted_step critique_step_hosted)

lemma hosted_charged: "hosted tn \<Longrightarrow> J w \<Longrightarrow> hosted (charged tn w)"
  by (simp add: charged_def hosted_def)

lemma plan_step_hosted:
  assumes h: "hosted tn" and iv: "V iv"
  shows "progress_hosted (plan_step R question p iv specs tn)"
proof (cases "terminal_stop (ar_clock R (tn_world tn)) (tn_tracker tn)")
  case (Some s)
  with h show ?thesis by (simp add: plan_step_def)
next
  case None
  obtain x w where chat: "cm_chat (ar_chat_llm R) (tn_messages tn) (if specs = [] then None else Some specs) (tn_world tn)
      = (x, w)" by fastforce
  have "J (tn_world tn)" using h by (simp add: hosted_def)
  note kept = chat_keeps [OF this chat]
  have charged: "hosted (charged tn w)" by (rule hosted_charged [OF h conjunct1 [OF kept]])
  have tn: "tn\<lparr>tn_tracker := charge_step (tn_tracker tn)\<rparr>\<lparr>tn_world := w\<rparr> = charged tn w"
    by (simp add: charged_def)
  show ?thesis
  proof (cases "\<exists>c. x = Some (Inr c)")
    case True
    then obtain c where c: "x = Some (Inr c)" by blast
    have spent: "hosted (spend u (charged tn w))" for u using charged by simp
    have "\<forall>call \<in> set (completion_tool_calls c). K call" using kept c by blast
    with None chat c act_step_hosted [OF spent iv] draft_step_hosted [OF spent] tn show ?thesis
      by (simp add: plan_step_def Let_def)
  next
    case False
    with None chat charged tn show ?thesis
      by (auto simp: plan_step_def Let_def split: option.splits sum.splits)
  qed
qed

lemma new_turn_hosted: "J w \<Longrightarrow> hosted (new_turn R b started prompt w)"
  by (simp add: hosted_def new_turn_def)

lemma loop_hosted:
  assumes "J w" "V iv"
  shows "outcome_hosted (agent_loop R question p iv specs (new_turn R b started prompt w))"
proof (rule agent_loop_invariant [where I = hosted])
  show "hosted tn'" if "hosted tn" "plan_step R question p iv specs tn = Continue tn'" for tn tn'
    using plan_step_hosted [OF that(1) assms(2), of specs] that(2) by simp
  show "outcome_hosted out" if "hosted tn" "plan_step R question p iv specs tn = Done out" for tn out
    using plan_step_hosted [OF that(1) assms(2), of specs] that(2) by simp
qed (rule new_turn_hosted [OF assms(1)])

lemma fallback_fine:
  assumes "\<forall>ans. res = Inr ans \<longrightarrow> A ans"
    and "fallback_or_refuse R tn started trace_id reason stop sources u verdict res w = Inr a"
  shows "fine a"
  using assms
  by (cases res) (auto simp: fallback_or_refuse_def build_answer_def fine_def refused_answer_def)

lemma finalize_hosted:
  assumes h: "hosted tn" and ok: "turn_ok b p tn"
    and run: "finalize R trace_id question p started stop tn = (r, w)"
  shows "J w \<and> (\<forall>a. r = Inr a \<longrightarrow> fine a)"
proof -
  let ?sources = "filter (may_see p) (ledger_sources (tn_ledger tn))"
  let ?txt = "case tn_draft tn of None \<Rightarrow> [] | Some d \<Rightarrow> strip d"
  let ?citations = "if ?txt \<noteq> [] then resolve_source_citations ?txt ?sources True else []"
  have J: "J (tn_world tn)" using h by (simp add: hosted_def)
  show ?thesis
  proof (cases "?txt \<noteq> [] \<and> ?citations \<noteq> [] \<and> stop \<in> ANSWERABLE_STOPS")
    case True
    let ?base = "\<lparr>a_text = (if ar_pii_redaction_enabled R then redact_pii ?txt else ?txt), a_citations = ?citations,
        a_refused = False, a_refusal_reason = None, a_usage = tn_usage tn, a_trace_id = trace_id,
        a_index_version = [], a_latency_ms = 0, a_cached = False\<rparr>"
    have built: "build_answer R tn started ?base stop ?sources False (tn_verdict tn) None None (tn_world tn) = r"
        and w: "w = tn_world tn"
      using run [unfolded finalize_def Let_def if_P [OF True] prod.inject] by blast+
    have G: "G s" if "s \<in> set ?sources" for s
      using that h ok ledger_sources_in [of "evidence p (tn_steps tn)" "tn_ledger tn"]
      by (auto simp: turn_ok_def hosted_def)
    have cit: "?citations = resolve_source_citations ?txt ?sources True"
      by (rule if_P) (rule conjunct1 [OF True])
    have cited: "\<exists>s. G s \<and> c = citation_from_source s" if c: "c \<in> set ?citations" for c
    proof -
      obtain s where "s \<in> set ?sources" "c = citation_from_source s"
        using c [unfolded cit] by (rule source_citations_from [THEN bexE])
      with G show ?thesis by (intro exI [of _ s]) simp
    qed
    have "fine a" if r: "r = Inr a" for a
    proof -
      have "a_citations a = ?citations"
        using built [unfolded r] by (auto simp: build_answer_def split: if_splits)
      then show ?thesis unfolding fine_def by (intro disjI1 ballI cited) simp
    qed
    with J w show ?thesis by blast
  next
    case False
    obtain res v where res: "ar_answer R question p (tn_world tn) = (res, v)" by fastforce
    have fb: "fallback_or_refuse R tn started trace_id
          (if stop = BUDGET_EXHAUSTED then ''agent_budget_exhausted'' else ''agent_no_grounding'')
          (if stop = BUDGET_EXHAUSTED then stop else NO_GROUNDING)
          ?sources (tn_usage tn) (tn_verdict tn) res w = r" and v: "v = w"
      using run [unfolded finalize_def Let_def if_not_P [OF False] res prod.case prod.inject] by blast+
    have kept: "J w" "\<forall>ans. res = Inr ans \<longrightarrow> A ans" using answer_keeps [OF J res] v by simp_all
    have "fine a" if "r = Inr a" for a
      by (rule fallback_fine [OF kept(2) fb [unfolded that]])
    with kept(1) show ?thesis by blast
  qed
qed

lemma settle_hosted:
  assumes h: "outcome_hosted out" and ok: "outcome_ok b p out"
    and run: "settle R trace_id question p started out = (r, w)"
  shows "J w \<and> (\<forall>a. r = Inr a \<longrightarrow> fine a)"
proof (cases out)
  case (Stopped stop tn)
  with assms have "hosted tn" "turn_ok b p tn" "finalize R trace_id question p started stop tn = (r, w)"
    by (simp_all add: settle_def)
  then show ?thesis by (rule finalize_hosted)
next
  case (Cancelled tn)
  with assms have "hosted tn" "turn_ok b p tn" "finalize R trace_id question p started BUDGET_EXHAUSTED tn = (r, w)"
    by (simp_all add: settle_def)
  then show ?thesis by (rule finalize_hosted)
next
  case (Raised e v)
  with h run show ?thesis by (auto simp: settle_def)
next
  case (Planner_failed tn)
  have tn: "hosted tn" "turn_ok b p tn" using h ok Planner_failed by simp_all
  have J: "J (tn_world tn)" using tn(1) by (simp add: hosted_def)
  obtain x v where x: "ar_answer_within R question p (tn_world tn) = (x, v)" by fastforce
  note kept = within_keeps [OF J x]
  have late: "hosted (tn\<lparr>tn_world := v\<rparr>)" "turn_ok b p (tn\<lparr>tn_world := v\<rparr>)"
    using tn kept hosted_world by simp_all
  show ?thesis
  proof (cases x)
    case None
    with run Planner_failed x finalize_hosted [OF late] show ?thesis by (simp add: settle_def)
  next
    case (Some res)
    let ?ans = "fallback_or_refuse R tn started trace_id ''llm_unavailable'' ERROR
        (ledger_sources (tn_ledger tn)) (agent_usage R) None res v"
    show ?thesis
    proof (cases "?ans = Inl TimeoutError")
      case True
      with run Planner_failed x Some finalize_hosted [OF late] show ?thesis by (simp add: settle_def)
    next
      case False
      then have "?ans = r \<and> v = w"
        using run Planner_failed x Some by (auto simp: settle_def Let_def)
      then have a: "?ans = r" "v = w" by blast+
      have "fine a" if "r = Inr a" for a
        using fallback_fine [OF _ a(1) [unfolded that]] kept Some by blast
      with kept a(2) show ?thesis by blast
    qed
  qed
qed

lemma run_hosted:
  assumes J: "J w" and run: "agent_run R trace_id question p b w = (r, w')"
  shows "J w' \<and> (\<forall>a. r = Inr a \<longrightarrow> fine a)"
proof (cases "bind_result (ar_active_index_version R w) (\<lambda>iv.
    bind_result (plan_prompt R question (new_ledger (ar_max_evidence_chars R)) []) (\<lambda>prompt. Inr (iv, prompt)))")
  case (Inl e)
  with run J show ?thesis by (auto simp: agent_run_def Let_def)
next
  case (Inr ip)
  obtain iv prompt where ip: "ip = (iv, prompt)" by fastforce
  have "V iv"
    using Inr ip version [OF J] by (cases "ar_active_index_version R w"; cases "plan_prompt R question (new_ledger (ar_max_evidence_chars R)) []") auto
  from settle_hosted [OF loop_hosted [OF J this] agent_loop_ok] Inr ip run show ?thesis
    by (simp add: agent_run_def Let_def)
qed

end

section \<open>What a tool call leaves alone\<close>

text \<open>A property of the state that the tools and the tool cache keep.\<close>

lemma execute_keeps_prop:
  assumes tq: "rg_result_cache Rg = None \<or> rg_result_cache Rg = Some C"
    and get: "\<And>k w. Q w \<Longrightarrow> Q (snd (tq_get C k w))"
    and put: "\<And>k v ttl w. Q w \<Longrightarrow> startswith k ''tool:'' \<Longrightarrow> Q (tq_set C k v ttl w)"
    and tools: "\<And>n t a p b w. map_of (rg_tools Rg) n = Some t \<Longrightarrow> Q w \<Longrightarrow> Q (snd (tl_run t a p b w))"
    and Q: "Q w" and run: "execute exn_text frepr Rg call p b allow_egress iv w = (x, w')"
  shows "Q w'"
proof (cases "\<exists>t. admitted frepr Rg call allow_egress w t")
  case False
  with execute_rejected [OF this run] Q show ?thesis by simp
next
  case True
  then obtain t where t: "admitted frepr Rg call allow_egress w t" by blast
  let ?a = "tc_arguments call"
  let ?tq = "rg_result_cache Rg"
  obtain hit w1 where h: "(case ?tq of None \<Rightarrow> (None, w) | Some c \<Rightarrow> tool_cache_get c (tc_name call) ?a p iv w) = (hit, w1)"
    by fastforce
  have 1: "Q w1"
    using tq h Q get by (auto simp: tool_cache_get_def split: if_splits prod.splits option.splits) (metis snd_conv)+
  obtain y w2 where y: "tl_run t ?a p b w1 = (y, w2)" by fastforce
  have 2: "Q w2"
    using tools [of "tc_name call" t w1 ?a p b] t 1 y by (simp add: admitted_def)
  have 3: "Q (tool_cache_set C n a p r iv w2)" for n a r
    using put [OF 2, of "tool_result_cache_key (tq_sha C) (tq_frepr C) n a p iv"] 2
    by (simp add: tool_cache_set_def tool_result_cache_key_def startswith_def)
  from run execute_admitted [OF t] h y tq 1 2 3 show ?thesis
    by (auto simp: execute_valid_def split: option.splits sum.splits if_splits)
qed

lemma standard_run_state:
  "t \<in> standard_tools P deadline trace_id \<Longrightarrow> snd (tl_run t a p b st) = st"
  using retrieval_run_state [of P deadline trace_id a p b st]
  by (auto simp: retrieval_tool_def web_search_tool_def graph_query_tool_def)

lemma answer_dense:
  assumes "online_answer P trace_id q p st = (r, st')"
  shows "ol_dense st' = ol_dense st"
proof -
  have store: "ol_dense (store_answer P key scope q a s) = ol_dense s" for key scope a s
    by (simp add: store_answer_def Let_def)
  have look: "lookup_cache P key scope q s = (x, s') \<Longrightarrow> ol_dense s' = ol_dense s" for key scope s x s'
    by (auto simp: lookup_cache_def Let_def split: if_splits option.splits prod.splits)
  have gen: "online_generate P trace_id q p cfg iv key scope s = (x, s') \<Longrightarrow> ol_dense s' = ol_dense s"
    for cfg iv key scope s x s'
    using store by (auto simp: online_generate_def Let_def split: if_splits sum.splits prod.splits)
  show ?thesis
    using assms look gen
    by (auto simp: online_answer_def Let_def split: sum.splits option.splits prod.splits)
qed

section \<open>A deployment hosts the agent, whatever its cache\<close>

abbreviation host_cache ::
    "('s, 't, 'c, 'w) agent_env \<Rightarrow> ('s, 't, 'c, 'w) pipeline \<Rightarrow> ('s, 't, 'c, 'w) online_state tool_cache" where
  "host_cache E P \<equiv> pipeline_tool_cache P (ae_dump E) (ae_load E)"

abbreviation host_registry ::
    "('s, 't, 'c, 'w) agent_env \<Rightarrow> ('s, 't, 'c, 'w) pipeline \<Rightarrow> string
     \<Rightarrow> ('s, 't, 'c, 'w) online_state registry" where
  "host_registry E P trace_id \<equiv>
     \<lparr>rg_tools = [(''retrieval_search'', retrieval_tool P (ae_deadline E) trace_id),
                  (''web_search'', web_search_tool), (''graph_query'', graph_query_tool)],
      rg_result_cache = (if se_agent_tool_cache_enabled (on_settings P) then Some (host_cache E P) else None)\<rparr>"

text \<open>
  What is asked of the surroundings of a turn: the libraries are faithful on the texts \<open>T\<close> and the
  floats \<open>F\<close> that the caches hash and print; these cover the question and every call that the
  model makes; a model changes nothing but the world outside the stores.
\<close>

definition hosting ::
    "('s, 't, 'c, 'w) agent_env \<Rightarrow> ('s, 't, 'c, 'w) pipeline
     \<Rightarrow> ('s, 't, 'c, 'w) online_state chat_llm \<Rightarrow> string set \<Rightarrow> real set \<Rightarrow> string \<Rightarrow> principal \<Rightarrow> string \<Rightarrow> bool" where
  "hosting E P chat T F iv p question \<longleftrightarrow>
     faithful_libs P T F \<and> tool_libs (host_cache E P) T F \<and> 0 \<le> on_semantic_max P
     \<and> covered P T F p iv (Some (cache_params (config_of (on_settings P))))
     \<and> key_text P question p iv (Some (cache_params (config_of (on_settings P)))) \<in> T
     \<and> (\<forall>ms ts st x st'. cm_chat chat ms ts st = (x, st') \<longrightarrow>
          (\<exists>w. st' = st\<lparr>ol_world := w\<rparr>)
          \<and> (\<forall>c. x = Some (Inr c) \<longrightarrow> (\<forall>call \<in> set (completion_tool_calls c).
                tool_covered (host_cache E P) T F (tc_name call) (tc_arguments call) p iv)))"

text \<open>
  What a caller may be shown: passages and chunks with an access list that lets the caller in. The
  answers of the agent that stand in the cache show no more than that to the callers of their keys.
\<close>

definition visible_to :: "principal \<Rightarrow> citation list \<Rightarrow> bool" where
  "visible_to p cs \<longleftrightarrow> (\<forall>c \<in> set cs.
     (\<exists>s acl. src_acl s = Some acl \<and> is_allowed p acl \<and> c = citation_from_source s)
     \<or> (\<exists>h. is_allowed p (ch_acl (sc_chunk h)) \<and> c = citation_from_scored h))"

definition agent_inv ::
    "('s, 't, 'c, 'w) agent_env \<Rightarrow> ('s, 't, 'c, 'w) pipeline \<Rightarrow> ('c \<Rightarrow> string \<Rightarrow> string \<Rightarrow> bool)
     \<Rightarrow> string set \<Rightarrow> real set \<Rightarrow> ('s, 't, 'c, 'w) online_state \<Rightarrow> bool" where
  "agent_inv E P stored T F st \<longleftrightarrow> (\<forall>k v. stored (ol_cache st) k v \<longrightarrow> agent_key P T F k \<longrightarrow>
     (\<exists>q p iv pv ps a. k = cache_key (on_sha P) (on_frepr P) q p iv pv (Some ps) \<and> covered_at P T F q p iv pv ps
        \<and> v = ae_dump_answer E a \<and> visible_to p (a_citations a)))"

lemma agent_key_not_tool: "hex_digest (on_sha P) \<Longrightarrow> agent_key P T F k \<Longrightarrow> \<not> startswith k ''tool:''"
  using cache_key_not_tool by (auto simp: agent_key_def)

lemma agent_inv_kept:
  assumes "agent_inv E P stored T F st"
    and "\<And>k v. stored (ol_cache st') k v \<Longrightarrow> agent_key P T F k \<Longrightarrow> stored (ol_cache st) k v"
  shows "agent_inv E P stored T F st'"
  using assms unfolding agent_inv_def by blast

text \<open>The three clients of the cache find only entries made for the callers of their keys.\<close>

definition caches_ok ::
    "('s, 't, 'c, 'w) agent_env \<Rightarrow> ('s, 't, 'c, 'w) pipeline \<Rightarrow> ('c \<Rightarrow> string \<Rightarrow> string \<Rightarrow> bool)
     \<Rightarrow> string set \<Rightarrow> real set \<Rightarrow> string \<Rightarrow> ('s, 't, 'c, 'w) online_state \<Rightarrow> bool" where
  "caches_ok E P stored T F iv st \<longleftrightarrow>
     online_inv P stored T F st
     \<and> tool_inv (host_cache E P) (\<lambda>st. stored (ol_cache st)) T F passages_for st
     \<and> agent_inv E P stored T F st
     \<and> active_index_version P st = Inr iv"

lemma caches_ok_world: "caches_ok E P stored T F iv (st\<lparr>ol_world := w\<rparr>) = caches_ok E P stored T F iv st"
  by (simp add: caches_ok_def online_inv_def tool_inv_def agent_inv_def active_index_version_def)

lemma chat_caches_ok:
  assumes "hosting E P chat T F iv p question" "caches_ok E P stored T F iv st" "cm_chat chat ms ts st = (x, st')"
  shows "caches_ok E P stored T F iv st' \<and> (\<forall>c. x = Some (Inr c) \<longrightarrow> (\<forall>call \<in> set (completion_tool_calls c).
     tool_covered (host_cache E P) T F (tc_name call) (tc_arguments call) p iv))"
  using assms unfolding hosting_def by (metis caches_ok_world)

context online begin

lemma answer_caches_ok:
  assumes host: "hosting E P chat T F iv p question" and ok: "caches_ok E P stored T F iv st"
    and run: "online_answer P trace_id question p st = (z, st')"
  shows "caches_ok E P stored T F iv st' \<and> (\<forall>a. z = Inr a \<longrightarrow> grounded_for p a)"
proof -
  have libs: "faithful_libs P T F" using host by (simp add: hosting_def)
  have 1: "online_inv P stored T F st' \<and> (\<forall>a. z = Inr a \<longrightarrow> grounded_for p a)"
    using answer_ok [OF libs _ _ _ _ _ run] host ok by (auto simp: hosting_def caches_ok_def)
  have sha: "hex_digest (on_sha P)" using libs by (simp add: faithful_libs_def)
  have version: "active_index_version P st = Inr iv" using ok by (simp add: caches_ok_def)
  have cov: "covered P T F p iv (Some (cache_params (config_of (on_settings P))))"
      "key_text P question p iv (Some (cache_params (config_of (on_settings P)))) \<in> T"
    using host by (simp_all add: hosting_def)
  have foreign: "stored (ol_cache st) k v"
    if "stored (ol_cache st') k v" "startswith k ''tool:'' \<or> agent_key P T F k" for k v
  proof (rule answer_foreign [OF version run that(1)])
    show "k \<noteq> cache_key (on_sha P) (on_frepr P) question p iv (on_prompt_version P)
        (Some (cache_params (config_of (on_settings P))))"
      using that(2) cache_key_not_tool [OF sha] agent_key_apart [OF libs cov cache_params_no_agent] by metis
  qed
  have 2: "tool_inv (host_cache E P) (\<lambda>st. stored (ol_cache st)) T F passages_for st'"
    using ok foreign unfolding caches_ok_def tool_inv_def by blast
  have 3: "agent_inv E P stored T F st'"
    using ok agent_inv_kept [of E P stored T F st st'] foreign unfolding caches_ok_def by blast
  have "active_index_version P st' = Inr iv"
    using ok answer_dense [OF run] by (simp add: caches_ok_def active_index_version_def)
  with 1 2 3 show ?thesis by (simp add: caches_ok_def)
qed

lemma execute_caches_ok:
  assumes host: "hosting E P chat T F iv p question" and ok: "caches_ok E P stored T F iv st"
    and cov: "tool_covered (host_cache E P) T F (tc_name call) (tc_arguments call) p iv"
    and run: "execute exn_text frepr (host_registry E P trace_id) call p b allow_egress iv st = (y, st')"
  shows "caches_ok E P stored T F iv st' \<and> (\<forall>r. y = Some (Inr r) \<longrightarrow> passages_for p r)"
proof -
  let ?Rg = "host_registry E P trace_id"
  let ?tools = "standard_tools P (ae_deadline E) trace_id"
  have tq: "rg_result_cache ?Rg = None \<or> rg_result_cache ?Rg = Some (host_cache E P)" by simp
  have reg: "snd ` set (rg_tools ?Rg) \<subseteq> ?tools" by simp
  have libs: "tool_libs (host_cache E P) T F" using host by (simp add: hosting_def)
  have inv: "tool_inv (host_cache E P) (\<lambda>st. stored (ol_cache st)) T F passages_for st"
    using ok by (simp add: caches_ok_def)
  have 1: "tool_inv (host_cache E P) (\<lambda>st. stored (ol_cache st)) T F passages_for st'
      \<and> (\<forall>r. y = Some (Inr r) \<longrightarrow> passages_for p r)"
    by (rule standard.execute_ok [OF reg tq libs inv cov run])
  let ?Q = "\<lambda>s. ol_dense s = ol_dense st \<and> ol_semantic s = ol_semantic st
      \<and> (\<forall>k v. stored (ol_cache s) k v \<longrightarrow> \<not> startswith k ''tool:'' \<longrightarrow> stored (ol_cache st) k v)"
  have "?Q st'"
  proof (rule execute_keeps_prop [where Q = ?Q, OF tq _ _ _ _ run])
    show "?Q (snd (tq_get (host_cache E P) k s))" if "?Q s" for k s
      using that kv.get_shrinks [of k "ol_cache s"]
      by (cases "on_get P k (ol_cache s)") (auto simp: pipeline_tool_cache_def)
    show "?Q (tq_set (host_cache E P) k v ttl s)" if "?Q s" "startswith k ''tool:''" for k v ttl s
      using that kv.set_stored [of k v ttl "ol_cache s"] by (auto simp: pipeline_tool_cache_def)
    show "?Q (snd (tl_run t a q c s))" if "map_of (rg_tools ?Rg) n = Some t" "?Q s" for n t a q c s
    proof -
      have "t \<in> ?tools" using that(1) by (auto split: if_splits)
      from standard_run_state [OF this] that(2) show ?thesis by simp
    qed
  qed simp
  then have Q: "ol_dense st' = ol_dense st" "ol_semantic st' = ol_semantic st"
      "\<And>k v. stored (ol_cache st') k v \<Longrightarrow> \<not> startswith k ''tool:'' \<Longrightarrow> stored (ol_cache st) k v"
    by blast+
  have tools: "entry_ok P T F k v" if "startswith k ''tool:''" for k v
    using that by (simp add: entry_ok_def)
  have inv: "online_inv P stored T F st" using ok by (simp add: caches_ok_def)
  have "entry_ok P T F k v" if "stored (ol_cache st') k v" for k v
    using inv tools [of k v] Q(3) [OF that] unfolding online_inv_def by blast
  with inv Q(2) have 2: "online_inv P stored T F st'"
    by (simp add: online_inv_def)
  have 4: "active_index_version P st' = Inr iv"
    using ok Q(1) by (simp add: caches_ok_def active_index_version_def)
  have "hex_digest (on_sha P)" using host by (simp add: hosting_def faithful_libs_def)
  then have 3: "agent_inv E P stored T F st'"
    using ok agent_inv_kept [of E P stored T F st st'] agent_key_not_tool Q(3) unfolding caches_ok_def by blast
  from 1 2 3 4 show ?thesis by (simp add: caches_ok_def)
qed

end

sublocale online \<subseteq> deployed: agent_host "wired_runtime E P chat trace_id (host_registry E P trace_id)" p question
    "\<lambda>st. hosting E P chat T F iv p question \<and> caches_ok E P stored T F iv st" "(=) iv"
    "\<lambda>call. tool_covered (host_cache E P) T F (tc_name call) (tc_arguments call) p iv"
    "\<lambda>s. \<exists>a. src_acl s = Some a \<and> is_allowed p a" "grounded_for p"
  for E :: "('s, 't, 'c, 'w) agent_env" and chat trace_id p question T F iv
proof unfold_locales
  let ?R = "wired_runtime E P chat trace_id (host_registry E P trace_id)"
  let ?J = "\<lambda>st. hosting E P chat T F iv p question \<and> caches_ok E P stored T F iv st"
  let ?K = "\<lambda>call. tool_covered (host_cache E P) T F (tc_name call) (tc_arguments call) p iv"
  show "iv = v" if "?J st" "ar_active_index_version ?R st = Inr v" for st v
    using that by (simp add: wired_runtime_def caches_ok_def)
  show "?J st' \<and> (\<forall>c. x = Some (Inr c) \<longrightarrow> (\<forall>call \<in> set (completion_tool_calls c). ?K call))"
    if "?J st" "cm_chat (ar_chat_llm ?R) ms ts st = (x, st')" for st ms ts x st'
    using that chat_caches_ok [of E P chat T F iv p question stored st ms ts x st'] by (simp add: wired_runtime_def)
  show "?J st'" if "?J st" "cm_chat (ck_llm (ar_critic ?R)) ms ts st = (x, st')" for st ms ts x st'
    using that chat_caches_ok [of E P chat T F iv p question stored st ms ts x st'] by (simp add: wired_runtime_def)
  show "?J st' \<and> (\<forall>r. y = Some (Inr r) \<longrightarrow> (\<forall>s \<in> set (tr_sources r). \<exists>a. src_acl s = Some a \<and> is_allowed p a))"
    if J: "?J st" and v: "iv = v" and K: "?K call"
      and run: "execute (ar_exn_text ?R) (jr_frepr (ar_reader ?R)) (ar_tools ?R) call p b (ar_allow_egress ?R) v st = (y, st')"
    for st v call b y st'
  proof -
    have "ar_tools ?R = host_registry E P trace_id" by (simp add: wired_runtime_def)
    from execute_caches_ok [OF conjunct1 [OF J] conjunct2 [OF J] K run [unfolded this v [symmetric]]] J
    show ?thesis by (auto simp: passages_for_def)
  qed
  show "?J st' \<and> (\<forall>a. z = Inr a \<longrightarrow> grounded_for p a)"
    if "?J st" "ar_answer ?R question p st = (z, st')" for st z st'
    using that answer_caches_ok [of E chat T F iv p question st trace_id z st'] by (simp add: wired_runtime_def)
  show "?J st' \<and> (\<forall>a. y = Some (Inr a) \<longrightarrow> grounded_for p a)"
    if "?J st" "ar_answer_within ?R question p st = (y, st')" for st y st'
    using that answer_caches_ok [of E chat T F iv p question st trace_id _ st']
    by (auto simp: wired_runtime_def answer_within_def split: prod.splits if_splits)
qed


text \<open>A planner that is down, over the example deployment.\<close>

definition example_env :: "(unit, unit, mem_cache, nat) agent_env" where
  "example_env =
     \<lparr>ae_deadline = (\<lambda>st. False), ae_dump = (\<lambda>r. []), ae_load = (\<lambda>v. Inl (ValueError ''invalid JSON'')),
      ae_dump_answer = (\<lambda>a. []), ae_load_answer = (\<lambda>v. Inl (ValueError ''invalid JSON'')),
      ae_reader = \<lparr>jr_loads = (\<lambda>s. Inl (ValueError s)), jr_float = (\<lambda>s. Inl (ValueError s)), jr_frepr = (\<lambda>x. ''0.0'')\<rparr>,
      ae_exn_text = (\<lambda>e. ''error''), ae_clock = (\<lambda>st. 0)\<rparr>"

definition example_planner :: "(unit, unit, mem_cache, nat) online_state chat_llm" where
  "example_planner =
     \<lparr>cm_model_name = ''m'',
      cm_chat = (\<lambda>ms ts st. (Some (Inl (RuntimeError ''down'')), st\<lparr>ol_world := Suc (ol_world st)\<rparr>))\<rparr>"

lemma example_hosting:
  "hosting example_env (in_memory example_pipeline) example_planner example_texts {1} ''v1'' example_caller ''what is it''"
proof -
  have C: "tq_sha (host_cache example_env (in_memory example_pipeline)) = on_sha (in_memory example_pipeline)"
      "tq_frepr (host_cache example_env (in_memory example_pipeline)) = on_frepr (in_memory example_pipeline)"
      "tq_load (host_cache example_env (in_memory example_pipeline)) = (\<lambda>v. Inl (ValueError ''invalid JSON''))"
    by (simp_all add: pipeline_tool_cache_def example_env_def)
  have P: "on_settings (in_memory example_pipeline) = default_settings" "0 \<le> on_semantic_max (in_memory example_pipeline)"
    by (simp_all add: in_memory_def example_pipeline_def)
  have "tool_libs (host_cache example_env (in_memory example_pipeline)) example_texts {1}"
    using example_libs by (simp add: tool_libs_def C faithful_libs_def)
  moreover have "key_text (in_memory example_pipeline) ''what is it'' example_caller ''v1'' example_params \<in> example_texts"
    by (simp add: example_texts_def)
  ultimately show ?thesis
    using example_libs example_covered P by (auto simp: hosting_def example_planner_def)
qed

lemma example_caches_ok: "caches_ok example_env (in_memory example_pipeline) memory_stored example_texts {1} ''v1'' example_state"
proof -
  have "hex_digest example_sha"
    by (auto simp: hex_digest_def example_sha_def)
  have "agent_inv example_env (in_memory example_pipeline) memory_stored example_texts {1} example_state"
    unfolding agent_inv_def
  proof (intro allI impI)
    fix k v
    assume "memory_stored (ol_cache example_state) k v" "agent_key (in_memory example_pipeline) example_texts {1} k"
    then have key: "agent_key (in_memory example_pipeline) example_texts {1}
        (cache_key example_sha (\<lambda>x. ''1.0'') ''what is it'' example_caller ''v1'' ''v1'' example_params)"
      by (simp add: example_state_def memory_stored_def split: if_splits)
    have text_in: "key_text (in_memory example_pipeline) ''what is it'' example_caller ''v1'' example_params \<in> example_texts"
      by (simp add: example_texts_def)
    have fields: "on_sha (in_memory example_pipeline) = example_sha" "on_frepr (in_memory example_pipeline) = (\<lambda>x. ''1.0'')"
        "on_prompt_version (in_memory example_pipeline) = ''v1''"
      by (simp_all add: in_memory_def example_pipeline_def)
    note apart = agent_key_apart [OF example_libs example_covered text_in cache_params_no_agent key, unfolded fields]
    then have False by blast
    then show "\<exists>q p iv pv ps a. k = cache_key (on_sha (in_memory example_pipeline)) (on_frepr (in_memory example_pipeline)) q p iv pv (Some ps)
        \<and> covered_at (in_memory example_pipeline) example_texts {1} q p iv pv ps
        \<and> v = ae_dump_answer example_env a \<and> visible_to p (a_citations a)" ..
  qed
  moreover from \<open>hex_digest example_sha\<close> have "tool_inv (host_cache example_env (in_memory example_pipeline)) (\<lambda>st. memory_stored (ol_cache st)) example_texts {1}
      passages_for example_state"
    using cache_key_not_tool by (auto simp: tool_inv_def example_state_def memory_stored_def split: if_splits)
  moreover have "active_index_version (in_memory example_pipeline) example_state = Inr ''v1''"
    by (simp add: active_index_version_def in_memory_def example_pipeline_def opt_or_def str_or_def)
  ultimately show ?thesis using example_inv by (simp add: caches_ok_def)
qed


end
