(* ===== verification/Remote.thy ===== *)
theory Remote
  imports Hybrid Calls PyVal
begin

text \<open>
  The remote stores: \<open>src/rag/vectordb/qdrant.py\<close> and \<open>src/rag/lexical/opensearch.py\<close>. What they
  send and how they read what comes back is modelled; the servers behind the client libraries are
  arguments. \<open>qd_serves\<close> and \<open>os_serves\<close> state what their documentation promises of a filtered
  search. Both stores then keep the search contract \<open>acl_search\<close>, alone and side by side.
\<close>

section \<open>Reading JSON values\<close>

text \<open>\<open>d.get(k, alt)\<close>\<close>

definition get_default :: "json_dict \<Rightarrow> string \<Rightarrow> json \<Rightarrow> json" where
  "get_default d k alt = (case map_of d k of None \<Rightarrow> alt | Some v \<Rightarrow> v)"

text \<open>\<open>int(text)\<close>: white space around, a sign, digits with single underscores between them.\<close>

definition int_of_str :: "string \<Rightarrow> int result" where
  "int_of_str t =
     (let s = strip t;
          sign = (if take 1 s = ''-'' then -1 else 1);
          ds = (if take 1 s = ''-'' \<or> take 1 s = ''+'' then drop 1 s else s)
      in if list_all (\<lambda>part. part \<noteq> [] \<and> list_all py_digit part) (split_char (CHR ''_'') ds)
         then Inr (sign * int (read_nat (filter py_digit ds)))
         else Inl (ValueError (''invalid literal for int() with base 10: '' @ repr_str t)))"

fun py_int :: "json \<Rightarrow> int result" where
  "py_int (JInt i) = Inr i"
| "py_int (JBool b) = Inr (if b then 1 else 0)"
| "py_int (JFloat x) = Inr (if x < 0 then - \<lfloor>- x\<rfloor> else \<lfloor>x\<rfloor>)"
| "py_int (JStr s) = int_of_str s"
| "py_int j = Inl (TypeError (''int() argument must be a string, a bytes-like object or a real number, not ''
     @ repr_str (type_name j)))"

definition str_field :: "(real \<Rightarrow> string) \<Rightarrow> json_dict \<Rightarrow> string \<Rightarrow> string \<Rightarrow> string" where
  "str_field frepr d k alt = py_str frepr (get_default d k (JStr alt))"

text \<open>\<open>frozenset(d.get("allow_groups") or ())\<close>; the model accepts strings only.\<close>

definition check_hash :: "json \<Rightarrow> json result" where
  "check_hash j = (if hashable j then Inr j else Inl (TypeError (''unhashable type: '' @ repr_str (type_name j))))"

fun as_str :: "json \<Rightarrow> string result" where
  "as_str (JStr s) = Inr s"
| "as_str j = Inl (ValueError ''Input should be a valid string'')"

definition read_groups :: "json_dict \<Rightarrow> string set result" where
  "read_groups d =
     bind_result (py_iter (get_or d ''allow_groups'' (JList []))) (\<lambda>js.
     bind_result (map_result check_hash js) (\<lambda>js.
     bind_result (map_result as_str js) (\<lambda>gs. Inr (set gs))))"

text \<open>\<open>dict(value)\<close>: a dictionary, or a sequence of pairs whose keys are strings.\<close>

definition read_pair :: "json \<Rightarrow> (string \<times> json) result" where
  "read_pair j =
     bind_result (py_iter j) (\<lambda>kv.
       case kv of
         [k, v] \<Rightarrow> bind_result (check_hash k) (\<lambda>k. bind_result (as_str k) (\<lambda>s. Inr (s, v)))
       | _ \<Rightarrow> Inl (ValueError ''dictionary update sequence element has the wrong length''))"

fun py_dict :: "json \<Rightarrow> json_dict result" where
  "py_dict (JDict d) = Inr d"
| "py_dict j = bind_result (py_iter j) (\<lambda>js. bind_result (map_result read_pair js) (\<lambda>kvs.
     Inr (fold (\<lambda>(k, v). AList.update k v) kvs [])))"

fun read_model :: "json option \<Rightarrow> string option result" where
  "read_model None = Inr None"
| "read_model (Some JNull) = Inr None"
| "read_model (Some j) = bind_result (as_str j) (\<lambda>s. Inr (Some s))"

text \<open>
  What \<open>_from_payload\<close> and \<open>_from_source\<close> share. An ordinal is a natural number in this model, so
  a negative one, which no chunk has, is rejected.
\<close>

definition read_chunk :: "(real \<Rightarrow> string) \<Rightarrow> string \<Rightarrow> json_dict \<Rightarrow> chunk result" where
  "read_chunk frepr point_id d =
     bind_result (py_int (get_default d ''ordinal'' (JInt 0))) (\<lambda>ordinal.
     bind_result (py_int (get_default d ''span_start'' (JInt 0))) (\<lambda>span_start.
     bind_result (py_int (get_default d ''span_end'' (JInt 0))) (\<lambda>span_end.
     bind_result (read_groups d) (\<lambda>groups.
     bind_result (py_dict (get_or d ''metadata'' (JDict []))) (\<lambda>metadata.
     bind_result (read_model (map_of d ''embedding_model'')) (\<lambda>model.
     if ordinal < 0 then Inl (ValueError ''negative ordinal'')
     else Inr
       \<lparr>ch_chunk_id = str_field frepr d ''chunk_id'' point_id, ch_doc_id = str_field frepr d ''doc_id'' [],
        ch_ordinal = nat ordinal, ch_text = str_field frepr d ''text'' [], ch_span = (span_start, span_end),
        ch_acl = \<lparr>acl_tenant = str_field frepr d ''tenant'' [], acl_allow_groups = groups,
                  acl_classification = str_field frepr d ''classification'' ''internal''\<rparr>,
        ch_index_version = str_field frepr d ''index_version'' [], ch_embedding_model = model,
        ch_metadata = metadata\<rparr>))))))"

definition from_payload :: "(real \<Rightarrow> string) \<Rightarrow> string \<Rightarrow> json_dict \<Rightarrow> chunk result" where
  "from_payload = read_chunk"

definition from_source :: "(real \<Rightarrow> string) \<Rightarrow> string \<Rightarrow> json_dict \<Rightarrow> chunk result" where
  "from_source = read_chunk"

definition groups_json :: "string set \<Rightarrow> json" where
  "groups_json gs = JList (map JStr (sorted_list_of_set gs))"

definition model_json :: "string option \<Rightarrow> json" where
  "model_json m = (case m of None \<Rightarrow> JNull | Some s \<Rightarrow> JStr s)"

definition to_payload :: "chunk \<Rightarrow> json_dict" where
  "to_payload c =
     [(''chunk_id'', JStr (ch_chunk_id c)), (''doc_id'', JStr (ch_doc_id c)), (''ordinal'', JInt (int (ch_ordinal c))),
      (''text'', JStr (ch_text c)), (''span_start'', JInt (fst (ch_span c))), (''span_end'', JInt (snd (ch_span c))),
      (''tenant'', JStr (acl_tenant (ch_acl c))), (''allow_groups'', groups_json (acl_allow_groups (ch_acl c))),
      (''classification'', JStr (acl_classification (ch_acl c))), (''index_version'', JStr (ch_index_version c)),
      (''embedding_model'', model_json (ch_embedding_model c)), (''metadata'', JDict (ch_metadata c))]"

definition to_source :: "chunk \<Rightarrow> json_dict" where
  "to_source c =
     [(''chunk_id'', JStr (ch_chunk_id c)), (''doc_id'', JStr (ch_doc_id c)), (''ordinal'', JInt (int (ch_ordinal c))),
      (''text'', JStr (ch_text c)), (''span_start'', JInt (fst (ch_span c))), (''span_end'', JInt (snd (ch_span c))),
      (''tenant'', JStr (acl_tenant (ch_acl c))), (''classification'', JStr (acl_classification (ch_acl c))),
      (''index_version'', JStr (ch_index_version c)), (''embedding_model'', model_json (ch_embedding_model c)),
      (''metadata'', JDict (ch_metadata c))]
     @ (if acl_allow_groups (ch_acl c) = {} then []
        else [(''allow_groups'', groups_json (acl_allow_groups (ch_acl c)))])"

text \<open>\<open>name.rsplit(sep, 1)\<close>: the text before and after the last occurrence of the separator.\<close>

fun rsplit_once :: "string \<Rightarrow> string \<Rightarrow> (string \<times> string) option" where
  "rsplit_once sep [] = None"
| "rsplit_once sep (c # cs) =
     (case rsplit_once sep cs of
        Some (a, b) \<Rightarrow> Some (c # a, b)
      | None \<Rightarrow> if startswith (c # cs) sep then Some ([], drop (length sep) (c # cs)) else None)"

definition prefix_of :: "string \<Rightarrow> string" where
  "prefix_of name = (case rsplit_once ''__'' name of None \<Rightarrow> name | Some (a, b) \<Rightarrow> a)"

text \<open>The physical name of a version: \<open>collection_for\<close> and \<open>index_for\<close>.\<close>

definition versioned :: "string \<Rightarrow> string \<Rightarrow> string option \<Rightarrow> string" where
  "versioned name prefix iv =
     (case iv of None \<Rightarrow> name | Some v \<Rightarrow> if v = [] then name else prefix @ ''__'' @ v)"

section \<open>Qdrant\<close>

text \<open>The client's models of filters, points and alias operations.\<close>

datatype qd_match = MatchValue string | MatchAny "string list"

datatype qd_condition = FieldCondition string qd_match | IsEmptyCondition string

record qd_filter =
  qf_must :: "qd_condition list"
  qf_conditions :: "qd_condition list"
  qf_min_count :: nat

record qd_point =
  qp_id :: string
  qp_vector :: "real list"
  qp_payload :: json_dict

record qd_hit =
  qh_id :: string
  qh_payload :: "json_dict option"
  qh_score :: real

datatype alias_operation = DeleteAlias string | CreateAlias string string

record 's qd_client =
  qc_get_collections :: "('s, string list) call"
  qc_create_collection :: "string \<Rightarrow> int \<Rightarrow> ('s, unit) call"
  qc_create_payload_index :: "string \<Rightarrow> string \<Rightarrow> ('s, unit) call"
  qc_upsert :: "string \<Rightarrow> qd_point list \<Rightarrow> ('s, unit) call"
  qc_delete :: "string \<Rightarrow> string list \<Rightarrow> ('s, unit) call"
  qc_query_points :: "string \<Rightarrow> real list \<Rightarrow> int \<Rightarrow> qd_filter \<Rightarrow> 's \<Rightarrow> qd_hit list result"
  qc_get_aliases :: "'s \<Rightarrow> (string \<times> string) list result"
  qc_update_aliases :: "alias_operation list \<Rightarrow> ('s, unit) call"
  qc_count :: "string \<Rightarrow> 's \<Rightarrow> int result"

record 's qdrant =
  qd_collection :: string
  qd_prefix :: string
  qd_dimensions :: int
  qd_client :: "'s qd_client"
  qd_uuid5 :: "string \<Rightarrow> string"
  qd_frepr :: "real \<Rightarrow> string"

record 's qdrant_state =
  qs_aliases :: "(string \<times> string) list"
  qs_server :: 's

definition new_qdrant :: "string \<Rightarrow> int \<Rightarrow> 's qd_client \<Rightarrow> (string \<Rightarrow> string) \<Rightarrow> (real \<Rightarrow> string) \<Rightarrow> 's qdrant" where
  "new_qdrant collection dimensions client uuid5 frepr =
     \<lparr>qd_collection = collection, qd_prefix = prefix_of collection, qd_dimensions = dimensions,
      qd_client = client, qd_uuid5 = uuid5, qd_frepr = frepr\<rparr>"

definition qd_collection_for :: "'s qdrant \<Rightarrow> string option \<Rightarrow> string" where
  "qd_collection_for Q iv = versioned (qd_collection Q) (qd_prefix Q) iv"

definition on_server :: "('s, 'a) call \<Rightarrow> ('s qdrant_state, 'a) call" where
  "on_server m st = (let (r, s) = m (qs_server st) in (r, st\<lparr>qs_server := s\<rparr>))"

definition ensure_collection :: "'s qdrant \<Rightarrow> ('s, unit) call" where
  "ensure_collection Q =
     and_then (qc_get_collections (qd_client Q)) (\<lambda>existing.
     if qd_collection Q \<in> set existing then return (Inr ())
     else
       and_then (qc_create_collection (qd_client Q) (qd_collection Q) (qd_dimensions Q)) (\<lambda>_.
       and_then (qc_create_payload_index (qd_client Q) (qd_collection Q) ''tenant'') (\<lambda>_.
       and_then (qc_create_payload_index (qd_client Q) (qd_collection Q) ''allow_groups'') (\<lambda>_.
       qc_create_payload_index (qd_client Q) (qd_collection Q) ''index_version''))))"

definition point_of :: "'s qdrant \<Rightarrow> chunk \<times> real list \<Rightarrow> qd_point" where
  "point_of Q cv = \<lparr>qp_id = qd_uuid5 Q (ch_chunk_id (fst cv)), qp_vector = snd cv, qp_payload = to_payload (fst cv)\<rparr>"

definition qdrant_upsert :: "'s qdrant \<Rightarrow> chunk list \<Rightarrow> real list list \<Rightarrow> ('s qdrant_state, unit) call" where
  "qdrant_upsert Q chunks vectors =
     (if length chunks \<noteq> length vectors then return (Inl (ValueError ''chunks and vectors length mismatch''))
      else if chunks = [] then return (Inr ())
      else on_server (and_then (ensure_collection Q) (\<lambda>_.
             qc_upsert (qd_client Q) (qd_collection Q) (map (point_of Q) (zip chunks vectors)))))"

definition qdrant_delete :: "'s qdrant \<Rightarrow> string list \<Rightarrow> ('s qdrant_state, unit) call" where
  "qdrant_delete Q chunk_ids =
     (if chunk_ids = [] then return (Inr ())
      else on_server (qc_delete (qd_client Q) (qd_collection Q) (map (qd_uuid5 Q) chunk_ids)))"

definition qd_acl_filter :: "acl_filter \<Rightarrow> qd_filter" where
  "qd_acl_filter f =
     \<lparr>qf_must = FieldCondition ''tenant'' (MatchValue (af_tenant f))
        # (case af_index_version f of
             None \<Rightarrow> []
           | Some v \<Rightarrow> if v = [] then [] else [FieldCondition ''index_version'' (MatchValue v)]),
      qf_conditions = IsEmptyCondition ''allow_groups''
        # (if af_groups f = {} then []
           else [FieldCondition ''allow_groups'' (MatchAny (sorted_list_of_set (af_groups f)))]),
      qf_min_count = 1\<rparr>"

definition read_hit :: "'s qdrant \<Rightarrow> nat \<times> qd_hit \<Rightarrow> scored_chunk result" where
  "read_hit Q rh =
     bind_result (from_payload (qd_frepr Q) (qh_id (snd rh)) (case qh_payload (snd rh) of None \<Rightarrow> [] | Some d \<Rightarrow> d))
       (\<lambda>c. Inr \<lparr>sc_chunk = c, sc_score = qh_score (snd rh), sc_rank = fst rh, sc_retriever = Dense\<rparr>)"

definition qdrant_search ::
    "'s qdrant \<Rightarrow> real list \<Rightarrow> int \<Rightarrow> principal \<Rightarrow> string option \<Rightarrow> 's qdrant_state \<Rightarrow> scored_chunk list result" where
  "qdrant_search Q vector top_k p iv st =
     bind_result (qc_query_points (qd_client Q) (qd_collection_for Q iv) vector top_k
         (qd_acl_filter (filter_for_principal p iv)) (qs_server st)) (\<lambda>hits.
       map_result (read_hit Q) (enumerate 1 hits))"

text \<open>Aliases: what the server publishes, or what this process last set.\<close>

definition version_of :: "string \<Rightarrow> string" where
  "version_of collection = (case rsplit_once ''__'' collection of None \<Rightarrow> collection | Some (a, b) \<Rightarrow> b)"

definition qdrant_resolve_alias :: "'s qdrant \<Rightarrow> string \<Rightarrow> 's qdrant_state \<Rightarrow> string option" where
  "qdrant_resolve_alias Q a st =
     (case qc_get_aliases (qd_client Q) (qs_server st) of
        Inl e \<Rightarrow> map_of (qs_aliases st) a
      | Inr records \<Rightarrow>
          (case map_of records a of
             None \<Rightarrow> map_of (qs_aliases st) a
           | Some collection \<Rightarrow> Some (version_of collection)))"

definition qdrant_set_alias :: "'s qdrant \<Rightarrow> string \<Rightarrow> string \<Rightarrow> ('s qdrant_state, unit) call" where
  "qdrant_set_alias Q a iv st =
     on_server (qc_update_aliases (qd_client Q) [DeleteAlias a, CreateAlias (qd_collection_for Q (Some iv)) a])
       (st\<lparr>qs_aliases := AList.update a iv (qs_aliases st)\<rparr>)"

definition qdrant_count :: "'s qdrant \<Rightarrow> string option \<Rightarrow> 's qdrant_state \<Rightarrow> int result" where
  "qdrant_count Q iv st = qc_count (qd_client Q) (qd_collection_for Q iv) (qs_server st)"

section \<open>OpenSearch\<close>

text \<open>The clauses of the query language that the index uses.\<close>

datatype os_clause =
    Term string string
  | Terms string "string list"
  | Must_not_exist string
  | Should "os_clause list" nat

record os_hit =
  oh_id :: string
  oh_source :: "json_dict option"
  oh_score :: "real option"

record 's os_client =
  oc_exists :: "string \<Rightarrow> 's \<Rightarrow> bool result"
  oc_create :: "string \<Rightarrow> ('s, unit) call"
  oc_bulk_index :: "string \<Rightarrow> (string \<times> json_dict) list \<Rightarrow> ('s, unit) call"
  oc_bulk_delete :: "string \<Rightarrow> string list \<Rightarrow> ('s, unit) call"
  oc_search :: "string \<Rightarrow> int \<Rightarrow> string \<Rightarrow> os_clause list \<Rightarrow> 's \<Rightarrow> os_hit list result"
  oc_count :: "string \<Rightarrow> 's \<Rightarrow> int result"

record 's opensearch =
  oi_index :: string
  oi_prefix :: string
  oi_client :: "'s os_client"
  oi_frepr :: "real \<Rightarrow> string"

definition new_opensearch :: "string \<Rightarrow> 's os_client \<Rightarrow> (real \<Rightarrow> string) \<Rightarrow> 's opensearch" where
  "new_opensearch index client frepr =
     \<lparr>oi_index = index, oi_prefix = prefix_of index, oi_client = client, oi_frepr = frepr\<rparr>"

definition index_for :: "'s opensearch \<Rightarrow> string option \<Rightarrow> string" where
  "index_for X iv = versioned (oi_index X) (oi_prefix X) iv"

definition ensure_index :: "'s opensearch \<Rightarrow> ('s, unit) call" where
  "ensure_index X s =
     (case oc_exists (oi_client X) (oi_index X) s of
        Inl e \<Rightarrow> (Inl e, s)
      | Inr True \<Rightarrow> (Inr (), s)
      | Inr False \<Rightarrow> oc_create (oi_client X) (oi_index X) s)"

definition opensearch_upsert :: "'s opensearch \<Rightarrow> chunk list \<Rightarrow> ('s, unit) call" where
  "opensearch_upsert X chunks =
     (if chunks = [] then return (Inr ())
      else and_then (ensure_index X) (\<lambda>_.
        oc_bulk_index (oi_client X) (oi_index X) (map (\<lambda>c. (ch_chunk_id c, to_source c)) chunks)))"

definition opensearch_delete :: "'s opensearch \<Rightarrow> string list \<Rightarrow> ('s, unit) call" where
  "opensearch_delete X chunk_ids =
     (if chunk_ids = [] then return (Inr ()) else oc_bulk_delete (oi_client X) (oi_index X) chunk_ids)"

definition os_acl_filter :: "acl_filter \<Rightarrow> os_clause list" where
  "os_acl_filter f =
     Term ''tenant'' (af_tenant f)
     # (case af_index_version f of None \<Rightarrow> [] | Some v \<Rightarrow> if v = [] then [] else [Term ''index_version'' v])
     @ [Should (Must_not_exist ''allow_groups''
          # (if af_groups f = {} then [] else [Terms ''allow_groups'' (sorted_list_of_set (af_groups f))])) 1]"

definition read_os_hit :: "'s opensearch \<Rightarrow> nat \<times> os_hit \<Rightarrow> scored_chunk result" where
  "read_os_hit X rh =
     bind_result (from_source (oi_frepr X) (oh_id (snd rh)) (case oh_source (snd rh) of None \<Rightarrow> [] | Some d \<Rightarrow> d))
       (\<lambda>c. Inr \<lparr>sc_chunk = c, sc_score = (case oh_score (snd rh) of None \<Rightarrow> 0 | Some x \<Rightarrow> x),
                 sc_rank = fst rh, sc_retriever = Lexical\<rparr>)"

definition opensearch_search ::
    "'s opensearch \<Rightarrow> string \<Rightarrow> int \<Rightarrow> principal \<Rightarrow> string option \<Rightarrow> 's \<Rightarrow> scored_chunk list result" where
  "opensearch_search X query top_k p iv s =
     bind_result (oc_search (oi_client X) (index_for X iv) top_k query
         (os_acl_filter (filter_for_principal p iv)) s) (\<lambda>hits.
       map_result (read_os_hit X) (enumerate 1 hits))"

definition opensearch_count :: "'s opensearch \<Rightarrow> string option \<Rightarrow> 's \<Rightarrow> int result" where
  "opensearch_count X iv s = oc_count (oi_client X) (index_for X iv) s"

section \<open>A chunk survives the way through a store\<close>

lemma read_groups_ok:
  assumes "get_or d ''allow_groups'' (JList []) = groups_json gs" "finite gs"
  shows "read_groups d = Inr gs"
proof -
  have "map_result check_hash (map JStr xs) = Inr (map JStr xs)" for xs
    by (induction xs) (simp_all add: check_hash_def)
  moreover have "map_result as_str (map JStr xs) = Inr xs" for xs
    by (induction xs) simp_all
  ultimately show ?thesis
    using assms by (simp add: read_groups_def groups_json_def)
qed

lemma read_model_ok: "read_model (Some (model_json m)) = Inr m"
  by (cases m) (simp_all add: model_json_def)

lemma read_dict_ok: "py_dict (if truthy (JDict d) then JDict d else JDict []) = Inr d"
  by simp

lemma from_payload_to_payload:
  assumes "finite (acl_allow_groups (ch_acl c))"
  shows "from_payload frepr i (to_payload c) = Inr c"
proof -
  let ?gs = "acl_allow_groups (ch_acl c)"
  have "get_or (to_payload c) ''allow_groups'' (JList []) = groups_json ?gs"
    by (simp add: get_or_def to_payload_def groups_json_def)
  note groups = read_groups_ok [OF this assms]
  have "py_dict (get_or (to_payload c) ''metadata'' (JDict [])) = Inr (ch_metadata c)"
    by (simp add: get_or_def to_payload_def)
  moreover have "read_model (map_of (to_payload c) ''embedding_model'') = Inr (ch_embedding_model c)"
    using read_model_ok by (simp add: to_payload_def)
  ultimately show ?thesis
    using groups by (simp add: from_payload_def read_chunk_def)
      (simp add: to_payload_def get_default_def str_field_def)
qed

lemma from_source_to_source:
  assumes "finite (acl_allow_groups (ch_acl c))"
  shows "from_source frepr i (to_source c) = Inr c"
proof -
  let ?gs = "acl_allow_groups (ch_acl c)"
  have "get_or (to_source c) ''allow_groups'' (JList []) = groups_json ?gs"
    using assms by (auto simp: get_or_def to_source_def groups_json_def)
  note groups = read_groups_ok [OF this assms]
  have "py_dict (get_or (to_source c) ''metadata'' (JDict [])) = Inr (ch_metadata c)"
    by (simp add: get_or_def to_source_def)
  moreover have "read_model (map_of (to_source c) ''embedding_model'') = Inr (ch_embedding_model c)"
    using read_model_ok by (simp add: to_source_def)
  ultimately show ?thesis
    using groups by (simp add: from_source_def read_chunk_def)
      (simp add: to_source_def get_default_def str_field_def)
qed

section \<open>The filters say who may see a chunk\<close>

text \<open>
  The documented meaning of the filters on a stored payload: a condition on a field holds when one
  of its values matches; a field is empty when it is missing, null or an empty list.
\<close>

definition field_values :: "json_dict \<Rightarrow> string \<Rightarrow> json set" where
  "field_values d k =
     (case map_of d k of None \<Rightarrow> {} | Some JNull \<Rightarrow> {} | Some (JList js) \<Rightarrow> set js | Some v \<Rightarrow> {v})"

fun qd_holds :: "qd_condition \<Rightarrow> json_dict \<Rightarrow> bool" where
  "qd_holds (FieldCondition k (MatchValue v)) d \<longleftrightarrow> JStr v \<in> field_values d k"
| "qd_holds (FieldCondition k (MatchAny vs)) d \<longleftrightarrow> (\<exists>v \<in> set vs. JStr v \<in> field_values d k)"
| "qd_holds (IsEmptyCondition k) d \<longleftrightarrow> field_values d k = {}"

definition qd_matches :: "qd_filter \<Rightarrow> json_dict \<Rightarrow> bool" where
  "qd_matches f d \<longleftrightarrow> (\<forall>c \<in> set (qf_must f). qd_holds c d)
     \<and> qf_min_count f \<le> length (filter (\<lambda>c. qd_holds c d) (qf_conditions f))"

fun os_holds :: "os_clause \<Rightarrow> json_dict \<Rightarrow> bool" where
  "os_holds (Term k v) d \<longleftrightarrow> JStr v \<in> field_values d k"
| "os_holds (Terms k vs) d \<longleftrightarrow> (\<exists>v \<in> set vs. JStr v \<in> field_values d k)"
| "os_holds (Must_not_exist k) d \<longleftrightarrow> field_values d k = {}"
| "os_holds (Should cs n) d \<longleftrightarrow> n \<le> length (filter (\<lambda>c. os_holds c d) cs)"

definition os_matches :: "os_clause list \<Rightarrow> json_dict \<Rightarrow> bool" where
  "os_matches cs d \<longleftrightarrow> (\<forall>c \<in> set cs. os_holds c d)"

lemma payload_fields:
  assumes "finite (acl_allow_groups (ch_acl c))"
  shows "field_values (to_payload c) ''tenant'' = {JStr (acl_tenant (ch_acl c))}"
    "field_values (to_payload c) ''index_version'' = {JStr (ch_index_version c)}"
    "field_values (to_payload c) ''allow_groups'' = JStr ` acl_allow_groups (ch_acl c)"
    "field_values (to_source c) ''tenant'' = {JStr (acl_tenant (ch_acl c))}"
    "field_values (to_source c) ''index_version'' = {JStr (ch_index_version c)}"
    "field_values (to_source c) ''allow_groups'' = JStr ` acl_allow_groups (ch_acl c)"
  using assms by (auto simp: field_values_def to_payload_def to_source_def groups_json_def)

lemma qd_filter_visible:
  assumes "finite (pr_groups p)" "finite (acl_allow_groups (ch_acl c))"
  shows "qd_matches (qd_acl_filter (filter_for_principal p iv)) (to_payload c) \<longleftrightarrow> visible p iv c"
  using assms(1)
  by (auto simp: qd_matches_def qd_acl_filter_def filter_for_principal_def payload_fields [OF assms(2)]
      visible_def wanted_def is_allowed_iff Suc_le_eq split: option.split)

lemma os_filter_visible:
  assumes "finite (pr_groups p)" "finite (acl_allow_groups (ch_acl c))"
  shows "os_matches (os_acl_filter (filter_for_principal p iv)) (to_source c) \<longleftrightarrow> visible p iv c"
  using assms(1)
  by (auto simp: os_matches_def os_acl_filter_def filter_for_principal_def payload_fields [OF assms(2)]
      visible_def wanted_def is_allowed_iff Suc_le_eq split: option.split)

text \<open>A group set is finite in the code; without that the filters still let nothing else through.\<close>

lemma qd_filter_sound:
  assumes "finite (acl_allow_groups (ch_acl c))" "qd_matches (qd_acl_filter (filter_for_principal p iv)) (to_payload c)"
  shows "visible p iv c"
proof (cases "finite (pr_groups p)")
  case False
  with assms(2) show ?thesis
    by (auto simp: qd_matches_def qd_acl_filter_def filter_for_principal_def payload_fields [OF assms(1)]
        visible_def wanted_def is_allowed_iff Suc_le_eq split: option.splits if_splits)
qed (use assms qd_filter_visible in blast)

lemma os_filter_sound:
  assumes "finite (acl_allow_groups (ch_acl c))" "os_matches (os_acl_filter (filter_for_principal p iv)) (to_source c)"
  shows "visible p iv c"
proof (cases "finite (pr_groups p)")
  case False
  with assms(2) show ?thesis
    by (auto simp: os_matches_def os_acl_filter_def filter_for_principal_def payload_fields [OF assms(1)]
        visible_def wanted_def is_allowed_iff Suc_le_eq split: option.splits if_splits)
qed (use assms os_filter_visible in blast)

section \<open>Both stores keep the search contract\<close>

text \<open>
  What the servers promise of a search: it answers with stored points that match the filter, each
  once, no more than the limit, best score first.
\<close>

definition qd_serves :: "'s qdrant \<Rightarrow> ('s \<Rightarrow> string \<Rightarrow> (string \<times> json_dict) set) \<Rightarrow> 's \<Rightarrow> bool" where
  "qd_serves Q points s \<longleftrightarrow>
     (\<forall>collection v k f. \<exists>hits. qc_query_points (qd_client Q) collection v k f s = Inr hits
        \<and> (\<forall>h \<in> set hits. \<exists>d. qh_payload h = Some d \<and> (qh_id h, d) \<in> points s collection \<and> qd_matches f d)
        \<and> (0 \<le> k \<longrightarrow> int (length hits) \<le> k)
        \<and> distinct (map qh_id hits) \<and> sorted_wrt (\<lambda>g h. qh_score h \<le> qh_score g) hits)"

definition os_serves :: "'s opensearch \<Rightarrow> ('s \<Rightarrow> string \<Rightarrow> (string \<times> json_dict) set) \<Rightarrow> 's \<Rightarrow> bool" where
  "os_serves X docs s \<longleftrightarrow>
     (\<forall>index k q cs. \<exists>hits. oc_search (oi_client X) index k q cs s = Inr hits
        \<and> (\<forall>h \<in> set hits. oh_score h \<noteq> None
             \<and> (\<exists>d. oh_source h = Some d \<and> (oh_id h, d) \<in> docs s index \<and> os_matches cs d))
        \<and> (0 \<le> k \<longrightarrow> int (length hits) \<le> k)
        \<and> distinct (map oh_id hits) \<and> sorted_wrt (\<lambda>g h. the (oh_score h) \<le> the (oh_score g)) hits)"

text \<open>The chunks that a store holds as \<open>upsert\<close> writes them.\<close>

definition qd_indexed :: "'s qdrant \<Rightarrow> ('s \<Rightarrow> string \<Rightarrow> (string \<times> json_dict) set) \<Rightarrow> 's \<Rightarrow> chunk set" where
  "qd_indexed Q points s =
     {c. finite (acl_allow_groups (ch_acl c)) \<and> (\<exists>collection. (qd_uuid5 Q (ch_chunk_id c), to_payload c) \<in> points s collection)}"

definition os_indexed :: "('s \<Rightarrow> string \<Rightarrow> (string \<times> json_dict) set) \<Rightarrow> 's \<Rightarrow> chunk set" where
  "os_indexed docs s =
     {c. finite (acl_allow_groups (ch_acl c)) \<and> (\<exists>index. (ch_chunk_id c, to_source c) \<in> docs s index)}"

definition qd_written :: "'s qdrant \<Rightarrow> ('s \<Rightarrow> string \<Rightarrow> (string \<times> json_dict) set) \<Rightarrow> 's \<Rightarrow> bool" where
  "qd_written Q points s \<longleftrightarrow>
     (\<forall>collection i d. (i, d) \<in> points s collection
        \<longrightarrow> (\<exists>c. finite (acl_allow_groups (ch_acl c)) \<and> i = qd_uuid5 Q (ch_chunk_id c) \<and> d = to_payload c))"

definition os_written :: "('s \<Rightarrow> string \<Rightarrow> (string \<times> json_dict) set) \<Rightarrow> 's \<Rightarrow> bool" where
  "os_written docs s \<longleftrightarrow>
     (\<forall>index i d. (i, d) \<in> docs s index
        \<longrightarrow> (\<exists>c. finite (acl_allow_groups (ch_acl c)) \<and> i = ch_chunk_id c \<and> d = to_source c))"

text \<open>What both searches do with the hits they get: read them back, number them, keep their order.\<close>

lemma read_hits:
  assumes "\<forall>h \<in> set hits. \<exists>c. \<forall>i. read (i, h) = Inr \<lparr>sc_chunk = c, sc_score = score h, sc_rank = i, sc_retriever = r\<rparr>
      \<and> visible p iv c \<and> c \<in> indexed \<and> key h = name (ch_chunk_id c)"
    and "distinct (map key hits)" "sorted_wrt (\<lambda>g h. score h \<le> score g) hits"
    and "0 \<le> k \<longrightarrow> int (length hits) \<le> k"
  shows "\<exists>scored. map_result read (enumerate 1 hits) = Inr scored \<and> hits_ok p iv indexed k scored"
proof -
  obtain chunk_of where c: "\<And>h i. h \<in> set hits \<Longrightarrow> read (i, h)
        = Inr \<lparr>sc_chunk = chunk_of h, sc_score = score h, sc_rank = i, sc_retriever = r\<rparr>"
      "\<And>h. h \<in> set hits \<Longrightarrow> visible p iv (chunk_of h) \<and> chunk_of h \<in> indexed \<and> key h = name (ch_chunk_id (chunk_of h))"
    using bchoice [OF assms(1)] by metis
  let ?g = "\<lambda>(i, h). \<lparr>sc_chunk = chunk_of h, sc_score = score h, sc_rank = i, sc_retriever = r\<rparr>"
  let ?scored = "map ?g (enumerate 1 hits)"
  have run: "map_result read (enumerate 1 hits) = Inr ?scored"
    by (rule map_result_Inr) (use c(1) in_enumerate_snd in \<open>fastforce\<close>)
  have fields: "map sc_chunk ?scored = map chunk_of hits" "map sc_score ?scored = map score hits"
      "map sc_rank ?scored = [1 ..< Suc (length hits)]"
    by (auto intro!: nth_equalityI simp: nth_enumerate_eq simp del: upt_Suc)
  have "sc_chunk ` set ?scored = chunk_of ` set hits"
    using fields(1) by (metis list.set_map)
  then have "\<forall>h \<in> set ?scored. visible p iv (sc_chunk h) \<and> sc_chunk h \<in> indexed"
    using c(2) by (metis (mono_tags, lifting) image_iff)
  moreover have "map (ch_chunk_id \<circ> sc_chunk) ?scored = map (ch_chunk_id \<circ> chunk_of) hits"
    using fields(1) by (metis map_map)
  then have "map name (map (ch_chunk_id \<circ> sc_chunk) ?scored) = map key hits"
    using c(2) by simp
  then have "distinct (map name (map (ch_chunk_id \<circ> sc_chunk) ?scored))"
    using assms(2) by (simp only:)
  then have "distinct (map (ch_chunk_id \<circ> sc_chunk) ?scored)"
    by (simp only: distinct_map [of name])
  moreover have "sorted_wrt (\<lambda>g h. sc_score h \<le> sc_score g) ?scored"
    using assms(3) unfolding sorted_wrt_score fields(2) by (simp add: sorted_wrt_map)
  ultimately show ?thesis
    using run fields(3) assms(4) unfolding hits_ok_def by (intro exI [of _ ?scored]) simp
qed

lemma qdrant_search_hits:
  assumes "qd_serves Q points (qs_server st)" "qd_written Q points (qs_server st)"
  shows "\<exists>hits. qdrant_search Q v k p iv st = Inr hits \<and> hits_ok p iv (qd_indexed Q points (qs_server st)) k hits"
proof -
  let ?s = "qs_server st"
  let ?f = "qd_acl_filter (filter_for_principal p iv)"
  obtain hits where hits: "qc_query_points (qd_client Q) (qd_collection_for Q iv) v k ?f ?s = Inr hits"
      "\<forall>h \<in> set hits. \<exists>d. qh_payload h = Some d \<and> (qh_id h, d) \<in> points ?s (qd_collection_for Q iv) \<and> qd_matches ?f d"
      "0 \<le> k \<longrightarrow> int (length hits) \<le> k" "distinct (map qh_id hits)"
      "sorted_wrt (\<lambda>g h. qh_score h \<le> qh_score g) hits"
    using assms(1) unfolding qd_serves_def by meson
  have "\<forall>h \<in> set hits. \<exists>c. \<forall>i. read_hit Q (i, h)
        = Inr \<lparr>sc_chunk = c, sc_score = qh_score h, sc_rank = i, sc_retriever = Dense\<rparr>
      \<and> visible p iv c \<and> c \<in> qd_indexed Q points ?s \<and> qh_id h = qd_uuid5 Q (ch_chunk_id c)"
  proof
    fix h assume "h \<in> set hits"
    with hits(2) obtain d where d: "qh_payload h = Some d" "(qh_id h, d) \<in> points ?s (qd_collection_for Q iv)"
        "qd_matches ?f d" by blast
    with assms(2) obtain c where c: "finite (acl_allow_groups (ch_acl c))" "qh_id h = qd_uuid5 Q (ch_chunk_id c)"
        "d = to_payload c"
      unfolding qd_written_def by meson
    have "visible p iv c" using d(3) qd_filter_sound [OF c(1)] c(3) by simp
    moreover have "c \<in> qd_indexed Q points ?s" using c d(2) unfolding qd_indexed_def by auto
    moreover have "read_hit Q (i, h) = Inr \<lparr>sc_chunk = c, sc_score = qh_score h, sc_rank = i, sc_retriever = Dense\<rparr>" for i
      using d(1) c(3) from_payload_to_payload [OF c(1)] by (simp add: read_hit_def)
    ultimately show "\<exists>c. \<forall>i. read_hit Q (i, h)
        = Inr \<lparr>sc_chunk = c, sc_score = qh_score h, sc_rank = i, sc_retriever = Dense\<rparr>
      \<and> visible p iv c \<and> c \<in> qd_indexed Q points ?s \<and> qh_id h = qd_uuid5 Q (ch_chunk_id c)"
      using c(2) by blast
  qed
  from read_hits [OF this hits(4,5,3)] hits(1) show ?thesis
    by (simp add: qdrant_search_def)
qed

lemma opensearch_search_hits:
  assumes "os_serves X docs s" "os_written docs s"
  shows "\<exists>hits. opensearch_search X q k p iv s = Inr hits \<and> hits_ok p iv (os_indexed docs s) k hits"
proof -
  let ?f = "os_acl_filter (filter_for_principal p iv)"
  obtain hits where hits: "oc_search (oi_client X) (index_for X iv) k q ?f s = Inr hits"
      "\<forall>h \<in> set hits. oh_score h \<noteq> None
         \<and> (\<exists>d. oh_source h = Some d \<and> (oh_id h, d) \<in> docs s (index_for X iv) \<and> os_matches ?f d)"
      "0 \<le> k \<longrightarrow> int (length hits) \<le> k" "distinct (map oh_id hits)"
      "sorted_wrt (\<lambda>g h. the (oh_score h) \<le> the (oh_score g)) hits"
    using assms(1) unfolding os_serves_def by meson
  have "\<forall>h \<in> set hits. \<exists>c. \<forall>i. read_os_hit X (i, h)
        = Inr \<lparr>sc_chunk = c, sc_score = the (oh_score h), sc_rank = i, sc_retriever = Lexical\<rparr>
      \<and> visible p iv c \<and> c \<in> os_indexed docs s \<and> oh_id h = id (ch_chunk_id c)"
  proof
    fix h assume "h \<in> set hits"
    with hits(2) obtain d x where d: "oh_source h = Some d" "(oh_id h, d) \<in> docs s (index_for X iv)"
        "os_matches ?f d" "oh_score h = Some x" by blast
    with assms(2) obtain c where c: "finite (acl_allow_groups (ch_acl c))" "oh_id h = ch_chunk_id c" "d = to_source c"
      unfolding os_written_def by meson
    have "visible p iv c" using d(3) os_filter_sound [OF c(1)] c(3) by simp
    moreover have "c \<in> os_indexed docs s" using c d(2) unfolding os_indexed_def by auto
    moreover have "read_os_hit X (i, h)
        = Inr \<lparr>sc_chunk = c, sc_score = the (oh_score h), sc_rank = i, sc_retriever = Lexical\<rparr>" for i
      using d(1,4) c(3) from_source_to_source [OF c(1)] by (simp add: read_os_hit_def)
    ultimately show "\<exists>c. \<forall>i. read_os_hit X (i, h)
        = Inr \<lparr>sc_chunk = c, sc_score = the (oh_score h), sc_rank = i, sc_retriever = Lexical\<rparr>
      \<and> visible p iv c \<and> c \<in> os_indexed docs s \<and> oh_id h = id (ch_chunk_id c)"
      using c(2) by auto
  qed
  from read_hits [OF this hits(4,5,3)] hits(1) show ?thesis
    by (simp add: opensearch_search_def)
qed

text \<open>Both laws as instances of the contract that the retriever relies on.\<close>

interpretation qdrant: acl_search "qdrant_search Q" "\<lambda>st. qd_indexed Q points (qs_server st)"
    "\<lambda>st. qd_serves Q points (qs_server st) \<and> qd_written Q points (qs_server st)" for Q :: "'s qdrant" and points
  by unfold_locales (erule conjE, rule qdrant_search_hits)

interpretation opensearch: acl_search "opensearch_search X" "os_indexed docs"
    "\<lambda>s. os_serves X docs s \<and> os_written docs s" for X :: "'s opensearch" and docs
  by unfold_locales (erule conjE, rule opensearch_search_hits)

interpretation remote_legs: hybrid_legs "qdrant_search Q" "\<lambda>st. qd_indexed Q points (qs_server st)"
    "\<lambda>st. qd_serves Q points (qs_server st) \<and> qd_written Q points (qs_server st)"
    "opensearch_search X" "os_indexed docs" "\<lambda>s. os_serves X docs s \<and> os_written docs s"
  for Q :: "'s qdrant" and points and X :: "'t opensearch" and docs
  by unfold_locales

section \<open>Writing\<close>

text \<open>
  What the servers promise of a write: nothing appears but what was sent, and after a success all of
  it is there, one item for each id.
\<close>

definition adds_only :: "('s \<Rightarrow> string \<Rightarrow> (string \<times> json_dict) set) \<Rightarrow> (string \<Rightarrow> (string \<times> json_dict) set) \<Rightarrow> ('s, 'a) call \<Rightarrow> bool" where
  "adds_only items sent m \<longleftrightarrow> (\<forall>s r s' name. m s = (r, s') \<longrightarrow> items s' name \<subseteq> items s name \<union> sent name)"

definition sent_to :: "string \<Rightarrow> (string \<times> json_dict) list \<Rightarrow> string \<Rightarrow> (string \<times> json_dict) set" where
  "sent_to name xs other = (if other = name then set xs else {})"

definition qd_stores :: "'s qdrant \<Rightarrow> ('s \<Rightarrow> string \<Rightarrow> (string \<times> json_dict) set) \<Rightarrow> bool" where
  "qd_stores Q points \<longleftrightarrow>
     (let C = qd_client Q; nothing = (\<lambda>name. {}) in
      adds_only points nothing (qc_get_collections C)
      \<and> (\<forall>name d. adds_only points nothing (qc_create_collection C name d))
      \<and> (\<forall>name k. adds_only points nothing (qc_create_payload_index C name k))
      \<and> (\<forall>name ids. adds_only points nothing (qc_delete C name ids))
      \<and> (\<forall>name ps. adds_only points (sent_to name (map (\<lambda>x. (qp_id x, qp_payload x)) ps)) (qc_upsert C name ps))
      \<and> (\<forall>name ps s s'. qc_upsert C name ps s = (Inr (), s') \<longrightarrow> distinct (map qp_id ps)
            \<longrightarrow> (\<forall>x \<in> set ps. (qp_id x, qp_payload x) \<in> points s' name)))"

definition os_stores :: "'s opensearch \<Rightarrow> ('s \<Rightarrow> string \<Rightarrow> (string \<times> json_dict) set) \<Rightarrow> bool" where
  "os_stores X docs \<longleftrightarrow>
     (let C = oi_client X; nothing = (\<lambda>name. {}) in
      (\<forall>name. adds_only docs nothing (oc_create C name))
      \<and> (\<forall>name ids. adds_only docs nothing (oc_bulk_delete C name ids))
      \<and> (\<forall>name xs. adds_only docs (sent_to name xs) (oc_bulk_index C name xs))
      \<and> (\<forall>name xs s s'. oc_bulk_index C name xs s = (Inr (), s') \<longrightarrow> distinct (map fst xs)
            \<longrightarrow> set xs \<subseteq> docs s' name))"

lemma adds_only_return: "adds_only items sent (return r)"
  by (auto simp: adds_only_def)

lemma adds_only_seq:
  "adds_only items sent m \<Longrightarrow> (\<And>x. adds_only items sent (f x)) \<Longrightarrow> adds_only items sent (and_then m f)"
  unfolding adds_only_def and_then_eq by blast

lemma adds_only_mono: "adds_only items sent m \<Longrightarrow> (\<And>name. sent name \<subseteq> sent' name) \<Longrightarrow> adds_only items sent' m"
  unfolding adds_only_def by blast

lemma ensure_collection_adds: "qd_stores Q points \<Longrightarrow> adds_only points (\<lambda>name. {}) (ensure_collection Q)"
  unfolding ensure_collection_def qd_stores_def Let_def
  by (intro adds_only_seq) (auto intro!: adds_only_seq adds_only_return)

lemma ensure_index_adds: "os_stores X docs \<Longrightarrow> adds_only docs (\<lambda>name. {}) (ensure_index X)"
  by (auto simp: ensure_index_def os_stores_def Let_def adds_only_def split: sum.splits bool.splits)

lemma qd_stores_all:
  "qd_stores Q points \<Longrightarrow> qc_upsert (qd_client Q) name ps s = (Inr (), s') \<Longrightarrow> distinct (map qp_id ps)
   \<Longrightarrow> x \<in> set ps \<Longrightarrow> (qp_id x, qp_payload x) \<in> points s' name"
  by (simp add: qd_stores_def Let_def)

lemma os_stores_all:
  "os_stores X docs \<Longrightarrow> oc_bulk_index (oi_client X) name xs s = (Inr (), s') \<Longrightarrow> distinct (map fst xs)
   \<Longrightarrow> set xs \<subseteq> docs s' name"
  by (simp add: os_stores_def Let_def)

lemma qdrant_upsert_ok:
  assumes stores: "qd_stores Q points" and written: "qd_written Q points (qs_server st)"
    and groups: "\<forall>c \<in> set cs. finite (acl_allow_groups (ch_acl c))"
    and run: "qdrant_upsert Q cs vs st = (r, st')"
  shows "qd_written Q points (qs_server st')
     \<and> (r = Inr () \<and> distinct (map (qd_uuid5 Q \<circ> ch_chunk_id) cs) \<longrightarrow> set cs \<subseteq> qd_indexed Q points (qs_server st'))"
proof (cases "length cs \<noteq> length vs \<or> cs = []")
  case True
  with run written show ?thesis by (auto simp: qdrant_upsert_def split: if_splits)
next
  case False
  let ?ps = "map (point_of Q) (zip cs vs)"
  let ?put = "qc_upsert (qd_client Q) (qd_collection Q) ?ps"
  let ?sent = "sent_to (qd_collection Q) (map (\<lambda>x. (qp_id x, qp_payload x)) ?ps)"
  obtain s' where s': "and_then (ensure_collection Q) (\<lambda>_. ?put) (qs_server st) = (r, s')" "qs_server st' = s'"
    using run False by (auto simp: qdrant_upsert_def on_server_def split: prod.splits)
  have sent: "?sent name \<subseteq> (\<lambda>c. (qd_uuid5 Q (ch_chunk_id c), to_payload c)) ` set cs" for name
    by (auto simp: sent_to_def point_of_def dest: set_zip_leftD)
  have "adds_only points ?sent ?put"
    using stores unfolding qd_stores_def Let_def by blast
  moreover have "adds_only points ?sent (ensure_collection Q)"
    by (rule adds_only_mono [OF ensure_collection_adds [OF stores]]) simp
  ultimately have "adds_only points ?sent (and_then (ensure_collection Q) (\<lambda>_. ?put))"
    by (intro adds_only_seq)
  then have "points s' name \<subseteq> points (qs_server st) name \<union> ?sent name" for name
    using s'(1) unfolding adds_only_def by blast
  with sent have "points s' name \<subseteq> points (qs_server st) name
      \<union> (\<lambda>c. (qd_uuid5 Q (ch_chunk_id c), to_payload c)) ` set cs" for name by blast
  with written groups have "qd_written Q points s'"
    unfolding qd_written_def by blast
  moreover have "c \<in> qd_indexed Q points s'"
    if ok: "r = Inr ()" "distinct (map (qd_uuid5 Q \<circ> ch_chunk_id) cs)" "c \<in> set cs" for c
  proof -
    have len: "length cs = length vs" using False by simp
    obtain s1 where put: "?put s1 = (Inr (), s')"
      using s'(1) ok(1) by (auto simp: and_then_eq)
    have "map qp_id ?ps = map (qd_uuid5 Q \<circ> ch_chunk_id) (map fst (zip cs vs))"
      by (simp add: point_of_def)
    then have "distinct (map qp_id ?ps)" using ok(2) len by simp
    then have "\<forall>x \<in> set ?ps. (qp_id x, qp_payload x) \<in> points s' (qd_collection Q)"
      using qd_stores_all [OF stores put] by blast
    moreover have "c \<in> fst ` set (zip cs vs)" using ok(3) len by (metis list.set_map map_fst_zip)
    ultimately have "(qd_uuid5 Q (ch_chunk_id c), to_payload c) \<in> points s' (qd_collection Q)"
      by (auto simp: point_of_def)
    with groups ok(3) show ?thesis unfolding qd_indexed_def by blast
  qed
  ultimately show ?thesis using s'(2) by blast
qed

lemma opensearch_upsert_ok:
  assumes stores: "os_stores X docs" and written: "os_written docs s"
    and groups: "\<forall>c \<in> set cs. finite (acl_allow_groups (ch_acl c))"
    and run: "opensearch_upsert X cs s = (r, s')"
  shows "os_written docs s' \<and> (r = Inr () \<and> distinct (map ch_chunk_id cs) \<longrightarrow> set cs \<subseteq> os_indexed docs s')"
proof (cases "cs = []")
  case True
  with run written show ?thesis by (auto simp: opensearch_upsert_def)
next
  case False
  let ?xs = "map (\<lambda>c. (ch_chunk_id c, to_source c)) cs"
  let ?put = "oc_bulk_index (oi_client X) (oi_index X) ?xs"
  have run': "and_then (ensure_index X) (\<lambda>_. ?put) s = (r, s')"
    using run False by (simp add: opensearch_upsert_def)
  have "adds_only docs (sent_to (oi_index X) ?xs) ?put"
    using stores unfolding os_stores_def Let_def by blast
  moreover have "adds_only docs (sent_to (oi_index X) ?xs) (ensure_index X)"
    by (rule adds_only_mono [OF ensure_index_adds [OF stores]]) simp
  ultimately have "adds_only docs (sent_to (oi_index X) ?xs) (and_then (ensure_index X) (\<lambda>_. ?put))"
    by (intro adds_only_seq)
  then have "docs s' name \<subseteq> docs s name \<union> set ?xs" for name
    using run' unfolding adds_only_def sent_to_def by (cases "name = oi_index X") fastforce+
  with written groups have "os_written docs s'"
    unfolding os_written_def by fastforce
  moreover have "set cs \<subseteq> os_indexed docs s'" if ok: "r = Inr ()" "distinct (map ch_chunk_id cs)"
  proof -
    obtain s1 where put: "?put s1 = (Inr (), s')"
      using run' ok(1) by (auto simp: and_then_eq)
    have "distinct (map fst ?xs)" using ok(2) by (simp add: comp_def)
    from os_stores_all [OF stores put this] have "set ?xs \<subseteq> docs s' (oi_index X)" .
    with groups show ?thesis unfolding os_indexed_def by fastforce
  qed
  ultimately show ?thesis by blast
qed

section \<open>Aliases\<close>

text \<open>A version that can be read back from the name of its collection.\<close>

definition plain_version :: "string \<Rightarrow> bool" where
  "plain_version v \<longleftrightarrow> v \<noteq> [] \<and> rsplit_once ''__'' v = None \<and> hd v \<noteq> CHR ''_''"

lemma rsplit_versioned:
  assumes "plain_version v"
  shows "rsplit_once ''__'' (a @ ''__'' @ v) = Some (a, v)"
proof (induction a)
  case Nil
  then show ?case using assms by (cases v) (auto simp: plain_version_def startswith_def)
next
  case (Cons c a)
  then show ?case by simp
qed

lemma alias_resolves:
  assumes "plain_version iv" "qdrant_set_alias Q a iv st = (Inr (), st')"
    and published: "\<And>cs s s'. qc_update_aliases (qd_client Q) [DeleteAlias a, CreateAlias cs a] s = (Inr (), s')
      \<Longrightarrow> \<exists>records. qc_get_aliases (qd_client Q) s' = Inr records \<and> map_of records a = Some cs"
  shows "qdrant_resolve_alias Q a st' = Some iv"
proof -
  obtain s' where s': "qc_update_aliases (qd_client Q) [DeleteAlias a, CreateAlias (qd_prefix Q @ ''__'' @ iv) a]
      (qs_server st) = (Inr (), s')" "qs_server st' = s'"
    using assms(1,2)
    by (auto simp: qdrant_set_alias_def on_server_def qd_collection_for_def versioned_def plain_version_def split: prod.splits)
  from published [OF s'(1)] s'(2) rsplit_versioned [OF assms(1)] show ?thesis
    by (auto simp: qdrant_resolve_alias_def version_of_def)
qed

text \<open>A failed switch is remembered: this process then resolves an alias that nobody published.\<close>

lemma failed_alias_remembered:
  assumes "qdrant_set_alias Q a iv st = (Inl e, st')"
    and "qc_get_aliases (qd_client Q) (qs_server st') = Inr records" "map_of records a = None"
  shows "qdrant_resolve_alias Q a st' = Some iv"
  using assms by (auto simp: qdrant_set_alias_def on_server_def qdrant_resolve_alias_def update_conv' split: prod.splits)

section \<open>Properties\<close>

text \<open>
  C30: the filters that the two remote stores evaluate say exactly what \<open>is_allowed\<close> says: on a chunk
  as it is stored, the filter made for a caller and a version holds if and only if the chunk is of that
  version and the caller may see it. A chunk without groups is stored so that it counts as open to its
  tenant.
\<close>

theorem remote_filters_exact:
  assumes "finite (pr_groups p)" "finite (acl_allow_groups (ch_acl c))"
  shows "(qd_matches (qd_acl_filter (filter_for_principal p iv)) (to_payload c) \<longleftrightarrow> visible p iv c)
     \<and> (os_matches (os_acl_filter (filter_for_principal p iv)) (to_source c) \<longleftrightarrow> visible p iv c)"
  using qd_filter_visible [OF assms] os_filter_visible [OF assms] by blast

text \<open>
  C31: what is written to a remote store reads back as the same chunk, access list, span, metadata and
  all, whatever id the store reports beside it.
\<close>

theorem remote_roundtrip:
  assumes "finite (acl_allow_groups (ch_acl c))"
  shows "from_payload frepr i (to_payload c) = Inr c \<and> from_source frepr i (to_source c) = Inr c"
  using from_payload_to_payload [OF assms] from_source_to_source [OF assms] by blast

text \<open>
  hybrid retrieval over Qdrant and OpenSearch keeps the same contract as over the in-memory
  stores. Suppose the servers answer searches as documented and hold what \<open>upsert\<close> wrote. Then retrieval
  never raises, and every chunk it returns is held by one of the two, is of the wanted version and may be
  seen by the caller; no id appears twice, there are at most \<open>top_k\<close>, ranked from 1 by falling score.
\<close>

theorem remote_retrieve_exact:
  assumes "qd_serves Q points (qs_server dst)" "qd_written Q points (qs_server dst)"
    and "os_serves X docs lst" "os_written docs lst" "0 \<le> hy_rrf_k cfg" "0 \<le> top_k"
    and "dqs = None \<or> dqs = Some [] \<or> (\<exists>ds. dqs = Some ds \<and> length ds = length queries)"
  shows "\<exists>hits. retrieve_multi (qdrant_search Q) (opensearch_search X) emb cfg dst lst queries p top_k iv dqs = Inr hits
     \<and> hits_ok p iv (qd_indexed Q points (qs_server dst) \<union> os_indexed docs lst) top_k hits"
  using remote_legs.retrieve_multi_hits [of Q points dst X docs lst cfg top_k dqs queries emb p iv] assms by blast


text \<open>
  a version published under an alias is what the alias resolves to: \<open>resolve_alias\<close> reads the
  version back from the name of the collection that \<open>set_alias\<close> points it to, for every version without
  a double underscore and without a leading one.
\<close>

theorem qdrant_alias_roundtrip:
  assumes "plain_version iv" "qdrant_set_alias Q a iv st = (Inr (), st')"
    and "\<And>cs s s'. qc_update_aliases (qd_client Q) [DeleteAlias a, CreateAlias cs a] s = (Inr (), s')
      \<Longrightarrow> \<exists>records. qc_get_aliases (qd_client Q) s' = Inr records \<and> map_of records a = Some cs"
  shows "qdrant_resolve_alias Q a st' = Some iv"
  by (rule alias_resolves [OF assms])

text \<open>Two small servers that keep their promises: a list of stored items, and the aliases.\<close>

type_synonym example_server = "(string \<times> string \<times> json_dict) list \<times> (string \<times> string) list"

definition example_items :: "example_server \<Rightarrow> string \<Rightarrow> (string \<times> json_dict) set" where
  "example_items s name = {(i, d). (name, i, d) \<in> set (fst s)}"

definition example_put :: "string \<Rightarrow> (string \<times> json_dict) list \<Rightarrow> (example_server, unit) call" where
  "example_put name xs s =
     (Inr (), map (Pair name) xs @ filter (\<lambda>(n, i, d). \<not> (n = name \<and> i \<in> fst ` set xs)) (fst s), snd s)"

definition example_found :: "string \<Rightarrow> int \<Rightarrow> (json_dict \<Rightarrow> bool) \<Rightarrow> example_server \<Rightarrow> (string \<times> json_dict) list" where
  "example_found name k matches s =
     slice_to (map snd (filter (\<lambda>(n, i, d). n = name \<and> matches d) (fst s))) (max 0 k)"

definition example_qdrant :: "example_server qdrant" where
  "example_qdrant = new_qdrant ''docs__v1'' 2
     \<lparr>qc_get_collections = return (Inr [''docs__v1'']), qc_create_collection = (\<lambda>n d. return (Inr ())),
      qc_create_payload_index = (\<lambda>n k. return (Inr ())),
      qc_upsert = (\<lambda>name ps. example_put name (map (\<lambda>x. (qp_id x, qp_payload x)) ps)),
      qc_delete = (\<lambda>name ids. return (Inr ())),
      qc_query_points = (\<lambda>name v k f s. Inr (map (\<lambda>(i, d). \<lparr>qh_id = i, qh_payload = Some d, qh_score = 1\<rparr>)
         (example_found name k (qd_matches f) s))),
      qc_get_aliases = (\<lambda>s. Inr (snd s)),
      qc_update_aliases = (\<lambda>ops s. (Inr (), fst s, fold (\<lambda>x d. case x of DeleteAlias a \<Rightarrow> AList.delete a d
         | CreateAlias c a \<Rightarrow> AList.update a c d) ops (snd s))),
      qc_count = (\<lambda>name s. Inr (int (length (fst s))))\<rparr> (\<lambda>s. s) (\<lambda>x. ''0.0'')"

definition example_opensearch :: "example_server opensearch" where
  "example_opensearch = new_opensearch ''docs__v1''
     \<lparr>oc_exists = (\<lambda>n s. Inr True), oc_create = (\<lambda>n. return (Inr ())), oc_bulk_index = example_put,
      oc_bulk_delete = (\<lambda>n ids. return (Inr ())),
      oc_search = (\<lambda>name k q cs s. Inr (map (\<lambda>(i, d). \<lparr>oh_id = i, oh_source = Some d, oh_score = Some 1\<rparr>)
         (example_found name k (os_matches cs) s))),
      oc_count = (\<lambda>name s. Inr (int (length (fst s))))\<rparr> (\<lambda>x. ''0.0'')"

lemma example_put_adds: "adds_only example_items (sent_to name xs) (example_put name xs)"
  by (auto simp: adds_only_def example_put_def example_items_def sent_to_def)

lemma example_put_stores: "example_put name xs s = (r, s') \<Longrightarrow> set xs \<subseteq> example_items s' name"
  by (auto simp: example_put_def example_items_def)

lemma example_qd_stores: "qd_stores example_qdrant example_items"
  using example_put_adds example_put_stores
  by (fastforce simp: qd_stores_def Let_def example_qdrant_def new_qdrant_def adds_only_return)

lemma example_os_stores: "os_stores example_opensearch example_items"
  using example_put_adds example_put_stores
  by (fastforce simp: os_stores_def Let_def example_opensearch_def new_opensearch_def adds_only_return)

lemma example_found_one: "example_found name k matches ([(n, i, d)], al)
    = (if n = name \<and> matches d \<and> 1 \<le> k then [(i, d)] else [])"
  by (auto simp: example_found_def slice_to_def)

lemma example_qd_serves: "qd_serves example_qdrant example_items ([(n, i, d)], al)"
  by (auto simp: qd_serves_def example_qdrant_def new_qdrant_def example_found_one example_items_def)

lemma example_os_serves: "os_serves example_opensearch example_items ([(n, i, d)], al)"
  by (auto simp: os_serves_def example_opensearch_def new_opensearch_def example_found_one example_items_def)

lemma example_one_written:
  "qd_written example_qdrant example_items ([(''docs__v1'', ''c1'', to_payload (example_chunk ''c1'' ''acme''))], al)"
  "os_written example_items ([(''docs__v1'', ''c1'', to_source (example_chunk ''c1'' ''acme''))], al)"
  by (auto simp: qd_written_def os_written_def example_items_def example_qdrant_def new_qdrant_def example_defs
      intro!: exI [of _ "example_chunk ''c1'' ''acme''"])

lemma remote_filters_exact_witness:
  "(qd_matches (qd_acl_filter (filter_for_principal example_caller (Some ''v1''))) (to_payload (example_chunk ''c1'' ''other''))
      = visible example_caller (Some ''v1'') (example_chunk ''c1'' ''other''))
   \<and> \<not> visible example_caller (Some ''v1'') (example_chunk ''c1'' ''other'')"
proof -
  have "finite (pr_groups example_caller)" "finite (acl_allow_groups (ch_acl (example_chunk ''c1'' ''other'')))"
    by (simp_all add: example_defs)
  from remote_filters_exact [OF this, of "Some ''v1''"] show ?thesis
    by (simp add: visible_def is_allowed_def example_defs)
qed

lemma remote_roundtrip_witness:
  "from_payload (\<lambda>x. ''0.0'') ''7f'' (to_payload (example_chunk ''c1'' ''acme'')) = Inr (example_chunk ''c1'' ''acme'')"
  using remote_roundtrip [of "example_chunk ''c1'' ''acme''" "\<lambda>x. ''0.0''" "''7f''"] by (simp add: example_defs)

lemma remote_retrieve_exact_witness:
  "let dst = \<lparr>qs_aliases = [], qs_server = ([(''docs__v1'', ''c1'', to_payload (example_chunk ''c1'' ''acme''))], [])\<rparr>;
       lst = ([(''docs__v1'', ''c1'', to_source (example_chunk ''c1'' ''acme''))], [])
   in \<exists>hits. retrieve_multi (qdrant_search example_qdrant) (opensearch_search example_opensearch)
        (\<lambda>ts. map (\<lambda>t. [1, 0]) ts) \<lparr>hy_rrf_k = 60, hy_dense_weight = 1, hy_lexical_weight = 1\<rparr>
        dst lst [''q''] example_caller 5 (Some ''v1'') None = Inr hits
      \<and> hits_ok example_caller (Some ''v1'')
          (qd_indexed example_qdrant example_items (qs_server dst) \<union> os_indexed example_items lst) 5 hits"
  unfolding Let_def
  by (rule remote_retrieve_exact) (simp_all add: example_qd_serves example_os_serves example_one_written)


lemma qdrant_alias_roundtrip_witness:
  "\<exists>st'. qdrant_set_alias example_qdrant ''live'' ''v2'' \<lparr>qs_aliases = [], qs_server = ([], [])\<rparr> = (Inr (), st')
     \<and> qdrant_resolve_alias example_qdrant ''live'' st' = Some ''v2''"
proof -
  obtain st' where st': "qdrant_set_alias example_qdrant ''live'' ''v2'' \<lparr>qs_aliases = [], qs_server = ([], [])\<rparr> = (Inr (), st')"
    by (simp add: qdrant_set_alias_def on_server_def example_qdrant_def new_qdrant_def)
  have "plain_version ''v2''" by (simp add: plain_version_def startswith_def)
  from qdrant_alias_roundtrip [OF this st'] st' show ?thesis
    by (auto simp: example_qdrant_def new_qdrant_def)
qed

end
