(* ===== verification/Embedding.thy ===== *)
theory Embedding
  imports Calls Ingest "HOL-Library.Word"
begin

text \<open>
  The embedders, \<open>src/rag/embedding/hash_embedder.py\<close> and \<open>openai.py\<close>. SHA-256 on bytes and the calls
  of the client library are arguments; a byte is an \<^typ>\<open>8 word\<close> and the four bytes that
  \<open>struct.unpack_from\<close> reads are a \<^typ>\<open>32 word\<close>. Both lemmas at the end state the shape of the
  vectors: the stores and the semantic cache compare them as they are.
\<close>

section \<open>The hash embedder\<close>

type_synonym bytes = "8 word list"

definition encode :: "string \<Rightarrow> bytes" where
  "encode t = map of_char (concat (map utf8_char t))"

text \<open>\<open>struct.unpack_from(">I", seed, i)[0]\<close>, and the offsets \<open>range(0, len(seed) - 3, 4)\<close>.\<close>

definition unpack_u32 :: "bytes \<Rightarrow> nat \<Rightarrow> 32 word" where
  "unpack_u32 seed i = word_rcat (take 4 (drop i seed))"

definition word_offsets :: "bytes \<Rightarrow> nat list" where
  "word_offsets seed = map (\<lambda>k. 4 * k) [0 ..< length seed div 4]"

definition unit_value :: "32 word \<Rightarrow> real" where
  "unit_value raw = real (unat raw) / 4294967295 * 2 - 1"

text \<open>The inner loop, which ends early when the vector is long enough.\<close>

fun fill_from :: "int \<Rightarrow> bytes \<Rightarrow> nat list \<Rightarrow> real list \<Rightarrow> real list" where
  "fill_from dimensions seed [] vals = vals"
| "fill_from dimensions seed (i # is) vals =
     (let vals = vals @ [unit_value (unpack_u32 seed i)]
      in if dimensions \<le> int (length vals) then vals else fill_from dimensions seed is vals)"

text \<open>The outer loop hashes the seed until there are enough values; nothing in it bounds the rounds.\<close>

partial_function (option) hash_values ::
    "(bytes \<Rightarrow> bytes) \<Rightarrow> int \<Rightarrow> bytes \<Rightarrow> real list \<Rightarrow> real list option" where
  "hash_values sha dimensions seed vals =
     (if dimensions \<le> int (length vals) then Some vals
      else hash_values sha dimensions (sha seed) (fill_from dimensions seed (word_offsets seed) vals))"

definition hash_vector :: "(bytes \<Rightarrow> bytes) \<Rightarrow> int \<Rightarrow> string \<Rightarrow> real list option" where
  "hash_vector sha dimensions t =
     (case hash_values sha dimensions (sha (encode t)) [] of
        None \<Rightarrow> None
      | Some vals \<Rightarrow>
          let root = sqrt (sum_list (map (\<lambda>v. v * v) vals));
              norm = (if root = 0 then 1 else root)
          in Some (map (\<lambda>v. v / norm) vals))"

definition hash_embed :: "(bytes \<Rightarrow> bytes) \<Rightarrow> int \<Rightarrow> string list \<Rightarrow> real list list option" where
  "hash_embed sha dimensions texts = those (map (hash_vector sha dimensions) texts)"

definition hash_embed_query :: "(bytes \<Rightarrow> bytes) \<Rightarrow> int \<Rightarrow> string \<Rightarrow> real list option" where
  "hash_embed_query = hash_vector"

definition hash_model_name :: "int \<Rightarrow> string" where
  "hash_model_name dimensions = ''hash-'' @ show_int dimensions"

section \<open>The OpenAI embedder\<close>

record embedding_item =
  ei_index :: int
  ei_embedding :: "real list"

text \<open>\<open>client.embeddings.create(model=..., input=..., dimensions=...)\<close> is the field \<open>oe_create\<close>.\<close>

record 'w openai_embedder =
  oe_model_name :: string
  oe_dimensions :: int
  oe_create :: "string \<Rightarrow> string list \<Rightarrow> int \<Rightarrow> ('w, embedding_item list) call"

definition no_key :: "string option \<Rightarrow> bool" where
  "no_key api_key \<longleftrightarrow> api_key = None \<or> api_key = Some []"

definition new_openai_embedder ::
    "string \<Rightarrow> int \<Rightarrow> string option \<Rightarrow> (string \<Rightarrow> string list \<Rightarrow> int \<Rightarrow> ('w, embedding_item list) call)
     \<Rightarrow> 'w openai_embedder result" where
  "new_openai_embedder model dimensions api_key create =
     (if no_key api_key then Inl (ValueError ''OPENAI_API_KEY is required for OpenAIEmbedder'')
      else Inr \<lparr>oe_model_name = model, oe_dimensions = dimensions, oe_create = create\<rparr>)"

definition MAX_BATCH :: nat where
  "MAX_BATCH = 128"

fun embed_batches ::
    "'w openai_embedder \<Rightarrow> string list \<Rightarrow> nat list \<Rightarrow> real list list \<Rightarrow> ('w, real list list) call" where
  "embed_batches E texts [] vectors = return (Inr vectors)"
| "embed_batches E texts (start # starts) vectors =
     and_then (oe_create E (oe_model_name E) (take MAX_BATCH (drop start texts)) (oe_dimensions E)) (\<lambda>data.
       embed_batches E texts starts (vectors @ map ei_embedding (sort_key ei_index data)))"

text \<open>\<open>range(0, len(texts), _MAX_BATCH)\<close>\<close>

definition batch_starts :: "nat \<Rightarrow> nat list" where
  "batch_starts n = map (\<lambda>k. MAX_BATCH * k) [0 ..< (n + MAX_BATCH - 1) div MAX_BATCH]"

definition openai_embed :: "'w openai_embedder \<Rightarrow> string list \<Rightarrow> ('w, real list list) call" where
  "openai_embed E texts =
     (if texts = [] then return (Inr []) else embed_batches E texts (batch_starts (length texts)) [])"

definition openai_embed_query :: "'w openai_embedder \<Rightarrow> string \<Rightarrow> ('w, real list) call" where
  "openai_embed_query E t =
     and_then (openai_embed E [t]) (\<lambda>vectors.
       if vectors = [] then return (Inl (RuntimeError ''embedding request returned no vectors''))
       else return (Inr (hd vectors)))"

section \<open>Vectors have the promised shape\<close>

lemma fill_from_eq:
  "int (length vals) < dimensions \<Longrightarrow>
   fill_from dimensions seed is vals
     = vals @ map (\<lambda>i. unit_value (unpack_u32 seed i)) (take (nat dimensions - length vals) is)"
proof (induction "is" arbitrary: vals)
  case (Cons i "is")
  then obtain m where m: "nat dimensions - length vals = Suc m" "nat dimensions - Suc (length vals) = m"
    by (metis Suc_diff_Suc nat_less_iff of_nat_0_le_iff zless_nat_eq_int_zless)
  show ?case
  proof (cases "dimensions \<le> int (Suc (length vals))")
    case True
    then have "m = 0" using m by simp
    with True m show ?thesis by (simp add: Let_def)
  next
    case False
    with Cons.IH [of "vals @ [unit_value (unpack_u32 seed i)]"] m show ?thesis
      by (simp add: Let_def)
  qed
qed simp

lemma hash_values_exact:
  assumes sha: "\<And>b. length (sha b) = 32" and seed: "length seed = 32"
    and "int (length vals) \<le> max 0 dimensions" "set vals \<subseteq> range unit_value"
  shows "\<exists>vs. hash_values sha dimensions seed vals = Some vs \<and> length vs = nat dimensions
     \<and> set vs \<subseteq> range unit_value"
  using assms(2-4)
proof (induction "nat dimensions - length vals" arbitrary: seed vals rule: less_induct)
  case less
  show ?case
  proof (cases "dimensions \<le> int (length vals)")
    case True
    with less.prems show ?thesis
      by (subst hash_values.simps) auto
  next
    case False
    let ?more = "map (\<lambda>i. unit_value (unpack_u32 seed i)) (take (nat dimensions - length vals) (word_offsets seed))"
    have next_values: "fill_from dimensions seed (word_offsets seed) vals = vals @ ?more"
      using False by (intro fill_from_eq) simp
    have more: "0 < length ?more" "length ?more \<le> nat dimensions - length vals"
      using False less.prems(1) by (simp_all add: word_offsets_def)
    have shorter: "nat dimensions - length (vals @ ?more) < nat dimensions - length vals"
      unfolding length_append using more by linarith
    have "int (length (vals @ ?more)) \<le> max 0 dimensions"
      unfolding length_append using more False by linarith
    moreover have "set (vals @ ?more) \<subseteq> range unit_value"
      using less.prems(3) by auto
    ultimately
    obtain vs where "hash_values sha dimensions (sha seed) (vals @ ?more) = Some vs" "length vs = nat dimensions"
        "set vs \<subseteq> range unit_value"
      using less.hyps [OF shorter sha] by blast
    with False next_values show ?thesis
      by (subst hash_values.simps) simp
  qed
qed

lemma unit_value_nonzero: "unit_value raw \<noteq> 0"
proof
  assume "unit_value raw = 0"
  then have "real (unat raw * 2) = real 4294967295"
    by (simp add: unit_value_def field_simps)
  then have "unat raw * 2 = 4294967295"
    by (simp only: of_nat_eq_iff)
  then show False by presburger
qed

lemma sum_squares_unit:
  assumes "r = sqrt (sum_list (map (\<lambda>v. v * v) vs))" "r \<noteq> 0"
  shows "sum_list (map (\<lambda>v. (v / r)\<^sup>2) vs) = 1"
proof -
  have "0 \<le> sum_list (map (\<lambda>v. v * v) vs)"
    by (induction vs) simp_all
  then have "r\<^sup>2 = sum_list (map (\<lambda>v. v * v) vs)"
    using assms(1) by simp
  moreover have "sum_list (map (\<lambda>v. (v / r)\<^sup>2) vs) = sum_list (map (\<lambda>v. v * v) vs) / r\<^sup>2"
    by (induction vs) (simp_all add: power2_eq_square field_simps add_divide_distrib)
  ultimately show ?thesis
    using assms(2) by (metis divide_self power_eq_0_iff)
qed

lemma sum_squares_nonzero:
  fixes vs :: "real list"
  assumes "vs \<noteq> []" "0 \<notin> set vs"
  shows "sum_list (map (\<lambda>v. v * v) vs) \<noteq> 0"
proof -
  obtain v ws where "vs = v # ws" using assms(1) by (cases vs) auto
  moreover have "0 \<le> sum_list (map (\<lambda>v. v * v) ws)"
    by (induction ws) simp_all
  moreover have "0 < v * v"
    using assms(2) calculation(1) by (auto simp: zero_less_mult_iff)
  ultimately show ?thesis by simp
qed

lemma unit_component:
  fixes vs :: "real list"
  assumes "sum_list (map (\<lambda>v. v\<^sup>2) vs) = 1" "v \<in> set vs"
  shows "\<bar>v\<bar> \<le> 1"
proof -
  have "v\<^sup>2 \<le> sum_list (map (\<lambda>v. v\<^sup>2) vs)"
    using assms(2) by (intro member_le_sum_list) auto
  with assms(1) have "v\<^sup>2 \<le> 1" by simp
  then show ?thesis
    by (simp add: abs_square_le_1)
qed

lemma hash_vector_exact:
  assumes "\<And>b. length (sha b) = 32"
  shows "\<exists>vs. hash_vector sha dimensions t = Some vs \<and> length vs = nat dimensions
     \<and> (\<forall>v \<in> set vs. \<bar>v\<bar> \<le> 1) \<and> (0 < dimensions \<longrightarrow> sum_list (map (\<lambda>v. v\<^sup>2) vs) = 1)"
proof -
  obtain vs where vs: "hash_values sha dimensions (sha (encode t)) [] = Some vs" "length vs = nat dimensions"
      "set vs \<subseteq> range unit_value"
    using hash_values_exact [of sha "sha (encode t)" "[]" dimensions] assms by auto
  show ?thesis
  proof (cases "0 < dimensions")
    case False
    with vs show ?thesis by (simp add: hash_vector_def)
  next
    case True
    let ?r = "sqrt (sum_list (map (\<lambda>v. v * v) vs))"
    have "0 \<notin> set vs"
      using vs(3) unit_value_nonzero by (auto simp: subset_iff image_iff)
    moreover have "vs \<noteq> []"
      using True vs(2) by auto
    ultimately have r: "?r \<noteq> 0"
      using sum_squares_nonzero [of vs] by simp
    have result: "hash_vector sha dimensions t = Some (map (\<lambda>v. v / ?r) vs)"
      using vs(1) r by (simp add: hash_vector_def Let_def)
    have sum: "sum_list (map (\<lambda>v. v\<^sup>2) (map (\<lambda>v. v / ?r) vs)) = 1"
      using sum_squares_unit [OF refl r] by (simp add: o_def)
    with result vs(2) unit_component [OF sum] show ?thesis
      by (intro exI [of _ "map (\<lambda>v. v / ?r) vs"]) simp
  qed
qed

section \<open>Batches line up\<close>

definition item_at :: "(string \<Rightarrow> real list) \<Rightarrow> nat \<times> string \<Rightarrow> embedding_item" where
  "item_at f p = \<lparr>ei_index = int (fst p), ei_embedding = f (snd p)\<rparr>"

text \<open>
  What the service documents: one item per text, with the index of the text in the request, in any
  order.
\<close>

definition embeds :: "'w openai_embedder \<Rightarrow> (string \<Rightarrow> real list) \<Rightarrow> bool" where
  "embeds E f \<longleftrightarrow> (\<forall>batch w data w'.
     oe_create E (oe_model_name E) batch (oe_dimensions E) w = (Inr data, w')
     \<longrightarrow> mset data = mset (map (item_at f) (enumerate 0 batch)))"

lemma item_indices: "map ei_index (map (item_at f) (enumerate n batch)) = map int [n ..< n + length batch]"
proof -
  have "map ei_index (map (item_at f) xs) = map int (map fst xs)" for xs
    by (simp add: item_at_def)
  then show ?thesis by (simp only: map_fst_enumerate)
qed

lemma sorted_items: "mset data = mset (map (item_at f) (enumerate 0 batch)) \<Longrightarrow>
   sort_key ei_index data = map (item_at f) (enumerate 0 batch)"
proof (rule sort_key_inj_key_eq)
  have keys: "map ei_index (map (item_at f) (enumerate 0 batch)) = map int [0 ..< length batch]"
    using item_indices [of f 0 batch] by simp
  have "distinct (map ei_index (map (item_at f) (enumerate 0 batch)))"
    unfolding keys by (simp add: distinct_map)
  moreover assume m: "mset data = mset (map (item_at f) (enumerate 0 batch))"
  ultimately show "inj_on ei_index (set data)"
    by (metis distinct_map mset_eq_setD)
  show "mset data = mset (map (item_at f) (enumerate 0 batch))" by (rule m)
  have "sorted (map int [0 ..< length batch])"
    by (simp add: sorted_iff_nth_mono)
  then show "sorted (map ei_index (map (item_at f) (enumerate 0 batch)))"
    unfolding keys .
qed

lemma item_embeddings: "map ei_embedding (map (item_at f) (enumerate n batch)) = map f batch"
  by (induction batch arbitrary: n) (simp_all add: item_at_def)

lemma embed_batches_aligned:
  assumes "embeds E f"
  shows "embed_batches E texts starts vectors w = (Inr vs, w') \<Longrightarrow>
     vs = vectors @ concat (map (\<lambda>start. map f (take MAX_BATCH (drop start texts))) starts)"
proof (induction starts arbitrary: vectors w)
  case (Cons start starts)
  let ?batch = "take MAX_BATCH (drop start texts)"
  obtain data w1 where data: "oe_create E (oe_model_name E) ?batch (oe_dimensions E) w = (Inr data, w1)"
      and rest: "embed_batches E texts starts (vectors @ map ei_embedding (sort_key ei_index data)) w1 = (Inr vs, w')"
    using Cons.prems by (auto elim: and_then_InrE)
  have "mset data = mset (map (item_at f) (enumerate 0 ?batch))"
    using assms data unfolding embeds_def by blast
  then have "map ei_embedding (sort_key ei_index data) = map f ?batch"
    by (simp only: sorted_items item_embeddings)
  with Cons.IH [OF rest] show ?case
    by (simp only: append_assoc list.map concat.simps)
qed simp

lemma windows_cover: "concat (map (\<lambda>k. take b (drop (b * k) xs)) [0 ..< n]) = take (b * n) xs"
proof (induction n)
  case (Suc n)
  have "take (b * n) xs @ take b (drop (b * n) xs) = take (b * n + b) xs"
    by (simp add: take_add)
  with Suc show ?case by (simp add: add.commute)
qed simp

lemma batches_cover: "concat (map (\<lambda>start. map f (take MAX_BATCH (drop start texts))) (batch_starts (length texts)))
   = map f texts"
proof -
  let ?n = "(length texts + MAX_BATCH - 1) div MAX_BATCH"
  have "concat (map (\<lambda>start. map f (take MAX_BATCH (drop start texts))) (batch_starts (length texts)))
      = map f (concat (map (\<lambda>k. take MAX_BATCH (drop (MAX_BATCH * k) texts)) [0 ..< ?n]))"
    by (simp add: batch_starts_def map_concat o_def)
  also have "\<dots> = map f (take (MAX_BATCH * ?n) texts)"
    by (simp only: windows_cover)
  also have "length texts \<le> MAX_BATCH * ?n"
    by (simp add: MAX_BATCH_def)
  then have "map f (take (MAX_BATCH * ?n) texts) = map f texts" by simp
  finally show ?thesis .
qed

lemma embed_batches_total:
  assumes "\<And>batch w. \<exists>data w'. oe_create E (oe_model_name E) batch (oe_dimensions E) w = (Inr data, w') \<and> n w' = Suc (n w)"
  shows "\<exists>vs w'. embed_batches E texts starts vectors w = (Inr vs, w') \<and> n w' = n w + length starts"
proof (induction starts arbitrary: vectors w)
  case (Cons start starts)
  obtain data w1 where "oe_create E (oe_model_name E) (take MAX_BATCH (drop start texts)) (oe_dimensions E) w = (Inr data, w1)"
      "n w1 = Suc (n w)"
    using assms by blast
  with Cons.IH [of "vectors @ map ei_embedding (sort_key ei_index data)" w1] show ?case
    by (simp add: and_then_def)
qed (simp add: return_def)

section \<open>Properties\<close>

text \<open>
  C36: whatever the texts, the hash embedder returns (its loop ends), one vector per text, each with
  exactly \<open>dimensions\<close> components between -1 and 1 and, unless there are none, of length 1, so that
  the cosine of two of them is their product. All that SHA-256 has to be for this is 32 bytes long.
\<close>

theorem hash_vectors_exact:
  assumes "\<And>b. length (sha b) = 32"
  shows "\<exists>vss. hash_embed sha dimensions texts = Some vss
     \<and> list_all2 (\<lambda>t vs. hash_embed_query sha dimensions t = Some vs) texts vss
     \<and> (\<forall>vs \<in> set vss. length vs = nat dimensions \<and> (\<forall>v \<in> set vs. \<bar>v\<bar> \<le> 1)
          \<and> (0 < dimensions \<longrightarrow> sum_list (map (\<lambda>v. v\<^sup>2) vs) = 1))"
proof -
  obtain f where f: "\<And>t. hash_vector sha dimensions t = Some (f t) \<and> length (f t) = nat dimensions
     \<and> (\<forall>v \<in> set (f t). \<bar>v\<bar> \<le> 1) \<and> (0 < dimensions \<longrightarrow> sum_list (map (\<lambda>v. v\<^sup>2) (f t)) = 1)"
    using hash_vector_exact [of sha dimensions] assms by metis
  have "hash_embed sha dimensions texts = Some (map f texts)"
    using f by (induction texts) (simp_all add: hash_embed_def)
  with f show ?thesis
    by (auto simp: hash_embed_query_def list_all2_conv_all_nth)
qed

lemma hash_vectors_exact_witness:
  "\<exists>a b. hash_embed (\<lambda>s. replicate 32 (of_nat (length s))) 10 [''one'', ''three''] = Some [a, b]
     \<and> length a = 10 \<and> sum_list (map (\<lambda>v. v\<^sup>2) b) = 1"
proof -
  let ?sha = "\<lambda>s :: bytes. replicate 32 (of_nat (length s)) :: bytes"
  obtain vss where vss: "hash_embed ?sha 10 [''one'', ''three''] = Some vss"
      "list_all2 (\<lambda>t vs. hash_embed_query ?sha 10 t = Some vs) [''one'', ''three''] vss"
      "\<forall>vs \<in> set vss. length vs = nat 10 \<and> (\<forall>v \<in> set vs. \<bar>v\<bar> \<le> 1)
          \<and> ((0 :: int) < 10 \<longrightarrow> sum_list (map (\<lambda>v. v\<^sup>2) vs) = 1)"
    using hash_vectors_exact [of ?sha 10 "[''one'', ''three'']"] by auto
  then obtain a b where "vss = [a, b]"
    by (auto simp: list_all2_Cons1)
  with vss(1,3) show ?thesis by auto
qed

text \<open>
  the OpenAI embedder asks in batches of 128 and gives the vectors back in the order of the
  texts, although the service may order a response as it likes: when it returns, its value is the
  list of the embeddings of the texts, one for one; and it returns whenever every call does, after
  \<open>\<lceil>n / 128\<rceil>\<close> calls.
\<close>

theorem openai_embed_aligned:
  assumes "embeds E f"
  shows "(openai_embed E texts w = (Inr vs, w') \<longrightarrow> vs = map f texts)
     \<and> ((\<forall>batch w. \<exists>data w'. oe_create E (oe_model_name E) batch (oe_dimensions E) w = (Inr data, w') \<and> n w' = Suc (n w))
        \<longrightarrow> (\<exists>v. openai_embed E texts w = (Inr (map f texts), v) \<and> n v = n w + (length texts + 127) div 128))"
proof -
  have aligned: "vs = map f texts" if "openai_embed E texts w = (Inr vs, w')" for vs w'
    using that embed_batches_aligned [OF assms, of texts "batch_starts (length texts)" "[]" w vs w'] batches_cover [of f texts]
    by (auto simp: openai_embed_def split: if_splits)
  have total: "\<exists>v. openai_embed E texts w = (Inr (map f texts), v) \<and> n v = n w + (length texts + 127) div 128"
    if calls: "\<forall>batch w. \<exists>data w'. oe_create E (oe_model_name E) batch (oe_dimensions E) w = (Inr data, w') \<and> n w' = Suc (n w)"
  proof -
    have starts: "length (batch_starts (length texts)) = (length texts + 127) div 128"
      by (simp add: batch_starts_def MAX_BATCH_def)
    obtain vs v where "embed_batches E texts (batch_starts (length texts)) [] w = (Inr vs, v)"
        "n v = n w + length (batch_starts (length texts))"
      using embed_batches_total [of E n texts "batch_starts (length texts)" "[]" w] calls by blast
    then have "openai_embed E texts w = (Inr (if texts = [] then [] else vs), v) \<and> n v = n w + (length texts + 127) div 128"
      using starts by (auto simp: openai_embed_def batch_starts_def MAX_BATCH_def)
    with aligned show ?thesis by metis
  qed
  from aligned total show ?thesis by blast
qed

definition example_service :: "nat openai_embedder" where
  "example_service = \<lparr>oe_model_name = ''m'', oe_dimensions = 1,
     oe_create = (\<lambda>m batch d w. (Inr (rev (map (item_at (\<lambda>t. [real (length t)])) (enumerate 0 batch))), Suc w))\<rparr>"

lemma openai_embed_aligned_witness:
  "\<exists>v. openai_embed example_service [''a'', ''bcd''] 0 = (Inr [[1], [3]], v) \<and> v = 1"
proof -
  have "embeds example_service (\<lambda>t. [real (length t)])"
    by (simp add: embeds_def example_service_def)
  note aligned = conjunct2 [OF openai_embed_aligned [OF this, where n = id and vs = "[]" and w' = 0]]
  have calls: "\<forall>batch w. \<exists>data w'. oe_create example_service (oe_model_name example_service) batch (oe_dimensions example_service) w
      = (Inr data, w') \<and> id w' = Suc (id w)"
    by (simp add: example_service_def)
  have vectors: "map (\<lambda>t. [real (length t)]) [''a'', ''bcd''] = [[1], [3]]"
    by simp
  have count: "id (0 :: nat) + (length [''a'', ''bcd''] + 127) div 128 = 1"
    by simp
  from aligned [THEN mp, OF calls, of "[''a'', ''bcd'']" 0] show ?thesis
    unfolding vectors count by (simp only: id_apply)
qed

end
