(* ===== verification/Providers.thy ===== *)
theory Providers
  imports Deployment Chunking Calls
begin

text \<open>
  The models behind the two model interfaces: the stubs \<open>src/rag/llm/echo.py\<close> and \<open>echo_chat.py\<close>, the
  adapters \<open>openai.py\<close> and \<open>openai_chat.py\<close> with the conversions between messages and the JSON of the
  service, and the chat wrapper \<open>resilient_chat.py\<close>. The calls of the client library and \<open>json.loads\<close>
  are arguments.
\<close>

section \<open>Strings\<close>

text \<open>\<open>t.split(sep, 1)[0]\<close> and \<open>t.split(sep, 1)[1]\<close> for a separator that occurs in the text.\<close>

definition part_before :: "string \<Rightarrow> string \<Rightarrow> string" where
  "part_before sep t = (case find_from t sep 0 of None \<Rightarrow> t | Some i \<Rightarrow> take i t)"

definition part_after :: "string \<Rightarrow> string \<Rightarrow> string" where
  "part_after sep t = (case find_from t sep 0 of None \<Rightarrow> [] | Some i \<Rightarrow> drop (i + length sep) t)"

text \<open>\<open>str.splitlines\<close>: a carriage return and the line feed after it are one break.\<close>

definition line_break :: "char \<Rightarrow> bool" where
  "line_break c \<longleftrightarrow> code c \<in> {10, 11, 12, 13, 28, 29, 30, 133}"

fun splitlines :: "string \<Rightarrow> string list" where
  "splitlines [] = []"
| "splitlines [c] = (if line_break c then [[]] else [[c]])"
| "splitlines (c # d # cs) =
     (if code c = 13 \<and> code d = 10 then [] # splitlines cs
      else if line_break c then [] # splitlines (d # cs)
      else (case splitlines (d # cs) of [] \<Rightarrow> [[c]] | l # ls \<Rightarrow> (c # l) # ls))"

definition rstrip_char :: "char \<Rightarrow> string \<Rightarrow> string" where
  "rstrip_char c t = rev (dropWhile (\<lambda>x. x = c) (rev t))"

section \<open>The stub models\<close>

definition counted_usage :: "string \<Rightarrow> int \<Rightarrow> int \<Rightarrow> int \<Rightarrow> usage" where
  "counted_usage model prompt_tokens completion_tokens total_tokens =
     default_usage\<lparr>u_prompt_tokens := prompt_tokens, u_completion_tokens := completion_tokens,
       u_total_tokens := total_tokens,
       u_cost_usd := estimate_cost_usd model prompt_tokens completion_tokens, u_model := model\<rparr>"

definition marker_id :: "string \<Rightarrow> string" where
  "marker_id m = ''['' @ rstrip_char (CHR '']'') (part_after ''='' m) @ '']''"

definition echo_text :: "string \<Rightarrow> string" where
  "echo_text prompt =
     (if \<not> contains prompt ''## Context'' then prompt
      else
        let after = part_after ''## Context'' prompt;
            after = (if contains after ''## Instructions'' then part_before ''## Instructions'' after else after);
            ls = filter (\<lambda>l. l \<noteq> []) (map strip (splitlines (strip after)));
            body_lines = filter (\<lambda>l. \<not> startswith l ''['' \<and> \<not> startswith l ''#'') ls
        in if body_lines = [] then prompt
           else
             let t = py_join '' '' (take 4 body_lines);
                 markers = filter (\<lambda>l. startswith l ''[chunk_id='') ls
             in if markers = [] then t
                else strip (t @ '' '' @ py_join '' '' (map marker_id (take 3 markers))))"

definition echo_complete :: "string \<Rightarrow> 'w \<Rightarrow> (string \<times> usage) result \<times> 'w" where
  "echo_complete prompt w =
     (let t = echo_text prompt;
          prompt_tokens = max (int (length (split_ws prompt))) 1;
          completion_tokens = max (int (length (split_ws t))) 1
      in (Inr (t, counted_usage ''echo'' prompt_tokens completion_tokens (prompt_tokens + completion_tokens)), w))"

definition echo_llm :: "'w llm" where
  "echo_llm = \<lparr>llm_model_name = ''echo'', llm_complete = echo_complete\<rparr>"

text \<open>\<open>FlakyLLM\<close>: its state is the number of calls so far.\<close>

definition flaky_complete :: "string \<Rightarrow> int \<Rightarrow> string \<Rightarrow> int \<Rightarrow> (string \<times> usage) result \<times> int" where
  "flaky_complete model fail_times prompt calls =
     (let calls = calls + 1
      in (if calls \<le> fail_times then Inl (RuntimeError (model @ '' transient failure '' @ show_int calls))
          else Inr (''ok from '' @ model, default_usage\<lparr>u_model := model\<rparr>), calls))"

definition flaky_llm :: "string \<Rightarrow> int \<Rightarrow> (string, string \<times> usage, int) client" where
  "flaky_llm model fail_times =
     \<lparr>cl_model = model, cl_call = flaky_complete model fail_times,
      cl_call_within = (\<lambda>t prompt calls. apfst Some (flaky_complete model fail_times prompt calls))\<rparr>"

text \<open>\<open>EchoChatLLM\<close>: a script, the position in it, and the requests seen.\<close>

record scripted_turn =
  sn_content :: string
  sn_tool_calls :: "tool_call list"
  sn_finish_reason :: string

record echo_chat =
  ec_model_name :: string
  ec_script :: "scripted_turn list"
  ec_cursor :: nat
  ec_calls :: "message list list"

definition new_echo_chat :: "scripted_turn list \<Rightarrow> echo_chat" where
  "new_echo_chat script = \<lparr>ec_model_name = ''echo-chat'', ec_script = script, ec_cursor = 0, ec_calls = []\<rparr>"

text \<open>A finish reason that is none of the four becomes \<open>stop\<close>.\<close>

definition finish_of :: "string \<Rightarrow> finish_reason" where
  "finish_of s =
     (if s = ''tool_calls'' then Fin_Tool_Calls
      else if s = ''length'' then Fin_Length
      else if s = ''content_filter'' then Fin_Content_Filter
      else Fin_Stop)"

definition assistant_message :: "string \<Rightarrow> tool_call list \<Rightarrow> message" where
  "assistant_message content calls = (plain_message Assistant content)\<lparr>m_tool_calls := calls\<rparr>"

definition echo_chat_step :: "message list \<Rightarrow> echo_chat \<Rightarrow> chat_completion \<times> echo_chat" where
  "echo_chat_step messages C =
     (let (turn, cursor) =
            (if ec_cursor C < length (ec_script C) then (ec_script C ! ec_cursor C, ec_cursor C + 1)
             else (\<lparr>sn_content = [], sn_tool_calls = [], sn_finish_reason = ''stop''\<rparr>, ec_cursor C));
          finish = (if sn_tool_calls turn \<noteq> [] then Fin_Tool_Calls else finish_of (sn_finish_reason turn));
          prompt_tokens = max (int (sum_list (map (\<lambda>m. length (split_ws (m_content m))) messages))) 1;
          completion_tokens =
            max (int (length (split_ws (sn_content turn))) + 2 * int (length (sn_tool_calls turn))) 1
      in (\<lparr>cc_message = assistant_message (sn_content turn) (sn_tool_calls turn),
           cc_usage = counted_usage (ec_model_name C) prompt_tokens completion_tokens (prompt_tokens + completion_tokens),
           cc_finish_reason = finish\<rparr>,
          C\<lparr>ec_cursor := cursor, ec_calls := ec_calls C @ [messages]\<rparr>))"

definition echo_chat_reset :: "echo_chat \<Rightarrow> echo_chat" where
  "echo_chat_reset C = C\<lparr>ec_cursor := 0, ec_calls := []\<rparr>"

section \<open>OpenAI\<close>

text \<open>\<open>json.dumps\<close> with its default separators; the members keep their order.\<close>

primrec json_spaced :: "(real \<Rightarrow> string) \<Rightarrow> json \<Rightarrow> string" where
  "json_spaced frepr JNull = ''null''"
| "json_spaced frepr (JBool b) = (if b then ''true'' else ''false'')"
| "json_spaced frepr (JInt i) = show_int i"
| "json_spaced frepr (JFloat x) = frepr x"
| "json_spaced frepr (JStr s) = json_string s"
| "json_spaced frepr (JList js) = ''['' @ py_join '', '' (map (json_spaced frepr) js) @ '']''"
| "json_spaced frepr (JDict kvs) =
     ''{'' @ py_join '', '' (map (\<lambda>kv. json_string (fst kv) @ '': '' @ snd kv)
                               (map (map_prod id (json_spaced frepr)) kvs)) @ ''}''"

text \<open>The parts of a response the adapters read; an attribute that is missing or null is \<open>None\<close>.\<close>

record raw_tool_call =
  rc_id :: json
  rc_name :: json
  rc_arguments :: "string option"

record raw_choice =
  rx_content :: "string option"
  rx_tool_calls :: "raw_tool_call list option"
  rx_finish_reason :: "string option"

record raw_usage =
  ru_prompt_tokens :: "int option"
  ru_completion_tokens :: "int option"
  ru_total_tokens :: "int option option"

record raw_response =
  rr_choices :: "raw_choice list"
  rr_usage :: "raw_usage option"

definition or_zero :: "int option \<Rightarrow> int" where
  "or_zero n = (case n of None \<Rightarrow> 0 | Some i \<Rightarrow> i)"

definition or_empty :: "'a list option \<Rightarrow> 'a list" where
  "or_empty x = (case x of None \<Rightarrow> [] | Some xs \<Rightarrow> xs)"

text \<open>
  \<open>getattr(usage, field, default) or 0\<close>. Only \<open>total_tokens\<close> has a default that is not zero, so only it
  tells a missing attribute (\<open>None\<close>) from a null one (\<open>Some None\<close>).
\<close>

definition read_usage :: "string \<Rightarrow> raw_usage option \<Rightarrow> usage" where
  "read_usage model usage =
     (let prompt_tokens = (case usage of None \<Rightarrow> 0 | Some u \<Rightarrow> or_zero (ru_prompt_tokens u));
          completion_tokens = (case usage of None \<Rightarrow> 0 | Some u \<Rightarrow> or_zero (ru_completion_tokens u));
          total_tokens =
            (case Option.bind usage ru_total_tokens of
               None \<Rightarrow> prompt_tokens + completion_tokens
             | Some n \<Rightarrow> or_zero n)
      in counted_usage model prompt_tokens completion_tokens total_tokens)"

record 'w openai_client =
  oa_model_name :: string
  oa_max_output_tokens :: int
  oa_temperature :: real
  oa_create :: "json_dict \<Rightarrow> ('w, raw_response) call"

definition new_openai :: "string \<Rightarrow> string \<Rightarrow> string option \<Rightarrow> int \<Rightarrow> real \<Rightarrow> (json_dict \<Rightarrow> ('w, raw_response) call)
    \<Rightarrow> 'w openai_client result" where
  "new_openai who model api_key max_output_tokens temperature create =
     (if api_key = None \<or> api_key = Some []
      then Inl (ValueError (''OPENAI_API_KEY is required for '' @ who))
      else Inr \<lparr>oa_model_name = model, oa_max_output_tokens = max_output_tokens, oa_temperature = temperature,
             oa_create = create\<rparr>)"

definition first_choice :: "raw_response \<Rightarrow> raw_choice result" where
  "first_choice r = (case rr_choices r of [] \<Rightarrow> Inl (IndexError ''list index out of range'') | c # cs \<Rightarrow> Inr c)"

definition openai_complete :: "'w openai_client \<Rightarrow> string \<Rightarrow> ('w, string \<times> usage) call" where
  "openai_complete A prompt =
     and_then (oa_create A
       [(''model'', JStr (oa_model_name A)),
        (''messages'', JList [JDict [(''role'', JStr ''user''), (''content'', JStr prompt)]]),
        (''max_completion_tokens'', JInt (oa_max_output_tokens A)), (''temperature'', JFloat (oa_temperature A))])
     (\<lambda>response. return (bind_result (first_choice response) (\<lambda>choice.
        Inr (or_empty (rx_content choice), read_usage (oa_model_name A) (rr_usage response)))))"

fun role_name :: "role \<Rightarrow> string" where
  "role_name System = ''system''"
| "role_name User = ''user''"
| "role_name Assistant = ''assistant''"
| "role_name Tool_role = ''tool''"

definition to_openai_call :: "(real \<Rightarrow> string) \<Rightarrow> tool_call \<Rightarrow> json" where
  "to_openai_call frepr tc =
     JDict [(''id'', JStr (tc_id tc)), (''type'', JStr ''function''),
       (''function'', JDict [(''name'', JStr (tc_name tc)),
          (''arguments'', JStr (json_spaced frepr (JDict (tc_arguments tc))))])]"

definition to_openai_message :: "(real \<Rightarrow> string) \<Rightarrow> message \<Rightarrow> json_dict" where
  "to_openai_message frepr m =
     [(''role'', JStr (role_name (m_role m))), (''content'', JStr (m_content m))]
     @ (if or_empty (m_name m) = [] then [] else [(''name'', JStr (or_empty (m_name m)))])
     @ (if or_empty (m_tool_call_id m) = [] then [] else [(''tool_call_id'', JStr (or_empty (m_tool_call_id m)))])
     @ (if m_tool_calls m = [] then [] else [(''tool_calls'', JList (map (to_openai_call frepr) (m_tool_calls m)))])"

definition to_openai_tool :: "tool_spec \<Rightarrow> json_dict" where
  "to_openai_tool s =
     [(''type'', JStr ''function''),
      (''function'', JDict [(''name'', JStr (ts_name s)), (''description'', JStr (ts_description s)),
         (''parameters'', JDict (if ts_parameters s \<noteq> [] then ts_parameters s
            else [(''type'', JStr ''object''), (''properties'', JDict []), (''additionalProperties'', JBool False)]))])]"

definition from_openai_tool_call :: "json_reader \<Rightarrow> raw_tool_call \<Rightarrow> tool_call result" where
  "from_openai_tool_call J raw =
     (let t = or_empty (rc_arguments raw);
          raw_json = (case rc_arguments raw of None \<Rightarrow> JNull | Some s \<Rightarrow> JStr s)
      in bind_result
           (case jr_loads J (if t = [] then ''{}'' else t) of
              Inl (ValueError m) \<Rightarrow> Inr [(''_raw'', raw_json)]
            | Inl e \<Rightarrow> Inl e
            | Inr (JDict d) \<Rightarrow> Inr d
            | Inr j \<Rightarrow> Inr [(''_raw'', j)])
           (\<lambda>arguments. Inr \<lparr>tc_id = py_str (jr_frepr J) (rc_id raw), tc_name = py_str (jr_frepr J) (rc_name raw),
              tc_arguments = arguments\<rparr>))"

definition chat_kwargs :: "(real \<Rightarrow> string) \<Rightarrow> 'w openai_client \<Rightarrow> message list \<Rightarrow> tool_spec list option \<Rightarrow> json_dict" where
  "chat_kwargs frepr A messages tools =
     [(''model'', JStr (oa_model_name A)), (''messages'', JList (map (JDict \<circ> to_openai_message frepr) messages)),
      (''max_completion_tokens'', JInt (oa_max_output_tokens A)), (''temperature'', JFloat (oa_temperature A))]
     @ (if or_empty tools = [] then []
        else [(''tools'', JList (map (JDict \<circ> to_openai_tool) (or_empty tools))), (''tool_choice'', JStr ''auto'')])"

definition read_finish :: "string option \<Rightarrow> tool_call list \<Rightarrow> finish_reason" where
  "read_finish finish calls =
     (let f = (if or_empty finish \<noteq> [] then or_empty finish else if calls \<noteq> [] then ''tool_calls'' else ''stop'')
      in if f = ''tool_calls'' \<or> calls \<noteq> [] then Fin_Tool_Calls else finish_of f)"

definition openai_chat ::
    "json_reader \<Rightarrow> 'w openai_client \<Rightarrow> message list \<Rightarrow> tool_spec list option \<Rightarrow> ('w, chat_completion) call" where
  "openai_chat J A messages tools =
     and_then (oa_create A (chat_kwargs (jr_frepr J) A messages tools)) (\<lambda>response.
     return (bind_result (first_choice response) (\<lambda>choice.
       bind_result (map_result (from_openai_tool_call J) (or_empty (rx_tool_calls choice))) (\<lambda>calls.
         Inr \<lparr>cc_message = assistant_message (or_empty (rx_content choice)) calls,
              cc_usage = read_usage (oa_model_name A) (rr_usage response),
              cc_finish_reason = read_finish (rx_finish_reason choice) calls\<rparr>))))"

section \<open>The chat wrapper\<close>

type_synonym 'w chat_client = "(message list \<times> tool_spec list option, chat_completion, 'w) client"

definition resilient_chat ::
    "(py_exn \<Rightarrow> string) \<Rightarrow> (int \<Rightarrow> 'w \<Rightarrow> 'w) \<Rightarrow> retry_policy \<Rightarrow> 'w chat_client \<Rightarrow> 'w chat_client list
     \<Rightarrow> message list \<Rightarrow> tool_spec list option \<Rightarrow> 'w \<Rightarrow> chat_completion result \<times> 'w" where
  "resilient_chat exn_text rest pol primary fallbacks messages tools =
     resilient_call exn_text rest pol primary fallbacks (messages, tools)"

text \<open>As a chat model that no deadline of the turn cancels.\<close>

definition resilient_chat_llm ::
    "(py_exn \<Rightarrow> string) \<Rightarrow> (int \<Rightarrow> 'w \<Rightarrow> 'w) \<Rightarrow> retry_policy \<Rightarrow> 'w chat_client \<Rightarrow> 'w chat_client list \<Rightarrow> 'w chat_llm" where
  "resilient_chat_llm exn_text rest pol primary fallbacks =
     \<lparr>cm_model_name = cl_model primary,
      cm_chat = (\<lambda>messages tools w. apfst Some (resilient_chat exn_text rest pol primary fallbacks messages tools w))\<rparr>"

section \<open>Retries recover\<close>

lemma attempt_flaky: "attempt_call pol (flaky_llm model k) q w = flaky_complete model k q w"
  by (simp add: attempt_call_def flaky_llm_def flaky_complete_def Let_def)

lemma flaky_attempts:
  assumes "i \<le> k + 1"
  shows "if k < rp_max_attempts pol
     then try_client ex (\<lambda>i w. w) pol (flaky_llm model k) q i e (i - 1)
       = (Inr (''ok from '' @ model, default_usage\<lparr>u_model := model\<rparr>), k + 1)
     else \<exists>last. try_client ex (\<lambda>i w. w) pol (flaky_llm model k) q i e (i - 1)
       = (Inl last, max (i - 1) (rp_max_attempts pol))"
  using assms
proof (induction "nat (k + 1 - i)" arbitrary: i e rule: less_induct)
  case less
  show ?case
  proof (cases "rp_max_attempts pol < i \<or> k < i")
    case True
    with less.prems show ?thesis
      by (auto simp: try_client.simps [of _ _ _ _ _ i] attempt_flaky flaky_complete_def Let_def max_def)
  next
    case False
    then have "nat (k + 1 - (i + 1)) < nat (k + 1 - i)" "i + 1 \<le> k + 1" by auto
    from less.hyps [OF this] False show ?thesis
      by (auto simp: try_client.simps [of _ _ _ _ _ i] attempt_flaky flaky_complete_def Let_def max_def)
  qed
qed

text \<open>
  Against a model that fails \<open>k\<close> times and then answers, the wrapper returns that answer after
  exactly \<open>k + 1\<close> calls when the policy allows that many attempts, and otherwise gives up after
  exactly \<open>max_attempts\<close> of them with the error that names the model.
\<close>

theorem retries_recover:
  assumes "0 \<le> k" "1 \<le> rp_max_attempts pol"
  shows "if k < rp_max_attempts pol
     then resilient_call ex (\<lambda>i w. w) pol (flaky_llm model k) [] prompt 0
       = (Inr (''ok from '' @ model, default_usage\<lparr>u_model := model\<rparr>), k + 1)
     else \<exists>last. resilient_call ex (\<lambda>i w. w) pol (flaky_llm model k) [] prompt 0
       = (Inl (LLMUnavailableError [model] last), rp_max_attempts pol)"
  using flaky_attempts [of 1 k pol ex model prompt "''none''"] assms
  by (auto simp: resilient_call_def flaky_llm_def max_def split: if_splits)

lemma retries_recover_witness:
  "resilient_call (\<lambda>e. ''error'') (\<lambda>i w. w) default_policy (flaky_llm ''m'' 2) [] ''q'' 0
     = (Inr (''ok from m'', default_usage\<lparr>u_model := ''m''\<rparr>), 3)"
  using retries_recover [of 2 default_policy "\<lambda>e. ''error''" "''m''" "''q''"]
  by (simp add: default_policy_def)

section \<open>Tool calls read back\<close>

text \<open>What the client library makes of the JSON of a tool call.\<close>

definition raw_call :: "json \<Rightarrow> raw_tool_call" where
  "raw_call j =
     (case j of
        JDict d \<Rightarrow>
          (case get_or d ''function'' (JDict []) of
             JDict f \<Rightarrow> \<lparr>rc_id = get_or d ''id'' JNull, rc_name = get_or f ''name'' JNull,
               rc_arguments = (case get_or f ''arguments'' JNull of JStr s \<Rightarrow> Some s | _ \<Rightarrow> None)\<rparr>
           | _ \<Rightarrow> \<lparr>rc_id = JNull, rc_name = JNull, rc_arguments = None\<rparr>)
      | _ \<Rightarrow> \<lparr>rc_id = JNull, rc_name = JNull, rc_arguments = None\<rparr>)"

lemma tool_call_roundtrip:
  assumes "jr_loads J (json_spaced (jr_frepr J) (JDict (tc_arguments tc))) = Inr (JDict (tc_arguments tc))"
    and "tc_id tc \<noteq> []" "tc_name tc \<noteq> []"
  shows "from_openai_tool_call J (raw_call (to_openai_call (jr_frepr J) tc)) = Inr tc"
  using assms by (simp add: from_openai_tool_call_def to_openai_call_def raw_call_def get_or_def or_empty_def Let_def)

definition closed_registry :: "'w registry \<Rightarrow> bool" where
  "closed_registry R \<longleftrightarrow> (\<forall>(n, t) \<in> set (rg_tools R). good_schema (tl_parameters t) \<and> closed_schema (tl_parameters t)
     \<and> ''_raw'' \<notin> fst ` set (schema_properties (tl_parameters t)))"

lemma raw_rejected:
  assumes "closed_registry R" "tc_arguments call = [(''_raw'', j)]"
  shows "\<exists>err. execute ex frepr R call p b egress iv w = (Some (Inr (failed_result call err)), w)"
proof -
  obtain x w' where x: "execute ex frepr R call p b egress iv w = (x, w')" by fastforce
  have "\<nexists>t. admitted frepr R call egress w t"
  proof
    assume "\<exists>t. admitted frepr R call egress w t"
    then obtain t where t: "map_of (rg_tools R) (tc_name call) = Some t"
        "validate_arguments frepr [(''_raw'', j)] (tl_parameters t) = Inr [(''_raw'', j)]"
      using assms(2) by (auto simp: admitted_def)
    from map_of_SomeD [OF t(1)] assms(1)
    have "good_schema (tl_parameters t)" "\<not> valid_arguments [(''_raw'', j)] (tl_parameters t)"
      by (auto simp: closed_registry_def valid_arguments_def)
    with validated [of "tl_parameters t" "[(''_raw'', j)]" frepr] t(2) show False by auto
  qed
  moreover have "\<forall>(n, t) \<in> set (rg_tools R). good_schema (tl_parameters t)"
    using assms(1) by (auto simp: closed_registry_def)
  ultimately show ?thesis
    using execute_rejected [OF _ x] good_registry_no_raise [of R ex frepr call p b egress iv w] x by auto
qed

text \<open>
  C37: what a model writes as the arguments of a tool call reaches a tool only as a JSON object. Any
  other text, whether it is no JSON or JSON of another kind, still gives a tool call, but one that
  every registry with closed schemas answers with a failed result, without a source and without a
  change of state, whoever asks.
\<close>

theorem malformed_calls_rejected:
  assumes "closed_registry R"
    and "or_empty (rc_arguments raw) \<noteq> []"
    and "\<And>d. jr_loads J (or_empty (rc_arguments raw)) \<noteq> Inr (JDict d)"
    and "\<And>e. jr_loads J (or_empty (rc_arguments raw)) = Inl e \<Longrightarrow> \<exists>m. e = ValueError m"
  shows "\<exists>call. from_openai_tool_call J raw = Inr call
     \<and> (\<forall>ex frepr p b egress iv w. \<exists>err. execute ex frepr R call p b egress iv w = (Some (Inr (failed_result call err)), w))"
proof -
  have "\<exists>call j. from_openai_tool_call J raw = Inr call \<and> tc_arguments call = [(''_raw'', j)]"
  proof (cases "jr_loads J (or_empty (rc_arguments raw))")
    case (Inl e)
    with assms(2,4) show ?thesis by (fastforce simp: from_openai_tool_call_def Let_def)
  next
    case (Inr j)
    with assms(2,3) show ?thesis by (cases j) (auto simp: from_openai_tool_call_def Let_def)
  qed
  with raw_rejected [OF assms(1)] show ?thesis by blast
qed

lemma malformed_calls_rejected_witness:
  "\<exists>call. from_openai_tool_call \<lparr>jr_loads = (\<lambda>t. Inl (ValueError ''no json'')), jr_float = (\<lambda>t. Inr 0), jr_frepr = (\<lambda>x. ''0.0'')\<rparr>
       \<lparr>rc_id = JStr ''c1'', rc_name = JStr ''graph_query'', rc_arguments = Some ''{broken''\<rparr> = Inr call
     \<and> (\<exists>err. execute (\<lambda>e. ''error'') (\<lambda>x. ''0.0'')
           \<lparr>rg_tools = [(''graph_query'', graph_query_tool)], rg_result_cache = None\<rparr> call example_caller
           (new_tracker (agent_budget default_settings) 0) True ''v1'' (0 :: nat)
         = (Some (Inr (failed_result call err)), 0))"
proof -
  let ?J = "\<lparr>jr_loads = (\<lambda>t. Inl (ValueError ''no json'')), jr_float = (\<lambda>t. Inr 0), jr_frepr = (\<lambda>x. ''0.0'')\<rparr>"
  let ?raw = "\<lparr>rc_id = JStr ''c1'', rc_name = JStr ''graph_query'', rc_arguments = Some ''{broken''\<rparr>"
  let ?R = "\<lparr>rg_tools = [(''graph_query'', graph_query_tool)], rg_result_cache = None\<rparr> :: nat registry"
  have "closed_registry ?R"
    by (simp add: closed_registry_def tool_schemas_good)
       (simp add: graph_query_tool_def closed_schema_def schema_of_def schema_properties_def get_or_def)
  from malformed_calls_rejected [OF this, of ?raw ?J]
  show ?thesis by (simp add: or_empty_def) blast
qed

end
