(* ===== verification/Slots.thy ===== *)
theory Slots
  imports Prelude
begin

text \<open>
  The cap on concurrent agent turns, \<open>AppState.agent_semaphore_for\<close> in \<open>src/rag/api/deps.py\<close> and the
  \<open>async with\<close> around the turn in \<open>src/rag/api/routes/query.py\<close>: one \<open>asyncio.Semaphore\<close> per tenant, made
  on first use. What the event loop interleaves is a sequence of events, each of which runs without
  interruption: a request enters, a request that holds a slot leaves, a waiting request is cancelled.
  A request is the number of its task.
\<close>

section \<open>One semaphore\<close>

text \<open>
  \<open>sm_waiters\<close> is the queue of futures. \<open>release\<close> hands the slot to the first of them before any
  other task runs, so a woken waiter counts as a holder.
\<close>

record semaphore =
  sm_value :: int
  sm_holders :: "nat list"
  sm_waiters :: "nat list"

definition new_semaphore :: "int \<Rightarrow> semaphore" where
  "new_semaphore n = \<lparr>sm_value = n, sm_holders = [], sm_waiters = []\<rparr>"

definition sem_acquire :: "nat \<Rightarrow> semaphore \<Rightarrow> semaphore" where
  "sem_acquire r s =
     (if sm_value s = 0 \<or> sm_waiters s \<noteq> [] then s\<lparr>sm_waiters := sm_waiters s @ [r]\<rparr>
      else s\<lparr>sm_value := sm_value s - 1, sm_holders := sm_holders s @ [r]\<rparr>)"

definition sem_release :: "nat \<Rightarrow> semaphore \<Rightarrow> semaphore" where
  "sem_release r s =
     (let hs = remove1 r (sm_holders s) in
      case sm_waiters s of
        [] \<Rightarrow> s\<lparr>sm_value := sm_value s + 1, sm_holders := hs\<rparr>
      | w # ws \<Rightarrow> s\<lparr>sm_holders := hs @ [w], sm_waiters := ws\<rparr>)"

definition sem_cancel :: "nat \<Rightarrow> semaphore \<Rightarrow> semaphore" where
  "sem_cancel r s = s\<lparr>sm_waiters := remove1 r (sm_waiters s)\<rparr>"

section \<open>One per tenant\<close>

type_synonym slots = "(string \<times> semaphore) list"

definition agent_semaphore_for :: "int \<Rightarrow> string \<Rightarrow> slots \<Rightarrow> semaphore" where
  "agent_semaphore_for limit tenant S =
     (case map_of S tenant of Some s \<Rightarrow> s | None \<Rightarrow> new_semaphore (max 1 limit))"

datatype slot_event = Enter string nat | Leave string nat | Cancel string nat

fun slot_next :: "int \<Rightarrow> slots \<Rightarrow> slot_event \<Rightarrow> slots" where
  "slot_next limit S (Enter t r) = AList.update t (sem_acquire r (agent_semaphore_for limit t S)) S"
| "slot_next limit S (Leave t r) = AList.update t (sem_release r (agent_semaphore_for limit t S)) S"
| "slot_next limit S (Cancel t r) = AList.update t (sem_cancel r (agent_semaphore_for limit t S)) S"

definition holding :: "int \<Rightarrow> slots \<Rightarrow> string \<Rightarrow> nat list" where
  "holding limit S t = sm_holders (agent_semaphore_for limit t S)"

definition waiting :: "int \<Rightarrow> slots \<Rightarrow> string \<Rightarrow> nat list" where
  "waiting limit S t = sm_waiters (agent_semaphore_for limit t S)"

inductive slot_step :: "int \<Rightarrow> slots \<Rightarrow> slot_event \<Rightarrow> slots \<Rightarrow> bool" for limit where
  enters: "r \<notin> set (holding limit S t) \<Longrightarrow> r \<notin> set (waiting limit S t)
    \<Longrightarrow> slot_step limit S (Enter t r) (slot_next limit S (Enter t r))"
| leaves: "r \<in> set (holding limit S t) \<Longrightarrow> slot_step limit S (Leave t r) (slot_next limit S (Leave t r))"
| cancels: "r \<in> set (waiting limit S t) \<Longrightarrow> slot_step limit S (Cancel t r) (slot_next limit S (Cancel t r))"

inductive_cases enter_cases: "slot_step limit S (Enter t r) S'"
inductive_cases leave_cases: "slot_step limit S (Leave t r) S'"
inductive_cases cancel_cases: "slot_step limit S (Cancel t r) S'"

inductive slot_reach :: "int \<Rightarrow> slots \<Rightarrow> bool" for limit where
  none: "slot_reach limit []"
| step: "slot_reach limit S \<Longrightarrow> slot_step limit S e S' \<Longrightarrow> slot_reach limit S'"

lemma enter_reach:
  "slot_reach limit S \<Longrightarrow> r \<notin> set (holding limit S t) \<Longrightarrow> r \<notin> set (waiting limit S t)
   \<Longrightarrow> slot_reach limit (slot_next limit S (Enter t r))"
  by (rule slot_reach.step [OF _ slot_step.enters])

section \<open>The invariant\<close>

definition sem_ok :: "int \<Rightarrow> semaphore \<Rightarrow> bool" where
  "sem_ok limit s \<longleftrightarrow> 0 \<le> sm_value s \<and> sm_value s + int (length (sm_holders s)) = max 1 limit
     \<and> (sm_waiters s \<noteq> [] \<longrightarrow> sm_value s = 0) \<and> distinct (sm_holders s @ sm_waiters s)"

lemma sem_ok_new: "sem_ok limit (new_semaphore (max 1 limit))"
  by (simp add: sem_ok_def new_semaphore_def)

lemma sem_ok_acquire: "sem_ok limit s \<Longrightarrow> r \<notin> set (sm_holders s) \<Longrightarrow> r \<notin> set (sm_waiters s) \<Longrightarrow> sem_ok limit (sem_acquire r s)"
  by (auto simp: sem_ok_def sem_acquire_def)

lemma sem_ok_release: "sem_ok limit s \<Longrightarrow> r \<in> set (sm_holders s) \<Longrightarrow> sem_ok limit (sem_release r s)"
proof -
  assume ok: "sem_ok limit s" and r: "r \<in> set (sm_holders s)"
  then have "Suc (length (remove1 r (sm_holders s))) = length (sm_holders s)"
    using length_pos_if_in_set [OF r] by (simp add: length_remove1)
  with ok show ?thesis
    by (cases "sm_waiters s") (auto simp: sem_ok_def sem_release_def Let_def)
qed

lemma sem_ok_cancel: "sem_ok limit s \<Longrightarrow> sem_ok limit (sem_cancel r s)"
  by (auto simp: sem_ok_def sem_cancel_def)

definition slots_ok :: "int \<Rightarrow> slots \<Rightarrow> bool" where
  "slots_ok limit S \<longleftrightarrow> (\<forall>t. sem_ok limit (agent_semaphore_for limit t S))"

lemma semaphore_after:
  "agent_semaphore_for limit t (AList.update u s S) = (if t = u then s else agent_semaphore_for limit t S)"
  by (simp add: agent_semaphore_for_def)

lemma slots_ok_step: "slot_step limit S e S' \<Longrightarrow> slots_ok limit S \<Longrightarrow> slots_ok limit S'"
  by (induction rule: slot_step.induct)
     (simp_all add: slots_ok_def semaphore_after holding_def waiting_def sem_ok_acquire sem_ok_release sem_ok_cancel)

lemma slots_ok_reach: "slot_reach limit S \<Longrightarrow> slots_ok limit S"
proof (induction rule: slot_reach.induct)
  case none
  show ?case by (simp add: slots_ok_def agent_semaphore_for_def sem_ok_new)
qed (rule slots_ok_step)

lemma other_tenant: "slot_step limit S e S' \<Longrightarrow> e \<notin> range (Enter t) \<union> range (Leave t) \<union> range (Cancel t)
   \<Longrightarrow> agent_semaphore_for limit t S' = agent_semaphore_for limit t S"
  by (induction rule: slot_step.induct) (auto simp: semaphore_after)

section \<open>Nobody waits for ever\<close>

text \<open>The number of requests before \<open>r\<close> in the queue.\<close>

definition place :: "nat \<Rightarrow> nat list \<Rightarrow> nat" where
  "place r ws = length (takeWhile (\<lambda>x. x \<noteq> r) ws)"

lemma place_simps [simp]: "place r [] = 0" "place r (w # ws) = (if w = r then 0 else Suc (place r ws))"
  by (simp_all add: place_def)

lemma place_append: "r \<in> set ws \<Longrightarrow> place r (ws @ vs) = place r ws"
  by (simp add: place_def takeWhile_append1)

lemma place_remove1: "r \<noteq> q \<Longrightarrow> place r (remove1 q ws) \<le> place r ws"
  by (induction ws) auto

text \<open>One step of a waiting request: it is let in, it is cancelled, or it still waits, no further back.\<close>

lemma waiting_step:
  assumes "slot_step limit S e S'" "r \<in> set (waiting limit S t)" "e \<noteq> Cancel t r"
  shows "r \<in> set (holding limit S' t)
     \<or> (r \<in> set (waiting limit S' t) \<and> place r (waiting limit S' t) \<le> place r (waiting limit S t)
        \<and> (\<forall>q. e = Leave t q \<longrightarrow> place r (waiting limit S' t) < place r (waiting limit S t)))"
proof (cases "e \<in> range (Enter t) \<union> range (Leave t) \<union> range (Cancel t)")
  case False
  then have "agent_semaphore_for limit t S' = agent_semaphore_for limit t S"
    by (rule other_tenant [OF assms(1)])
  with False assms(2) show ?thesis by (auto simp: waiting_def)
next
  case True
  then consider q where "e = Enter t q" | q where "e = Leave t q" | q where "e = Cancel t q" by blast
  then show ?thesis
  proof cases
    case 1
    with assms have "S' = slot_next limit S (Enter t q)" "waiting limit S t \<noteq> []"
      by (auto elim: enter_cases)
    with assms(2) 1 show ?thesis
      by (auto simp: waiting_def holding_def semaphore_after sem_acquire_def place_append)
  next
    case 2
    with assms(1) have S': "S' = slot_next limit S (Leave t q)" by (auto elim: leave_cases)
    obtain w ws where "waiting limit S t = w # ws" using assms(2) by (cases "waiting limit S t") auto
    with S' assms(2) 2 show ?thesis
      by (auto simp: waiting_def holding_def semaphore_after sem_release_def Let_def)
  next
    case 3
    with assms(1) have "S' = slot_next limit S (Cancel t q)" by (auto elim: cancel_cases)
    with assms(2,3) 3 show ?thesis
      by (auto simp: waiting_def holding_def semaphore_after sem_cancel_def place_remove1)
  qed
qed

text \<open>An endless run: at every moment one event, or none that concerns the slots.\<close>

definition slot_run :: "int \<Rightarrow> (nat \<Rightarrow> slots) \<Rightarrow> (nat \<Rightarrow> slot_event option) \<Rightarrow> bool" where
  "slot_run limit \<sigma> ev \<longleftrightarrow> slot_reach limit (\<sigma> 0)
     \<and> (\<forall>i. case ev i of None \<Rightarrow> \<sigma> (Suc i) = \<sigma> i | Some e \<Rightarrow> slot_step limit (\<sigma> i) e (\<sigma> (Suc i)))"

lemma run_reach: "slot_run limit \<sigma> ev \<Longrightarrow> slot_reach limit (\<sigma> i)"
proof (induction i)
  case (Suc i)
  then have "slot_reach limit (\<sigma> i)" by simp
  moreover have "case ev i of None \<Rightarrow> \<sigma> (Suc i) = \<sigma> i | Some e \<Rightarrow> slot_step limit (\<sigma> i) e (\<sigma> (Suc i))"
    using Suc.prems by (simp add: slot_run_def)
  ultimately show ?case by (cases "ev i") (auto intro: slot_reach.step)
qed (simp add: slot_run_def)

lemma waiting_kept:
  assumes "slot_run limit \<sigma> ev" "r \<in> set (waiting limit (\<sigma> i) t)" "i \<le> j"
    and out: "\<forall>k \<ge> i. r \<notin> set (holding limit (\<sigma> k) t) \<and> ev k \<noteq> Some (Cancel t r)"
  shows "r \<in> set (waiting limit (\<sigma> j) t) \<and> place r (waiting limit (\<sigma> j) t) \<le> place r (waiting limit (\<sigma> i) t)"
  using assms(3)
proof (induction rule: dec_induct)
  case (step k)
  have next_step: "case ev k of None \<Rightarrow> \<sigma> (Suc k) = \<sigma> k | Some e \<Rightarrow> slot_step limit (\<sigma> k) e (\<sigma> (Suc k))"
    using assms(1) by (simp add: slot_run_def)
  show ?case
  proof (cases "ev k")
    case None
    with next_step step.IH show ?thesis by simp
  next
    case (Some e)
    with next_step have "slot_step limit (\<sigma> k) e (\<sigma> (Suc k))" by simp
    moreover have "e \<noteq> Cancel t r" "r \<notin> set (holding limit (\<sigma> (Suc k)) t)"
      using out step.hyps Some by auto
    ultimately show ?thesis
      using waiting_step [of limit "\<sigma> k" e "\<sigma> (Suc k)" r t] step.IH by auto
  qed
qed (use assms(2) in simp)

lemma waiting_ends:
  assumes run: "slot_run limit \<sigma> ev"
    and fair: "\<forall>i. holding limit (\<sigma> i) t \<noteq> [] \<longrightarrow> (\<exists>j \<ge> i. \<exists>q. ev j = Some (Leave t q))"
  shows "r \<in> set (waiting limit (\<sigma> i) t) \<Longrightarrow> \<exists>j \<ge> i. r \<in> set (holding limit (\<sigma> j) t) \<or> ev j = Some (Cancel t r)"
proof (induction "place r (waiting limit (\<sigma> i) t)" arbitrary: i rule: less_induct)
  case less
  show ?case
  proof (rule ccontr)
    assume "\<not> ?case"
    then have out: "\<forall>k \<ge> i. r \<notin> set (holding limit (\<sigma> k) t) \<and> ev k \<noteq> Some (Cancel t r)" by blast
    have "sem_ok limit (agent_semaphore_for limit t (\<sigma> i))"
      using slots_ok_reach [OF run_reach [OF run]] by (simp add: slots_ok_def)
    with less.prems have "holding limit (\<sigma> i) t \<noteq> []"
      by (auto simp: sem_ok_def holding_def waiting_def)
    with fair obtain j q where j: "i \<le> j" "ev j = Some (Leave t q)" by blast
    note kept = waiting_kept [OF run less.prems j(1) out]
    have "slot_step limit (\<sigma> j) (Leave t q) (\<sigma> (Suc j))"
      using run j(2) unfolding slot_run_def by (metis option.simps(5))
    from waiting_step [OF this conjunct1 [OF kept]] out j(1)
    have "r \<in> set (waiting limit (\<sigma> (Suc j)) t)"
        "place r (waiting limit (\<sigma> (Suc j)) t) < place r (waiting limit (\<sigma> j) t)"
      by auto
    with less.hyps [of "Suc j"] kept out j(1) show False
      by (metis Suc_leD le_SucI le_trans less_le_trans)
  qed
qed

section \<open>Properties\<close>

text \<open>
  C34: in every reachable state at most \<open>max 1 limit\<close> agent turns of a tenant run at once, no turn
  runs or waits twice, and a turn waits only while all slots of its own tenant are taken.
\<close>

theorem slots_capped:
  assumes "slot_reach limit S"
  shows "int (length (holding limit S t)) \<le> max 1 limit
     \<and> distinct (holding limit S t @ waiting limit S t)
     \<and> (waiting limit S t \<noteq> [] \<longrightarrow> int (length (holding limit S t)) = max 1 limit)"
proof -
  have "sem_ok limit (agent_semaphore_for limit t S)"
    using slots_ok_reach [OF assms] by (simp add: slots_ok_def)
  then show ?thesis
    unfolding sem_ok_def holding_def waiting_def by (elim conjE) (intro conjI impI; simp)
qed

lemma slots_capped_witness:
  "let S = foldl (slot_next 2) [] [Enter ''a'' 1, Enter ''a'' 2, Enter ''a'' 3]
   in int (length (holding 2 S ''a'')) \<le> max 1 2 \<and> waiting 2 S ''a'' = [3]"
proof -
  have "slot_reach 2 (slot_next 2 (slot_next 2 (slot_next 2 [] (Enter ''a'' 1)) (Enter ''a'' 2)) (Enter ''a'' 3))"
    by (intro enter_reach slot_reach.none)
       (simp_all add: holding_def waiting_def agent_semaphore_for_def new_semaphore_def sem_acquire_def)
  from slots_capped [OF this, of "''a''"] show ?thesis
    by (simp add: Let_def waiting_def agent_semaphore_for_def new_semaphore_def sem_acquire_def)
qed

text \<open>
  C35: nobody waits for ever. In every endless run in which a tenant with running turns always sees
  one of them end, each waiting turn of the tenant is let in at some point, unless it is cancelled
  first; newcomers cannot overtake it.
\<close>

theorem slots_live:
  assumes "slot_run limit \<sigma> ev"
    and "\<forall>i. holding limit (\<sigma> i) t \<noteq> [] \<longrightarrow> (\<exists>j \<ge> i. \<exists>q. ev j = Some (Leave t q))"
    and "r \<in> set (waiting limit (\<sigma> i) t)"
  shows "\<exists>j \<ge> i. r \<in> set (holding limit (\<sigma> j) t) \<or> ev j = Some (Cancel t r)"
  using assms by (rule waiting_ends)

definition example_events :: "slot_event list" where
  "example_events = [Enter ''a'' 1, Enter ''a'' 2, Leave ''a'' 1, Leave ''a'' 2]"

definition example_slots :: "nat \<Rightarrow> slots" where
  "example_slots i = foldl (slot_next 1) [] (take i example_events)"

definition example_event :: "nat \<Rightarrow> slot_event option" where
  "example_event i = (if i < 4 then Some (example_events ! i) else None)"

lemma up_to_four: "i = 0 \<or> i = 1 \<or> i = 2 \<or> i = 3 \<or> 4 \<le> (i :: nat)"
  by arith

lemmas slots_eval = example_slots_def example_events_def example_event_def holding_def waiting_def
  agent_semaphore_for_def new_semaphore_def sem_acquire_def sem_release_def

lemma slots_live_witness:
  "2 \<in> set (waiting 1 (example_slots 2) ''a'')
   \<and> (\<exists>j \<ge> 2. 2 \<in> set (holding 1 (example_slots j) ''a'') \<or> example_event j = Some (Cancel ''a'' 2))"
proof -
  have "case example_event i of None \<Rightarrow> example_slots (Suc i) = example_slots i
      | Some e \<Rightarrow> slot_step 1 (example_slots i) e (example_slots (Suc i))" for i
    using up_to_four [of i]
    by (elim disjE) (auto simp: slots_eval slot_step.simps)
  then have run: "slot_run 1 example_slots example_event"
    by (simp add: slot_run_def example_slots_def slot_reach.none)
  have fair: "\<forall>i. holding 1 (example_slots i) ''a'' \<noteq> [] \<longrightarrow> (\<exists>j \<ge> i. \<exists>q. example_event j = Some (Leave ''a'' q))"
  proof (intro allI impI)
    fix i
    assume "holding 1 (example_slots i) ''a'' \<noteq> []"
    then have "i \<le> 3" using up_to_four [of i] by (auto simp: slots_eval)
    moreover have "example_event 3 = Some (Leave ''a'' 2)" by (simp add: slots_eval)
    ultimately show "\<exists>j \<ge> i. \<exists>q. example_event j = Some (Leave ''a'' q)" by blast
  qed
  have "2 \<in> set (waiting 1 (example_slots 2) ''a'')"
    by (simp add: slots_eval)
  with slots_live [OF run fair this] show ?thesis by simp
qed

end
