(* ===== verification/Api.thy ===== *)
theory Api
  imports Deployment Slots
begin

text \<open>
  The HTTP service: \<open>src/rag/api\<close>. A request passes the trace and the timeout middleware
  (\<open>middleware.py\<close>), authentication (\<open>deps.py\<close>) and validation, and then the query route
  (\<open>routes/query.py\<close>), which answers from the cache of agent answers, the agent or the pipeline; an
  exception becomes a response in \<open>errors.py\<close>. What FastAPI and Starlette add is their documented order:
  dependencies run before the body is validated, exception handlers of the application run inside the
  middleware, the handler of all other exceptions outside. The trace id of the ambient context is an
  argument, so the runtime is a function of it.
\<close>

section \<open>Requests\<close>

record query_request =
  qq_query :: string
  qq_mode :: query_mode
  qq_max_steps :: "int option"
  qq_max_tool_calls :: "int option"
  qq_max_critique_rounds :: "int option"
  qq_max_tokens :: "int option"
  qq_max_cost_usd :: "real option"
  qq_max_wall_clock_seconds :: "real option"

definition between :: "'a :: linorder \<Rightarrow> 'a \<Rightarrow> 'a option \<Rightarrow> bool" where
  "between lo hi x = (case x of None \<Rightarrow> True | Some v \<Rightarrow> lo \<le> v \<and> v \<le> hi)"

definition valid_request :: "query_request \<Rightarrow> bool" where
  "valid_request r \<longleftrightarrow>
     1 \<le> length (qq_query r) \<and> length (qq_query r) \<le> 4000
     \<and> between 1 32 (qq_max_steps r) \<and> between 1 64 (qq_max_tool_calls r)
     \<and> between 0 8 (qq_max_critique_rounds r) \<and> between 256 200000 (qq_max_tokens r)
     \<and> between 0 10 (qq_max_cost_usd r) \<and> between 1 300 (qq_max_wall_clock_seconds r)"

definition or_ceiling :: "'a option \<Rightarrow> 'a \<Rightarrow> 'a" where
  "or_ceiling x c = (case x of None \<Rightarrow> c | Some v \<Rightarrow> v)"

definition budget_override :: "query_request \<Rightarrow> budget \<Rightarrow> budget" where
  "budget_override r cap =
     clamp \<lparr>max_steps = or_ceiling (qq_max_steps r) (max_steps cap),
            max_tool_calls = or_ceiling (qq_max_tool_calls r) (max_tool_calls cap),
            max_critique_rounds = or_ceiling (qq_max_critique_rounds r) (max_critique_rounds cap),
            max_tokens = or_ceiling (qq_max_tokens r) (max_tokens cap),
            max_cost_usd = or_ceiling (qq_max_cost_usd r) (max_cost_usd cap),
            max_wall_clock_seconds = or_ceiling (qq_max_wall_clock_seconds r) (max_wall_clock_seconds cap)\<rparr> cap"

section \<open>The query route\<close>

text \<open>\<open>SerializeAsAny[Answer]\<close>: an answer of the pipeline or one of the agent.\<close>

datatype served = Plain answer | Agentic agent_answer

fun served_citations :: "served \<Rightarrow> citation list" where
  "served_citations (Plain a) = a_citations a"
| "served_citations (Agentic a) = a_citations a"

definition budget_json :: "budget \<Rightarrow> json_dict" where
  "budget_json b =
     [(''max_steps'', JInt (max_steps b)), (''max_tool_calls'', JInt (max_tool_calls b)),
      (''max_critique_rounds'', JInt (max_critique_rounds b)), (''max_tokens'', JInt (max_tokens b)),
      (''max_cost_usd'', JFloat (max_cost_usd b)),
      (''max_wall_clock_seconds'', JFloat (max_wall_clock_seconds b))]"

text \<open>\<open>{**retrieval, "agent": params}\<close>\<close>

definition scoped_params :: "retrieval_config \<Rightarrow> 'w agent_runtime \<Rightarrow> budget \<Rightarrow> 'w \<Rightarrow> json_dict" where
  "scoped_params cfg Rt b w =
     AList.update ''agent''
       (JDict (agent_cache_params ''agent'' (ar_allow_egress Rt)
          (map tl_name (allowed_for (ar_tools Rt) (ar_allow_egress Rt) w)) (budget_json b)))
       (cache_params cfg)"

text \<open>The cached agent answer; an entry that neither model reads is ignored.\<close>

definition cached_answer ::
    "('s, 't, 'c, 'w) agent_env \<Rightarrow> ('s, 't, 'c, 'w) pipeline \<Rightarrow> string \<Rightarrow> ('s, 't, 'c, 'w) online_state
     \<Rightarrow> served option \<times> ('s, 't, 'c, 'w) online_state" where
  "cached_answer E P key st =
     (if \<not> se_cache_enabled (on_settings P) then (None, st)
      else
        let (raw, c) = on_get P key (ol_cache st); st' = st\<lparr>ol_cache := c\<rparr>
        in (case raw of
              None \<Rightarrow> None
            | Some v \<Rightarrow>
                (case ae_load_answer E v of
                   Inr a \<Rightarrow> Some (Agentic (a\<lparr>a_cached := True\<rparr>))
                 | Inl e \<Rightarrow>
                     (case on_load P v of
                        Inr a \<Rightarrow> Some (Plain (a\<lparr>a_cached := True\<rparr>))
                      | Inl e' \<Rightarrow> None)), st'))"

definition worth_caching :: "('s, 't, 'c, 'w) pipeline \<Rightarrow> agent_answer \<Rightarrow> bool" where
  "worth_caching P a \<longleftrightarrow> se_cache_enabled (on_settings P) \<and> \<not> a_refused a \<and> \<not> aa_fallback_used a
     \<and> aa_stop_reason a \<in> ANSWERABLE_STOPS"

definition run_agent ::
    "('s, 't, 'c, 'w) agent_env \<Rightarrow> ('s, 't, 'c, 'w) pipeline \<Rightarrow> ('s, 't, 'c, 'w) online_state agent_runtime
     \<Rightarrow> string \<Rightarrow> query_request \<Rightarrow> principal \<Rightarrow> ('s, 't, 'c, 'w) online_state
     \<Rightarrow> served result \<times> ('s, 't, 'c, 'w) online_state" where
  "run_agent E P Rt trace_id r p st =
     (let b = budget_override r (agent_budget (on_settings P)) in
      case bind_result (retrieval_config (on_settings P) (on_yaml P)) (\<lambda>cfg.
             bind_result (active_index_version P st) (\<lambda>iv. Inr (cfg, iv))) of
        Inl e \<Rightarrow> (Inl e, st)
      | Inr (cfg, iv) \<Rightarrow>
          (let key = cache_key (on_sha P) (on_frepr P) (qq_query r) p iv (ar_prompt_version Rt)
                       (Some (scoped_params cfg Rt b st))
           in (case cached_answer E P key st of
                 (Some a, st1) \<Rightarrow> (Inr a, st1)
               | (None, st1) \<Rightarrow>
                   (case agent_run Rt trace_id (qq_query r) p (Some b) st1 of
                      (Inl e, st2) \<Rightarrow> (Inl e, st2)
                    | (Inr a, st2) \<Rightarrow>
                        (Inr (Agentic a),
                         if worth_caching P a
                         then st2\<lparr>ol_cache := on_set P key (ae_dump_answer E a)
                                (Some (se_cache_ttl_seconds (on_settings P))) (ol_cache st2)\<rparr>
                         else st2)))))"

definition run_pipeline ::
    "('s, 't, 'c, 'w) pipeline \<Rightarrow> string \<Rightarrow> query_request \<Rightarrow> principal \<Rightarrow> ('s, 't, 'c, 'w) online_state
     \<Rightarrow> served result \<times> ('s, 't, 'c, 'w) online_state" where
  "run_pipeline P trace_id r p st = apfst (map_sum id Plain) (online_answer P trace_id (qq_query r) p st)"

text \<open>The state of the application; the agent is a function of the trace id, as said above.\<close>

record ('s, 't, 'c, 'w) app =
  ap_pipeline :: "('s, 't, 'c, 'w) pipeline"
  ap_env :: "('s, 't, 'c, 'w) agent_env"
  ap_authenticator :: authenticator
  ap_agent :: "string \<Rightarrow> ('s, 't, 'c, 'w) online_state agent_runtime option"

definition query_route ::
    "('s, 't, 'c, 'w) app \<Rightarrow> string \<Rightarrow> query_request \<Rightarrow> principal \<Rightarrow> ('s, 't, 'c, 'w) online_state
     \<Rightarrow> served result \<times> ('s, 't, 'c, 'w) online_state" where
  "query_route A trace_id r p st =
     (let P = ap_pipeline A in
      if should_use_agent (qq_query r) (qq_mode r) (se_agent_enabled (on_settings P) \<and> ap_agent A trace_id \<noteq> None)
      then (case ap_agent A trace_id of
              Some Rt \<Rightarrow> run_agent (ap_env A) P Rt trace_id r p st
            | None \<Rightarrow> run_pipeline P trace_id r p st)
      else run_pipeline P trace_id r p st)"

text \<open>\<open>build_state\<close>: the agent is built when it is enabled and none is given.\<close>

definition build_state ::
    "('s, 't, 'c, 'w) agent_env \<Rightarrow> ('s, 't, 'c, 'w) pipeline \<Rightarrow> authenticator result
     \<Rightarrow> (string \<Rightarrow> ('s, 't, 'c, 'w) online_state agent_runtime) option
     \<Rightarrow> ('s, 't, 'c, 'w) online_state chat_llm \<Rightarrow> ('s, 't, 'c, 'w) app result" where
  "build_state E P authenticator agent chat =
     bind_result
       (case agent of
          Some f \<Rightarrow> Inr (\<lambda>trace_id. Some (f trace_id))
        | None \<Rightarrow>
            if se_agent_enabled (on_settings P)
            then bind_result (build_agent_runtime E P chat []) (\<lambda>built.
              Inr (\<lambda>trace_id. case build_agent_runtime E P chat trace_id of Inr a \<Rightarrow> a | Inl e \<Rightarrow> None))
            else Inr (\<lambda>trace_id. None))
       (\<lambda>ag. bind_result authenticator (\<lambda>auth.
          Inr \<lparr>ap_pipeline = P, ap_env = E, ap_authenticator = auth, ap_agent = ag\<rparr>))"

section \<open>Responses\<close>

datatype body =
    Answered served
  | Error_body string string string
  | Timeout_body string
  | Validation_body
  | Json_body json

record response =
  rs_status :: nat
  rs_headers :: "(string \<times> string) list"
  rs_body :: body

text \<open>\<open>RagError\<close> and its subclasses, and everything else.\<close>

datatype api_error = Unauthorized string | Backend_unavailable string | Unhandled py_exn

datatype handled = Reply response | Escaped py_exn

definition error_response :: "nat \<Rightarrow> (string \<times> string) list \<Rightarrow> string \<Rightarrow> string \<Rightarrow> string \<Rightarrow> response" where
  "error_response status headers kind message trace_id =
     \<lparr>rs_status = status, rs_headers = headers, rs_body = Error_body kind message trace_id\<rparr>"

fun handle_error :: "string \<Rightarrow> api_error \<Rightarrow> handled" where
  "handle_error trace_id (Unauthorized message) =
     Reply (error_response 401 [(''WWW-Authenticate'', ''Bearer'')] ''unauthorized'' message trace_id)"
| "handle_error trace_id (Backend_unavailable message) =
     Reply (error_response 503 [] ''backend_unavailable'' message trace_id)"
| "handle_error trace_id (Unhandled e) = Escaped e"

definition unhandled_error_handler :: "string \<Rightarrow> py_exn \<Rightarrow> response" where
  "unhandled_error_handler trace_id e = error_response 500 [] ''internal_error'' ''Internal server error'' trace_id"

definition get_principal :: "('s, 't, 'c, 'w) app \<Rightarrow> credentials \<Rightarrow> api_error + principal" where
  "get_principal A cr =
     (case authenticate (ap_authenticator A) cr of
        Inl (AuthError reason) \<Rightarrow> Inl (Unauthorized reason)
      | Inl e \<Rightarrow> Inl (Unhandled e)
      | Inr p \<Rightarrow> Inr p)"

definition post_query ::
    "('s, 't, 'c, 'w) app \<Rightarrow> string \<Rightarrow> credentials \<Rightarrow> query_request \<Rightarrow> ('s, 't, 'c, 'w) online_state
     \<Rightarrow> handled \<times> ('s, 't, 'c, 'w) online_state" where
  "post_query A trace_id cr r st =
     (case get_principal A cr of
        Inl err \<Rightarrow> (handle_error trace_id err, st)
      | Inr p \<Rightarrow>
          if \<not> valid_request r then (Reply \<lparr>rs_status = 422, rs_headers = [], rs_body = Validation_body\<rparr>, st)
          else (case query_route A trace_id r p st of
                  (Inl e, st') \<Rightarrow> (handle_error trace_id (Unhandled e), st')
                | (Inr a, st') \<Rightarrow> (Reply \<lparr>rs_status = 200, rs_headers = [], rs_body = Answered a\<rparr>, st')))"

section \<open>Middleware\<close>

text \<open>\<open>reset_trace\<close>: the id the client sent, or a fresh one.\<close>

definition reset_trace :: "string option \<Rightarrow> string \<Rightarrow> string" where
  "reset_trace header fresh = opt_or header fresh"

text \<open>\<open>expired\<close> says whether the time ran out before the inner application was done.\<close>

definition timeout_dispatch :: "real \<Rightarrow> bool \<Rightarrow> string \<Rightarrow> handled \<Rightarrow> handled" where
  "timeout_dispatch limit expired trace_id inner =
     (if limit \<le> 0 then inner
      else if expired then Reply \<lparr>rs_status = 504, rs_headers = [], rs_body = Timeout_body trace_id\<rparr>
      else inner)"

fun trace_dispatch :: "string \<Rightarrow> handled \<Rightarrow> handled" where
  "trace_dispatch trace_id (Reply resp) =
     Reply (resp\<lparr>rs_headers := AList.update ''X-Request-Id'' trace_id (rs_headers resp)\<rparr>)"
| "trace_dispatch trace_id (Escaped e) = Escaped e"

fun respond :: "string \<Rightarrow> handled \<Rightarrow> response" where
  "respond trace_id (Reply resp) = resp"
| "respond trace_id (Escaped e) = unhandled_error_handler trace_id e"

text \<open>
  One request to \<open>/query\<close>. The state is \<open>None\<close> when the request was cut off: what its thread goes on
  to do, and where its coroutine was stopped, is not modelled.
\<close>

definition serve_query ::
    "('s, 't, 'c, 'w) app \<Rightarrow> string option \<Rightarrow> string \<Rightarrow> bool \<Rightarrow> credentials \<Rightarrow> query_request
     \<Rightarrow> ('s, 't, 'c, 'w) online_state \<Rightarrow> response \<times> ('s, 't, 'c, 'w) online_state option" where
  "serve_query A header fresh expired cr r st =
     (let trace_id = reset_trace header fresh;
          limit = se_request_timeout_seconds (on_settings (ap_pipeline A));
          (inner, st') = post_query A trace_id cr r st
      in (respond trace_id (trace_dispatch trace_id (timeout_dispatch limit expired trace_id inner)),
          if 0 < limit \<and> expired then None else Some st'))"

section \<open>The other routes\<close>

definition authenticator_name :: "authenticator \<Rightarrow> string" where
  "authenticator_name a =
     (case a of Trusted_Header t \<Rightarrow> ''trusted_header'' | Static_Token ps \<Rightarrow> ''static_token''
      | Deny_All \<Rightarrow> ''deny_all'' | Anonymous t \<Rightarrow> ''anonymous'')"

definition health :: "('s, 't, 'c, 'w) app \<Rightarrow> response" where
  "health A =
     (let s = on_settings (ap_pipeline A) in
      \<lparr>rs_status = 200, rs_headers = [],
       rs_body = Json_body (JDict [(''status'', JStr ''ok''), (''service'', JStr (se_service_name s)),
                                   (''env'', JStr (se_env s))])\<rparr>)"

definition ready_route ::
    "('s, 't, 'c, 'w) app \<Rightarrow> bool option \<Rightarrow> json_dict \<Rightarrow> ('s, 't, 'c, 'w) online_state \<Rightarrow> response" where
  "ready_route A ping details st =
     (let ok = ready (ap_pipeline A) ping st in
      \<lparr>rs_status = (if ok then 200 else 503), rs_headers = [],
       rs_body = Json_body (JDict ([(''status'', JStr (if ok then ''ready'' else ''not_ready'')),
                                    (''authenticator'', JStr (authenticator_name (ap_authenticator A))),
                                    (''ready'', JBool ok),
                                    (''checks'', JDict (map (map_prod id JBool) (readiness_checks (ap_pipeline A) ping st)))]
                                   @ details))\<rparr>)"

definition metrics_route :: "('s, 't, 'c, 'w) app \<Rightarrow> json \<Rightarrow> response" where
  "metrics_route A snapshot =
     (if \<not> se_metrics_enabled (on_settings (ap_pipeline A))
      then \<lparr>rs_status = 404, rs_headers = [], rs_body = Json_body (JDict [(''detail'', JStr ''metrics disabled'')])\<rparr>
      else \<lparr>rs_status = 200, rs_headers = [], rs_body = Json_body snapshot\<rparr>)"

section \<open>What a caller gets\<close>

text \<open>
  What is asked of pydantic: an agent answer is read back as it was written, and the smaller model
  \<open>Answer\<close>, which ignores the fields it does not know, keeps its citations.
\<close>

definition answer_libs :: "('s, 't, 'c, 'w) agent_env \<Rightarrow> ('s, 't, 'c, 'w) pipeline \<Rightarrow> bool" where
  "answer_libs E P \<longleftrightarrow>
     (\<forall>a b. ae_load_answer E (ae_dump_answer E a) = Inr b \<longrightarrow> b = a)
     \<and> (\<forall>a b. on_load P (ae_dump_answer E a) = Inr b \<longrightarrow> a_citations b = a_citations a)"

lemma visible_reach:
  assumes "pr_tenant p = pr_tenant q \<and> pr_groups p = pr_groups q"
  shows "visible_to p cs = visible_to q cs"
proof -
  have "is_allowed p acl = is_allowed q acl" for acl
    using assms by (simp add: is_allowed_iff)
  then show ?thesis by (simp add: visible_to_def)
qed

lemma grounded_visible: "grounded_for p a \<Longrightarrow> visible_to p (a_citations a)"
  unfolding grounded_for_def visible_to_def by blast

text \<open>A request whose cache keys lie in the texts \<open>T\<close> and floats \<open>F\<close> on which the libraries are faithful.\<close>

definition serving ::
    "('s, 't, 'c, 'w) agent_env \<Rightarrow> ('s, 't, 'c, 'w) pipeline \<Rightarrow> ('s, 't, 'c, 'w) online_state chat_llm
     \<Rightarrow> string set \<Rightarrow> real set \<Rightarrow> string \<Rightarrow> principal \<Rightarrow> query_request \<Rightarrow> string \<Rightarrow> ('s, 't, 'c, 'w) online_state \<Rightarrow> bool" where
  "serving E P chat T F iv p r trace_id st \<longleftrightarrow>
     hosting E P chat T F iv p (qq_query r) \<and> answer_libs E P
     \<and> covered_at P T F (qq_query r) p iv ''v1''
         (scoped_params (config_of (on_settings P))
            (wired_runtime E P chat trace_id (host_registry E P trace_id))
            (budget_override r (agent_budget (on_settings P))) st)"

lemma scoped_params_agent: "''agent'' \<in> fst ` set (scoped_params cfg Rt b w)"
  by (simp add: scoped_params_def dom_update)

lemma built_agent:
  assumes "build_state E P auth None chat = Inr A"
  shows "ap_pipeline A = P \<and> ap_env A = E \<and> auth = Inr (ap_authenticator A)
     \<and> (ap_agent A trace_id = None \<or>
        ap_agent A trace_id = Some (wired_runtime E P chat trace_id (host_registry E P trace_id)))"
  using assms
  by (auto simp: build_state_def build_agent_runtime_def build_tool_registry_eq split: if_splits)

text \<open>Over any cache and any reranker that keep their contracts.\<close>

context online begin

lemma caches_ok_get:
  assumes "caches_ok E P stored T F iv st" "\<And>k v. stored c k v \<Longrightarrow> stored (ol_cache st) k v"
  shows "caches_ok E P stored T F iv (st\<lparr>ol_cache := c\<rparr>)"
proof -
  have "online_inv P stored T F (st\<lparr>ol_cache := c\<rparr>)"
    using assms unfolding caches_ok_def online_inv_def by simp
  moreover have "tool_inv (host_cache E P) (\<lambda>st. stored (ol_cache st)) T F passages_for (st\<lparr>ol_cache := c\<rparr>)"
    using assms unfolding caches_ok_def tool_inv_def by simp
  moreover have "agent_inv E P stored T F (st\<lparr>ol_cache := c\<rparr>)"
    using assms agent_inv_kept [of E P stored T F st "st\<lparr>ol_cache := c\<rparr>"] unfolding caches_ok_def by simp
  moreover have "active_index_version P (st\<lparr>ol_cache := c\<rparr>) = Inr iv"
    using assms(1) by (simp add: caches_ok_def active_index_version_def)
  ultimately show ?thesis by (simp add: caches_ok_def)
qed

lemma caches_ok_put:
  assumes ok: "caches_ok E P stored T F iv st" and sha: "hex_digest (on_sha P)"
    and k: "k = cache_key (on_sha P) (on_frepr P) q p jv pv (Some ps)" "''agent'' \<in> fst ` set ps"
    and cov: "covered_at P T F q p jv pv ps" and vis: "visible_to p (a_citations a)"
  shows "caches_ok E P stored T F iv (st\<lparr>ol_cache := on_set P k (ae_dump_answer E a) ttl (ol_cache st)\<rparr>)"
proof -
  let ?st = "st\<lparr>ol_cache := on_set P k (ae_dump_answer E a) ttl (ol_cache st)\<rparr>"
  have stored: "(k' = k \<and> v = ae_dump_answer E a) \<or> stored (ol_cache st) k' v" if "stored (ol_cache ?st) k' v" for k' v
    using that kv.set_stored [of k "ae_dump_answer E a" ttl "ol_cache st" k' v] by auto
  have key: "agent_key P T F k" unfolding agent_key_def using k cov by blast
  then have tool: "\<not> startswith k ''tool:''" by (rule agent_key_not_tool [OF sha])
  have entry: "entry_ok P T F k v" for v using key by (simp add: entry_ok_def)
  have inv: "online_inv P stored T F st" using ok by (simp add: caches_ok_def)
  have entries: "entry_ok P T F k' v" if "stored (ol_cache ?st) k' v" for k' v
    using stored [OF that]
  proof
    assume "k' = k \<and> v = ae_dump_answer E a"
    with entry show ?thesis by simp
  next
    assume "stored (ol_cache st) k' v"
    with inv show ?thesis unfolding online_inv_def by blast
  qed
  have "ol_semantic ?st = ol_semantic st" by simp
  with inv entries have 1: "online_inv P stored T F ?st" unfolding online_inv_def by metis
  have 2: "tool_inv (host_cache E P) (\<lambda>st. stored (ol_cache st)) T F passages_for ?st"
    using ok stored tool unfolding caches_ok_def tool_inv_def by metis
  have 3: "agent_inv E P stored T F ?st"
    unfolding agent_inv_def
  proof (intro allI impI)
    fix k' v
    assume s: "stored (ol_cache ?st) k' v" and a: "agent_key P T F k'"
    show "\<exists>q p iv pv ps a. k' = cache_key (on_sha P) (on_frepr P) q p iv pv (Some ps)
        \<and> covered_at P T F q p iv pv ps \<and> v = ae_dump_answer E a \<and> visible_to p (a_citations a)"
      using stored [OF s]
    proof
      assume "k' = k \<and> v = ae_dump_answer E a"
      with k(1) cov vis show ?thesis by blast
    next
      assume "stored (ol_cache st) k' v"
      with ok a show ?thesis unfolding caches_ok_def agent_inv_def by blast
    qed
  qed
  have "active_index_version P ?st = Inr iv"
    using ok by (simp add: caches_ok_def active_index_version_def)
  with 1 2 3 show ?thesis by (simp add: caches_ok_def)
qed

lemma cached_answer_ok:
  assumes libs: "faithful_libs P T F" "answer_libs E P" and ok: "caches_ok E P stored T F iv st"
    and cov: "covered_at P T F q p jv pv ps" "''agent'' \<in> fst ` set ps"
    and run: "cached_answer E P
        (cache_key (on_sha P) (on_frepr P) q p jv pv (Some ps)) st = (x, st')"
  shows "caches_ok E P stored T F iv st' \<and> (\<forall>a. x = Some a \<longrightarrow> visible_to p (served_citations a))"
proof (cases "se_cache_enabled (on_settings P)")
  case False
  with run ok show ?thesis by (auto simp: cached_answer_def)
next
  case True
  let ?k = "cache_key (on_sha P) (on_frepr P) q p jv pv (Some ps)"
  obtain raw c where g: "on_get P ?k (ol_cache st) = (raw, c)" by fastforce
  have st': "st' = st\<lparr>ol_cache := c\<rparr>" using run True g by (auto simp: cached_answer_def Let_def)
  have "caches_ok E P stored T F iv st'"
    unfolding st' by (rule caches_ok_get [OF ok]) (use kv.get_shrinks [of ?k "ol_cache st"] g in auto)
  moreover have "visible_to p (served_citations a)" if x: "x = Some a" for a
  proof -
    obtain v where v: "raw = Some v"
      using run True g x by (cases raw) (auto simp: cached_answer_def Let_def)
    then have "stored (ol_cache st) ?k v"
      using kv.get_stored [of ?k "ol_cache st"] g by simp
    moreover have "agent_key P T F ?k" unfolding agent_key_def using cov by blast
    ultimately obtain q' p' jv' pv' ps' b where b: "?k = cache_key (on_sha P) (on_frepr P) q' p' jv' pv' (Some ps')"
        "covered_at P T F q' p' jv' pv' ps'" "v = ae_dump_answer E b" "visible_to p' (a_citations b)"
      using ok unfolding caches_ok_def agent_inv_def by blast
    have vis: "visible_to p (a_citations b)"
      using visible_reach [OF same_key_reach [OF libs(1) cov(1) b(2,1)]] b(4) by simp
    have "served_citations a = a_citations b"
    proof (cases "ae_load_answer E v")
      case (Inr d)
      then have "d = b" using libs(2) b(3) unfolding answer_libs_def by blast
      with Inr run True g v x show ?thesis by (auto simp: cached_answer_def Let_def)
    next
      case (Inl e)
      with run True g v x obtain d where d: "on_load P v = Inr d" "a = Plain (d\<lparr>a_cached := True\<rparr>)"
        by (auto simp: cached_answer_def Let_def split: sum.splits)
      then have "a_citations d = a_citations b" using libs(2) b(3) unfolding answer_libs_def by blast
      with d(2) show ?thesis by simp
    qed
    with vis show ?thesis by simp
  qed
  ultimately show ?thesis by blast
qed

lemma run_agent_ok:
  assumes s: "serving E P chat T F iv p r trace_id st" and ok: "caches_ok E P stored T F iv st"
    and run: "run_agent E P (wired_runtime E P chat trace_id (host_registry E P trace_id))
        trace_id r p st = (x, st')"
  shows "caches_ok E P stored T F iv st' \<and> (\<forall>a. x = Inr a \<longrightarrow> visible_to p (served_citations a))"
proof -
  let ?Q = P and ?Rt = "wired_runtime E P chat trace_id (host_registry E P trace_id)"
  let ?b = "budget_override r (agent_budget (on_settings ?Q))"
  let ?ps = "scoped_params (config_of (on_settings ?Q)) ?Rt ?b st"
  let ?k = "cache_key (on_sha ?Q) (on_frepr ?Q) (qq_query r) p iv ''v1'' (Some ?ps)"
  have host: "hosting E P chat T F iv p (qq_query r)" and al: "answer_libs E ?Q"
    and cov: "covered_at ?Q T F (qq_query r) p iv ''v1'' ?ps"
    using s by (simp_all add: serving_def)
  have libs: "faithful_libs ?Q T F" using host by (simp add: hosting_def)
  have version: "active_index_version ?Q st = Inr iv" using ok by (simp add: caches_ok_def)
  have pv: "ar_prompt_version ?Rt = ''v1''" by (simp add: wired_runtime_def)
  obtain y st1 where c: "cached_answer E ?Q ?k st = (y, st1)" by fastforce
  note cached = cached_answer_ok [OF libs al ok cov scoped_params_agent c]
  have run': "(case y of Some a \<Rightarrow> (Inr a, st1)
      | None \<Rightarrow> (case agent_run ?Rt trace_id (qq_query r) p (Some ?b) st1 of
          (Inl e, st2) \<Rightarrow> (Inl e, st2)
        | (Inr a, st2) \<Rightarrow> (Inr (Agentic a),
            if worth_caching ?Q a
            then st2\<lparr>ol_cache := on_set P ?k (ae_dump_answer E a) (Some (se_cache_ttl_seconds (on_settings ?Q))) (ol_cache st2)\<rparr>
            else st2))) = (x, st')"
    using run
    by (simp only: run_agent_def Let_def config_from_settings version pv bind_result.simps sum.case prod.case c)
  show ?thesis
  proof (cases y)
    case (Some a)
    with run' cached show ?thesis by auto
  next
    case None
    obtain z st2 where a: "agent_run ?Rt trace_id (qq_query r) p (Some ?b) st1 = (z, st2)" by fastforce
    have "hosting E P chat T F iv p (qq_query r) \<and> caches_ok E P stored T F iv st1" using host cached by blast
    note kept = deployed.run_hosted [OF this a]
    have vis: "visible_to p (a_citations ans)" if "z = Inr ans" for ans
      using kept that unfolding deployed.fine_def visible_to_def grounded_for_def by fastforce
    show ?thesis
    proof (cases z)
      case (Inl e)
      with None run' a kept show ?thesis by auto
    next
      case (Inr ans)
      have sha: "hex_digest (on_sha ?Q)" using libs by (simp add: faithful_libs_def)
      have "caches_ok E P stored T F iv (st2\<lparr>ol_cache := on_set P ?k (ae_dump_answer E ans) ttl (ol_cache st2)\<rparr>)" for ttl
        by (rule caches_ok_put [OF _ sha refl scoped_params_agent cov vis [OF Inr]]) (use kept in blast)
      with None run' a kept Inr vis [OF Inr] show ?thesis by (auto split: if_splits)
    qed
  qed
qed

lemma run_pipeline_ok:
  assumes "hosting E P chat T F iv p (qq_query r)" "caches_ok E P stored T F iv st"
    and "run_pipeline P trace_id r p st = (x, st')"
  shows "caches_ok E P stored T F iv st' \<and> (\<forall>a. x = Inr a \<longrightarrow> visible_to p (served_citations a))"
proof -
  obtain z where z: "online_answer P trace_id (qq_query r) p st = (z, st')" "x = map_sum id Plain z"
    using assms(3) by (cases "online_answer P trace_id (qq_query r) p st") (auto simp: run_pipeline_def)
  from answer_caches_ok [OF assms(1,2) z(1)] z(2) show ?thesis
    by (cases z) (auto intro: grounded_visible)
qed

lemma query_route_ok:
  assumes A: "build_state E P auth None chat = Inr A"
    and s: "serving E P chat T F iv p r trace_id st" and ok: "caches_ok E P stored T F iv st"
    and run: "query_route A trace_id r p st = (x, st')"
  shows "caches_ok E P stored T F iv st' \<and> (\<forall>a. x = Inr a \<longrightarrow> visible_to p (served_citations a))"
proof -
  have host: "hosting E P chat T F iv p (qq_query r)" using s by (simp add: serving_def)
  consider "run_pipeline P trace_id r p st = (x, st')"
    | "run_agent E P (wired_runtime E P chat trace_id (host_registry E P trace_id)) trace_id r p st = (x, st')"
    using run built_agent [OF A, of trace_id] by (auto simp: query_route_def Let_def split: if_splits)
  then show ?thesis
    using run_pipeline_ok [OF host ok] run_agent_ok [OF s ok] by cases
qed

lemma service_ok:
  assumes "build_state E P (Inr auth) None chat = Inr A"
    and "caches_ok E P stored T F iv st"
    and "\<And>p. authenticate auth cr = Inr p \<Longrightarrow> serving E P chat T F iv p r (reset_trace header fresh) st"
    and "serve_query A header fresh expired cr r st = (resp, left)"
  shows "(\<forall>a. rs_body resp = Answered a \<longrightarrow>
            (\<exists>p. authenticate auth cr = Inr p \<and> visible_to p (served_citations a)))
     \<and> (\<forall>st'. left = Some st' \<longrightarrow> caches_ok E P stored T F iv st' \<and> ((\<forall>p. authenticate auth cr \<noteq> Inr p) \<longrightarrow> st' = st))"
proof -
  let ?t = "reset_trace header fresh"
  obtain h st1 where h: "post_query A ?t cr r st = (h, st1)" by fastforce
  note A = built_agent [OF assms(1), of ?t]
  have answers: "(\<forall>resp a. h = Reply resp \<longrightarrow> rs_body resp = Answered a \<longrightarrow>
        (\<exists>p. authenticate auth cr = Inr p \<and> visible_to p (served_citations a)))
      \<and> caches_ok E P stored T F iv st1 \<and> ((\<forall>p. authenticate auth cr \<noteq> Inr p) \<longrightarrow> st1 = st)"
  proof (cases "authenticate auth cr")
    case (Inl e)
    with h A assms(2) show ?thesis
      by (cases e) (auto simp: post_query_def get_principal_def error_response_def)
  next
    case (Inr p)
    obtain x st2 where x: "query_route A ?t r p st = (x, st2)" by fastforce
    note route = query_route_ok [OF assms(1) assms(3) [OF Inr] assms(2) x]
    from h A Inr x route assms(2) show ?thesis
      by (cases x) (auto simp: post_query_def get_principal_def split: if_splits)
  qed
  have "\<exists>resp'. h = Reply resp' \<and> rs_body resp' = Answered a" if "rs_body resp = Answered a" for a
    using assms(4) h that
    by (cases h) (auto simp: serve_query_def Let_def timeout_dispatch_def unhandled_error_handler_def error_response_def split: if_splits)
  moreover have "st' = st1" if "left = Some st'" for st'
    using assms(4) h that by (auto simp: serve_query_def Let_def split: if_splits)
  ultimately show ?thesis using answers by blast
qed

end

section \<open>Properties\<close>


text \<open>
  A concrete service: a hash that cannot collide (the text in hexadecimal), a planner that is down and
  empty caches.
\<close>

definition hex_text :: "string \<Rightarrow> string" where
  "hex_text s = concat (map (\<lambda>c. [hex_digit (code c div 16), hex_digit (code c mod 16)]) s)"

lemma hex_text_inj: "inj_on hex_text X"
proof (rule inj_onI)
  fix a b
  assume "hex_text a = hex_text b"
  then show "a = b"
  proof (induction a arbitrary: b)
    case Nil
    then show ?case by (cases b) (simp_all add: hex_text_def)
  next
    case (Cons c cs)
    then obtain d ds where b: "b = d # ds" by (cases b) (simp_all add: hex_text_def)
    have bound: "code c div 16 < 16" "code d div 16 < 16" using code_less [of c] code_less [of d] by simp_all
    have "hex_digit (code c div 16) = hex_digit (code d div 16)" "hex_digit (code c mod 16) = hex_digit (code d mod 16)"
        "hex_text cs = hex_text ds"
      using Cons.prems b by (simp_all add: hex_text_def)
    with bound have "code c div 16 = code d div 16" "code c mod 16 = code d mod 16" "cs = ds"
      using Cons.IH by (simp_all add: hex_digit_inject)
    then have "code c = code d" by (metis div_mult_mod_eq)
    with \<open>cs = ds\<close> b show ?case by simp
  qed
qed

lemma hex_text_digest: "hex_digest hex_text"
proof -
  have "CHR ''|'' \<noteq> hex_digit n \<and> CHR '':'' \<noteq> hex_digit n" if "n < 16" for n
  proof -
    have "code (hex_digit n) \<noteq> 124" "code (hex_digit n) \<noteq> 58"
      using that by (auto simp: hex_digit_code)
    moreover have "code (CHR ''|'') = 124" "code (CHR '':'') = 58" by (simp_all add: code_def)
    ultimately show ?thesis by metis
  qed
  moreover have "code c div 16 < 16" "code c mod 16 < 16" for c
    using code_less [of c] by simp_all
  ultimately show ?thesis by (auto simp: hex_digest_def hex_text_def)
qed

definition example_floats :: "real set" where
  "example_floats = {1, 30, 1 / 10}"

definition example_float_text :: "real \<Rightarrow> string" where
  "example_float_text x = (if x = 1 then ''1.0'' else if x = 30 then ''30.0'' else ''0.1'')"

definition example_site :: "(unit, unit, mem_cache, nat) pipeline" where
  "example_site = example_pipeline\<lparr>on_sha := hex_text, on_frepr := example_float_text\<rparr>"

definition example_start :: "(unit, unit, mem_cache, nat) online_state" where
  "example_start = example_state\<lparr>ol_cache := empty_mem_cache 0\<rparr>"

definition example_request :: query_request where
  "example_request = \<lparr>qq_query = ''what is it'', qq_mode = Mode_Agent, qq_max_steps = None, qq_max_tool_calls = None,
     qq_max_critique_rounds = None, qq_max_tokens = None, qq_max_cost_usd = None, qq_max_wall_clock_seconds = None\<rparr>"

definition example_visitor :: principal where
  "example_visitor = \<lparr>pr_subject = ''anonymous'', pr_groups = {''public''}, pr_tenant = ''acme''\<rparr>"

lemma example_site_simps:
  "on_sha (in_memory example_site) = hex_text" "on_frepr (in_memory example_site) = example_float_text"
  "on_settings (in_memory example_site) = default_settings" "on_semantic_max (in_memory example_site) = 256"
  "on_prompt_version (in_memory example_site) = ''v1''"
  "on_load (in_memory example_site) = on_load (in_memory example_pipeline)"
  "on_dump (in_memory example_site) = on_dump (in_memory example_pipeline)"
  by (simp_all add: in_memory_def example_site_def example_pipeline_def)

lemma example_float_text_ok: "float_text example_float_text example_floats"
  by (auto simp: float_text_def inj_on_def example_float_text_def example_floats_def num_char_def py_digit_def code_def)

lemma example_site_libs: "faithful_libs (in_memory example_site) UNIV example_floats"
  using example_libs by (simp add: faithful_libs_def example_site_simps hex_text_inj hex_text_digest example_float_text_ok)

lemma example_visitor_clean: "clean_principal example_visitor"
  by (simp add: clean_principal_def example_visitor_def)

lemma example_serving: "serving example_env (in_memory example_site) example_planner UNIV example_floats ''v1'' example_visitor example_request t example_start"
proof -
  have "tool_libs (host_cache example_env (in_memory example_site)) UNIV example_floats"
    using example_site_libs
    by (simp add: tool_libs_def faithful_libs_def pipeline_tool_cache_def example_site_simps example_env_def)
  moreover have "covered (in_memory example_site) UNIV example_floats example_visitor ''v1'' example_params"
    by (simp add: covered_def example_visitor_clean scope_payload_def example_site_simps cache_params_def config_of_def
        default_settings_def example_floats_def)
  ultimately have "hosting example_env (in_memory example_site) example_planner UNIV example_floats ''v1'' example_visitor ''what is it''"
    using example_site_libs by (auto simp: hosting_def example_site_simps example_planner_def)
  moreover have "answer_libs example_env (in_memory example_site)"
    by (simp add: answer_libs_def example_env_def example_site_simps) (simp add: in_memory_def example_pipeline_def)
  moreover have "covered_at (in_memory example_site) UNIV example_floats ''what is it'' example_visitor ''v1'' ''v1''
      (scoped_params (config_of default_settings) Rt (budget_override example_request (agent_budget default_settings)) st)" for Rt :: "(unit, unit, mem_cache, nat) online_state agent_runtime" and st
    by (simp add: covered_at_def example_visitor_clean scope_payload_def scoped_params_def cache_params_def config_of_def
        default_settings_def example_floats_def agent_cache_params_def budget_json_def budget_override_def or_ceiling_def
        clamp_def agent_budget_def example_request_def)
  ultimately show ?thesis
    by (simp add: serving_def example_site_simps example_request_def)
qed

lemma example_start_ok: "caches_ok example_env (in_memory example_site) memory_stored UNIV example_floats ''v1'' example_start"
  by (simp add: caches_ok_def online_inv_def tool_inv_def agent_inv_def active_index_version_def example_start_def
      example_state_def empty_mem_cache_def memory_stored_def)
     (simp add: in_memory_def example_site_def example_pipeline_def opt_or_def str_or_def)




end
