(* ===== verification/Backends.thy ===== *)
theory Backends
  imports Api Remote Embedding Providers Offline
begin

text \<open>
  \<open>src/rag/backends.py\<close>: the class behind every interface is chosen by a setting, and both pipelines of
  a process are built from one set of objects (\<open>BackendContext\<close>). An object with state is a value that
  holds its configuration and its state; the operations of an interface run the method of its class.
  The client libraries, and which of them are installed, are the record \<open>vendor\<close>.
\<close>

section \<open>The libraries\<close>

record 'r redis_client =
  rd_get :: "string \<Rightarrow> 'r \<Rightarrow> string option result \<times> 'r"
  rd_setex :: "string \<Rightarrow> int \<Rightarrow> string \<Rightarrow> 'r \<Rightarrow> unit result \<times> 'r"
  rd_set :: "string \<Rightarrow> string \<Rightarrow> 'r \<Rightarrow> unit result \<times> 'r"
  rd_delete :: "string \<Rightarrow> 'r \<Rightarrow> unit result \<times> 'r"
  rd_ping :: "'r \<Rightarrow> bool result \<times> 'r"

text \<open>
  The constructors of the clients, given what the code passes to them: \<open>QdrantClient\<close>, \<open>OpenSearch\<close>,
  \<open>Redis.from_url\<close>, \<open>OpenAI\<close> and the cross encoder; whether a call outlasts its limit; pauses
  between attempts; and functions of the standard library.
\<close>

record ('q, 'o, 'r, 'x) vendor =
  vd_installed :: "string \<Rightarrow> bool"
  vd_qdrant :: "string \<Rightarrow> string option \<Rightarrow> 'q qd_client"
  vd_opensearch :: "string \<Rightarrow> 'o os_client"
  vd_redis :: "string \<Rightarrow> 'r redis_client"
  vd_embeddings :: "string option \<Rightarrow> string \<Rightarrow> string list \<Rightarrow> int \<Rightarrow> ('x, embedding_item list) call"
  vd_completions :: "string option \<Rightarrow> real \<Rightarrow> json_dict \<Rightarrow> ('x, raw_response) call"
  vd_predict :: "(string \<times> string) list \<Rightarrow> real list"
  vd_late :: "real \<Rightarrow> 'x \<Rightarrow> 'x \<Rightarrow> bool"
  vd_rest :: "int \<Rightarrow> 'x \<Rightarrow> 'x"
  vd_exn_text :: "py_exn \<Rightarrow> string"
  vd_reader :: json_reader
  vd_sha256 :: "bytes \<Rightarrow> bytes"
  vd_uuid5 :: "string \<Rightarrow> string"

definition needs :: "('q, 'o, 'r, 'x) vendor \<Rightarrow> string \<Rightarrow> string \<Rightarrow> 'a result \<Rightarrow> 'a result" where
  "needs L backend extra x = (if vd_installed L extra then x else Inl (MissingBackendError backend extra))"

section \<open>Embedders\<close>

datatype 'x any_embedder = Hash_Embedder int | OpenAI_Embedder "'x openai_embedder"

definition build_embedder :: "('q, 'o, 'r, 'x) vendor \<Rightarrow> settings \<Rightarrow> 'x any_embedder result" where
  "build_embedder L s =
     (if se_embedding_backend s = EB_OpenAI
      then needs L ''OpenAIEmbedder'' ''openai''
             (bind_result (new_openai_embedder (se_embedding_model s) (se_embedding_dimensions s) (se_openai_api_key s)
                 (vd_embeddings L (se_openai_api_key s))) (\<lambda>E. Inr (OpenAI_Embedder E)))
      else Inr (Hash_Embedder (se_hash_embedding_dimensions s)))"

definition vector_dimensions :: "settings \<Rightarrow> int" where
  "vector_dimensions s =
     (if se_embedding_backend s = EB_OpenAI then se_embedding_dimensions s else se_hash_embedding_dimensions s)"

fun embedder_model_name :: "'x any_embedder \<Rightarrow> string" where
  "embedder_model_name (Hash_Embedder d) = hash_model_name d"
| "embedder_model_name (OpenAI_Embedder E) = oe_model_name E"

text \<open>\<open>embed\<close>; \<open>None\<close> when the call does not return.\<close>

fun embedder_embed ::
    "('q, 'o, 'r, 'x) vendor \<Rightarrow> 'x any_embedder \<Rightarrow> string list \<Rightarrow> 'x \<Rightarrow> real list list result option \<times> 'x" where
  "embedder_embed L (Hash_Embedder d) texts w = (map_option Inr (hash_embed (vd_sha256 L) d texts), w)"
| "embedder_embed L (OpenAI_Embedder E) texts w = apfst Some (openai_embed E texts w)"

section \<open>Stores\<close>

datatype 'q vectors = Memory_Vectors vector_store | Qdrant_Vectors "'q qdrant" "'q qdrant_state"

datatype 'o lexicon = BM25_Memory bm25 | OpenSearch_Index "'o opensearch" 'o

text \<open>The states \<open>q\<close> and \<open>x\<close> are those of the servers a new client connects to.\<close>

definition build_vector_store ::
    "('q, 'o, 'r, 'x) vendor \<Rightarrow> settings \<Rightarrow> string option \<Rightarrow> 'q \<Rightarrow> 'q vectors result" where
  "build_vector_store L s iv q =
     (if se_vector_backend s = VB_Qdrant
      then needs L ''QdrantVectorStore'' ''qdrant''
             (Inr (Qdrant_Vectors
                (new_qdrant (collection_for s iv) (vector_dimensions s) (vd_qdrant L (se_qdrant_url s) (se_qdrant_api_key s))
                   (vd_uuid5 L) (jr_frepr (vd_reader L)))
                \<lparr>qs_aliases = [], qs_server = q\<rparr>))
      else Inr (Memory_Vectors empty_vector_store))"

definition build_lexical_index ::
    "('q, 'o, 'r, 'x) vendor \<Rightarrow> settings \<Rightarrow> string option \<Rightarrow> 'o \<Rightarrow> 'o lexicon result" where
  "build_lexical_index L s iv x =
     (if se_lexical_backend s = LB_OpenSearch
      then needs L ''OpenSearchLexicalIndex'' ''opensearch''
             (Inr (OpenSearch_Index
                (new_opensearch (collection_for s iv) (vd_opensearch L (se_opensearch_url s)) (jr_frepr (vd_reader L))) x))
      else Inr (BM25_Memory (bm_empty (3 / 2) (3 / 4))))"

fun vectors_search :: "real list \<Rightarrow> int \<Rightarrow> principal \<Rightarrow> string option \<Rightarrow> 'q vectors \<Rightarrow> scored_chunk list result" where
  "vectors_search v k p iv (Memory_Vectors st) = vs_search v k p iv st"
| "vectors_search v k p iv (Qdrant_Vectors Q st) = qdrant_search Q v k p iv st"

fun vectors_upsert :: "chunk list \<Rightarrow> real list list \<Rightarrow> ('q vectors, unit) call" where
  "vectors_upsert cs vs (Memory_Vectors st) = apsnd Memory_Vectors (mem_upsert cs vs st)"
| "vectors_upsert cs vs (Qdrant_Vectors Q st) = apsnd (Qdrant_Vectors Q) (qdrant_upsert Q cs vs st)"

fun vectors_delete :: "string list \<Rightarrow> ('q vectors, unit) call" where
  "vectors_delete ids (Memory_Vectors st) = (Inr (), Memory_Vectors (vs_delete ids st))"
| "vectors_delete ids (Qdrant_Vectors Q st) = apsnd (Qdrant_Vectors Q) (qdrant_delete Q ids st)"

fun vectors_set_alias :: "string \<Rightarrow> string \<Rightarrow> ('q vectors, unit) call" where
  "vectors_set_alias a iv (Memory_Vectors st) = apsnd Memory_Vectors (mem_set_alias a iv st)"
| "vectors_set_alias a iv (Qdrant_Vectors Q st) = apsnd (Qdrant_Vectors Q) (qdrant_set_alias Q a iv st)"

fun vectors_resolve_alias :: "string \<Rightarrow> 'q vectors \<Rightarrow> string option result" where
  "vectors_resolve_alias a (Memory_Vectors st) = Inr (vs_resolve_alias a st)"
| "vectors_resolve_alias a (Qdrant_Vectors Q st) = Inr (qdrant_resolve_alias Q a st)"

fun vectors_count :: "string option \<Rightarrow> 'q vectors \<Rightarrow> nat result" where
  "vectors_count iv (Memory_Vectors st) = Inr (vs_count iv st)"
| "vectors_count iv (Qdrant_Vectors Q st) = bind_result (qdrant_count Q iv st) (\<lambda>n. Inr (nat n))"

fun lexicon_search :: "string \<Rightarrow> int \<Rightarrow> principal \<Rightarrow> string option \<Rightarrow> 'o lexicon \<Rightarrow> scored_chunk list result" where
  "lexicon_search q k p iv (BM25_Memory st) = bm_search q k p iv st"
| "lexicon_search q k p iv (OpenSearch_Index X s) = opensearch_search X q k p iv s"

fun lexicon_index :: "chunk list \<Rightarrow> ('o lexicon, unit) call" where
  "lexicon_index cs (BM25_Memory st) = apsnd BM25_Memory (mem_index cs st)"
| "lexicon_index cs (OpenSearch_Index X s) = apsnd (OpenSearch_Index X) (opensearch_upsert X cs s)"

fun lexicon_delete :: "string list \<Rightarrow> ('o lexicon, unit) call" where
  "lexicon_delete ids (BM25_Memory st) =
     (case bm_delete ids st of Inl e \<Rightarrow> (Inl e, BM25_Memory st) | Inr st' \<Rightarrow> (Inr (), BM25_Memory st'))"
| "lexicon_delete ids (OpenSearch_Index X s) = apsnd (OpenSearch_Index X) (opensearch_delete X ids s)"

section \<open>Rerankers and caches\<close>

datatype any_reranker = Identity_Reranker | Cross_Encoder_Reranker

definition build_reranker :: "('q, 'o, 'r, 'x) vendor \<Rightarrow> settings \<Rightarrow> any_reranker result" where
  "build_reranker L s =
     (if se_reranker s = RR_CrossEncoder then needs L ''CrossEncoderReranker'' ''rerank'' (Inr Cross_Encoder_Reranker)
      else Inr Identity_Reranker)"

fun any_rerank ::
    "('q, 'o, 'r, 'x) vendor \<Rightarrow> any_reranker \<Rightarrow> string \<Rightarrow> scored_chunk list \<Rightarrow> int \<Rightarrow> scored_chunk list result" where
  "any_rerank L Identity_Reranker q cs k = identity_rerank q cs k"
| "any_rerank L Cross_Encoder_Reranker q cs k = cross_encoder_rerank (vd_predict L) q cs k"

datatype 'r cache_store = Memory_Cache mem_cache | Redis_Cache "'r redis_client" 'r

definition build_cache :: "('q, 'o, 'r, 'x) vendor \<Rightarrow> settings \<Rightarrow> real \<Rightarrow> 'r \<Rightarrow> 'r cache_store result" where
  "build_cache L s now r =
     (if se_cache_backend s = CB_Redis then needs L ''RedisCache'' ''redis'' (Inr (Redis_Cache (vd_redis L (se_redis_url s)) r))
      else Inr (Memory_Cache (empty_mem_cache now)))"

definition ANSWER_SPACE :: string where
  "ANSWER_SPACE = ''rag:answer''"

fun cache_get :: "string \<Rightarrow> 'r cache_store \<Rightarrow> string option \<times> 'r cache_store" where
  "cache_get k (Memory_Cache c) = apsnd Memory_Cache (memory_get k c)"
| "cache_get k (Redis_Cache R r) = apsnd (Redis_Cache R) (redis_get (rd_get R) ANSWER_SPACE k r)"

fun cache_set :: "string \<Rightarrow> string \<Rightarrow> int option \<Rightarrow> 'r cache_store \<Rightarrow> 'r cache_store" where
  "cache_set k v ttl (Memory_Cache c) = Memory_Cache (memory_set k v ttl c)"
| "cache_set k v ttl (Redis_Cache R r) = Redis_Cache R (redis_set (rd_setex R) (rd_set R) ANSWER_SPACE k v ttl r)"

fun cache_delete :: "string \<Rightarrow> 'r cache_store \<Rightarrow> 'r cache_store" where
  "cache_delete k (Memory_Cache c) = Memory_Cache (memory_delete k c)"
| "cache_delete k (Redis_Cache R r) = Redis_Cache R (redis_delete (rd_delete R) ANSWER_SPACE k r)"

text \<open>Only the shared cache has a \<open>ping\<close>, which readiness looks for.\<close>

fun cache_ping :: "'r cache_store \<Rightarrow> bool option" where
  "cache_ping (Memory_Cache c) = None"
| "cache_ping (Redis_Cache R r) = Some (fst (redis_ping (rd_ping R) r))"

text \<open>\<open>build_semantic_cache\<close>: the threshold is read from the settings, the cap is the default of the class.\<close>

definition build_semantic_cache :: "settings \<Rightarrow> sem_cache option" where
  "build_semantic_cache s = (if se_cache_enabled s \<and> se_semantic_cache_enabled s then Some [] else None)"

definition MAX_ENTRIES_PER_SCOPE :: int where
  "MAX_ENTRIES_PER_SCOPE = 256"

section \<open>Models\<close>

definition settings_policy :: "settings \<Rightarrow> retry_policy" where
  "settings_policy s =
     default_policy\<lparr>rp_max_attempts := se_llm_max_attempts s, rp_timeout_seconds := se_llm_timeout_seconds s\<rparr>"

text \<open>A call with a limit: the answer is dropped when it comes too late.\<close>

definition timed ::
    "('q, 'o, 'r, 'x) vendor \<Rightarrow> ('a \<Rightarrow> 'x \<Rightarrow> 'b result \<times> 'x) \<Rightarrow> real \<Rightarrow> 'a \<Rightarrow> 'x \<Rightarrow> 'b result option \<times> 'x" where
  "timed L call limit x w = (let (res, w') = call x w in (if vd_late L limit w w' then None else Some res, w'))"

datatype 'x model = Stub_Model | OpenAI_Model "'x openai_client"

fun model_name :: "string \<Rightarrow> 'x model \<Rightarrow> string" where
  "model_name stub Stub_Model = stub"
| "model_name stub (OpenAI_Model A) = oa_model_name A"

text \<open>The primary model, the fallbacks and the policy that \<open>ResilientLLM\<close> and \<open>ResilientChatLLM\<close> hold.\<close>

record 'x resilient =
  rs_primary :: "'x model"
  rs_fallbacks :: "'x model list"
  rs_policy :: retry_policy

definition make_model :: "('q, 'o, 'r, 'x) vendor \<Rightarrow> string \<Rightarrow> settings \<Rightarrow> string \<Rightarrow> 'x model result" where
  "make_model L who s model =
     needs L who ''openai''
       (bind_result (new_openai who model (se_openai_api_key s) (se_llm_max_output_tokens s) (se_llm_temperature s)
           (vd_completions L (se_openai_api_key s) (se_llm_timeout_seconds s))) (\<lambda>A. Inr (OpenAI_Model A)))"

definition make_chain :: "('q, 'o, 'r, 'x) vendor \<Rightarrow> string \<Rightarrow> settings \<Rightarrow> 'x resilient result" where
  "make_chain L who s =
     bind_result (make_model L who s (se_llm_model s)) (\<lambda>primary.
     bind_result (map_result (make_model L who s) (se_llm_fallback_models s)) (\<lambda>fallbacks.
     Inr \<lparr>rs_primary = primary, rs_fallbacks = fallbacks, rs_policy = settings_policy s\<rparr>))"

definition build_llm :: "('q, 'o, 'r, 'x) vendor \<Rightarrow> settings \<Rightarrow> 'x resilient result" where
  "build_llm L s =
     (if se_llm_backend s = LLM_OpenAI then make_chain L ''OpenAIChatClient'' s
      else Inr \<lparr>rs_primary = Stub_Model, rs_fallbacks = [], rs_policy = settings_policy s\<rparr>)"

definition build_chat_llm :: "('q, 'o, 'r, 'x) vendor \<Rightarrow> settings \<Rightarrow> 'x resilient result" where
  "build_chat_llm L s =
     (if se_chat_llm_backend s = LLM_OpenAI then make_chain L ''OpenAIChatLLM'' s
      else Inr \<lparr>rs_primary = Stub_Model, rs_fallbacks = [], rs_policy = settings_policy s\<rparr>)"

definition llm_client :: "('q, 'o, 'r, 'x) vendor \<Rightarrow> 'x model \<Rightarrow> (string, string \<times> usage, 'x) client" where
  "llm_client L m =
     (let call = (case m of Stub_Model \<Rightarrow> echo_complete | OpenAI_Model A \<Rightarrow> openai_complete A)
      in \<lparr>cl_model = model_name ''echo'' m, cl_call = call, cl_call_within = timed L call\<rparr>)"

definition resilient_llm :: "('q, 'o, 'r, 'x) vendor \<Rightarrow> 'x resilient \<Rightarrow> 'x llm" where
  "resilient_llm L R =
     \<lparr>llm_model_name = model_name ''echo'' (rs_primary R),
      llm_complete = resilient_call (vd_exn_text L) (vd_rest L) (rs_policy R) (llm_client L (rs_primary R))
        (map (llm_client L) (rs_fallbacks R))\<rparr>"

text \<open>An \<open>EchoChatLLM\<close> without a script gives every request the same empty turn.\<close>

definition chat_client :: "('q, 'o, 'r, 'x) vendor \<Rightarrow> 'x model \<Rightarrow> 'x chat_client" where
  "chat_client L m =
     (let call = (case m of
                    Stub_Model \<Rightarrow> (\<lambda>(messages, tools) w. (Inr (fst (echo_chat_step messages (new_echo_chat []))), w))
                  | OpenAI_Model A \<Rightarrow> (\<lambda>(messages, tools). openai_chat (vd_reader L) A messages tools))
      in \<lparr>cl_model = model_name ''echo-chat'' m, cl_call = call, cl_call_within = timed L call\<rparr>)"

definition resilient_chat_model :: "('q, 'o, 'r, 'x) vendor \<Rightarrow> 'x resilient \<Rightarrow> 'x chat_llm" where
  "resilient_chat_model L R =
     resilient_chat_llm (vd_exn_text L) (vd_rest L) (rs_policy R) (chat_client L (rs_primary R))
       (map (chat_client L) (rs_fallbacks R))"

section \<open>The context of a process\<close>

record ('q, 'o, 'r, 'x) backend_context =
  cx_settings :: settings
  cx_embedder :: "'x any_embedder"
  cx_vectors :: "'q vectors"
  cx_lexical :: "'o lexicon"
  cx_reranker :: any_reranker
  cx_llm :: "'x resilient"
  cx_cache :: "'r cache_store"
  cx_semantic :: "sem_cache option"

text \<open>The servers outside the process, and the clock, when it starts.\<close>

record ('q, 'o, 'r) outside =
  out_qdrant :: 'q
  out_opensearch :: 'o
  out_redis :: 'r
  out_now :: real

definition from_settings ::
    "('q, 'o, 'r, 'x) vendor \<Rightarrow> settings \<Rightarrow> string option \<Rightarrow> ('q, 'o, 'r) outside
     \<Rightarrow> ('q, 'o, 'r, 'x) backend_context result" where
  "from_settings L s iv out =
     bind_result (build_embedder L s) (\<lambda>embedder.
     bind_result (build_vector_store L s iv (out_qdrant out)) (\<lambda>vectors.
     bind_result (build_lexical_index L s iv (out_opensearch out)) (\<lambda>lexical.
     bind_result (build_reranker L s) (\<lambda>reranker.
     bind_result (build_llm L s) (\<lambda>llm.
     bind_result (build_cache L s (out_now out) (out_redis out)) (\<lambda>cache.
     Inr \<lparr>cx_settings = s, cx_embedder = embedder, cx_vectors = vectors, cx_lexical = lexical, cx_reranker = reranker,
          cx_llm = llm, cx_cache = cache, cx_semantic = build_semantic_cache s\<rparr>))))))"

text \<open>
  The pipelines of a context. They take from \<open>base\<close> what no backend is behind: the prompt files, the
  hash and the printers of the standard library and, for the embedding service, the vectors it gives.
\<close>

definition hash_answers :: "('q, 'o, 'r, 'x) vendor \<Rightarrow> int \<Rightarrow> string list \<Rightarrow> real list list" where
  "hash_answers L d texts = (case hash_embed (vd_sha256 L) d texts of None \<Rightarrow> [] | Some vs \<Rightarrow> vs)"

definition online_from_context ::
    "('q, 'o, 'r, 'x) vendor \<Rightarrow> ('q vectors, 'o lexicon, 'r cache_store, 'x) pipeline \<Rightarrow> ('q, 'o, 'r, 'x) backend_context
     \<Rightarrow> ('q vectors, 'o lexicon, 'r cache_store, 'x) pipeline" where
  "online_from_context L base C =
     (let s = cx_settings C in
      base\<lparr>on_settings := s,
        on_dsearch := vectors_search, on_lsearch := lexicon_search,
        on_resolve_alias := vectors_resolve_alias, on_count := vectors_count,
        on_embed := (case cx_embedder C of Hash_Embedder d \<Rightarrow> hash_answers L d | OpenAI_Embedder E \<Rightarrow> on_embed base),
        on_embed_query :=
          (case cx_embedder C of Hash_Embedder d \<Rightarrow> (\<lambda>t. hd (hash_answers L d [t])) | OpenAI_Embedder E \<Rightarrow> on_embed_query base),
        on_hybrid := \<lparr>hy_rrf_k = se_rrf_k s, hy_dense_weight = se_dense_weight s, hy_lexical_weight = se_lexical_weight s\<rparr>,
        on_rerank := any_rerank L (cx_reranker C), on_llm := resilient_llm L (cx_llm C),
        on_get := cache_get, on_set := cache_set, on_prompt_version := ''v1'', on_fallback_version := None,
        on_semantic_max := MAX_ENTRIES_PER_SCOPE\<rparr>)"

definition online_start :: "('q, 'o, 'r, 'x) backend_context \<Rightarrow> 'x \<Rightarrow> ('q vectors, 'o lexicon, 'r cache_store, 'x) online_state" where
  "online_start C w =
     \<lparr>ol_dense = cx_vectors C, ol_lexical = cx_lexical C, ol_cache = cx_cache C, ol_semantic = cx_semantic C, ol_world = w\<rparr>"

text \<open>\<open>readiness\<close> of the pipeline: the cache is asked when it can be.\<close>

definition context_ready ::
    "('q, 'o, 'r, 'x) vendor \<Rightarrow> ('q vectors, 'o lexicon, 'r cache_store, 'x) pipeline \<Rightarrow> ('q, 'o, 'r, 'x) backend_context
     \<Rightarrow> ('q vectors, 'o lexicon, 'r cache_store, 'x) online_state \<Rightarrow> bool" where
  "context_ready L base C st = ready (online_from_context L base C) (cache_ping (ol_cache st)) st"

definition offline_from_context ::
    "('q, 'o, 'r, 'x) vendor \<Rightarrow> ('q vectors, 'o lexicon) offline \<Rightarrow> ('q, 'o, 'r, 'x) backend_context
     \<Rightarrow> ('q vectors, 'o lexicon) offline" where
  "offline_from_context L base C =
     base\<lparr>of_upsert := vectors_upsert, of_set_alias := vectors_set_alias, of_index := lexicon_index,
       of_embed := (case cx_embedder C of Hash_Embedder d \<Rightarrow> (\<lambda>ts. Inr (hash_answers L d ts)) | OpenAI_Embedder E \<Rightarrow> of_embed base),
       of_model_name := embedder_model_name (cx_embedder C), of_settings := cx_settings C\<rparr>"

definition offline_start :: "('q, 'o, 'r, 'x) backend_context \<Rightarrow> index_registry \<Rightarrow> ('q vectors, 'o lexicon) offline_state" where
  "offline_start C registry = \<lparr>os_vectors = cx_vectors C, os_lexical = cx_lexical C, os_registry = registry\<rparr>"

section \<open>Every choice keeps its contract\<close>

text \<open>
  What the Redis client documents: it gives only what its database holds, and a write changes no other
  key. A cache object with another client counts as holding anything.
\<close>

definition redis_keeps :: "'r redis_client \<Rightarrow> ('r \<Rightarrow> string \<Rightarrow> string \<Rightarrow> bool) \<Rightarrow> bool" where
  "redis_keeps R entries \<longleftrightarrow>
     (\<forall>k r v r'. rd_get R k r = (Inr (Some v), r') \<longrightarrow> entries r k v)
     \<and> (\<forall>k r x r' k' v. rd_get R k r = (x, r') \<longrightarrow> entries r' k' v \<longrightarrow> entries r k' v)
     \<and> (\<forall>k n v r x r' k' v'. rd_setex R k n v r = (x, r') \<longrightarrow> entries r' k' v' \<longrightarrow> k' = k \<and> v' = v \<or> entries r k' v')
     \<and> (\<forall>k v r x r' k' v'. rd_set R k v r = (x, r') \<longrightarrow> entries r' k' v' \<longrightarrow> k' = k \<and> v' = v \<or> entries r k' v')"

fun cache_stored :: "('r \<Rightarrow> string \<Rightarrow> string \<Rightarrow> bool) \<Rightarrow> 'r cache_store \<Rightarrow> string \<Rightarrow> string \<Rightarrow> bool" where
  "cache_stored entries (Memory_Cache c) k v = memory_stored c k v"
| "cache_stored entries (Redis_Cache R r) k v = (redis_keeps R entries \<longrightarrow> entries r (redis_key ANSWER_SPACE k) v)"

lemma redis_get_keeps:
  assumes "redis_keeps R entries" "redis_get (rd_get R) ns k r = (x, r')"
  shows "(x = Some v \<longrightarrow> entries r (redis_key ns k) v) \<and> (entries r' k' v' \<longrightarrow> entries r k' v')"
  using assms unfolding redis_keeps_def redis_get_def by (auto split: prod.splits sum.splits)

lemma redis_set_keeps:
  assumes "redis_keeps R entries" "entries (redis_set (rd_setex R) (rd_set R) ns k v ttl r) k' v'"
  shows "k' = redis_key ns k \<and> v' = v \<or> entries r k' v'"
proof (cases "\<exists>n. ttl = Some n \<and> n \<noteq> 0")
  case True
  then obtain n x r' where "ttl = Some n" "n \<noteq> 0" "rd_setex R (redis_key ns k) n v r = (x, r')"
    by fastforce
  with assms show ?thesis unfolding redis_keeps_def redis_set_def by auto
next
  case False
  obtain x r' where r': "rd_set R (redis_key ns k) v r = (x, r')" by fastforce
  with False have "redis_set (rd_setex R) (rd_set R) ns k v ttl r = r'"
    by (auto simp: redis_set_def split: option.splits)
  with assms r' show ?thesis unfolding redis_keeps_def by blast
qed

interpretation any_cache: kv_cache cache_get cache_set "cache_stored entries" for entries
proof unfold_locales
  show "cache_stored entries c k v" if "cache_get k c = (Some v, c')" for k c v c'
    using that redis_get_keeps mem.get_stored
    by (cases c) (fastforce simp: apsnd_def map_prod_def split: prod.splits)+
  show "cache_stored entries c k' v" if "cache_get k c = (x, c')" "cache_stored entries c' k' v" for k c x c' k' v
    using that redis_get_keeps mem.get_shrinks
    by (cases c) (fastforce simp: apsnd_def map_prod_def split: prod.splits)+
  show "k' = k \<and> v' = v \<or> cache_stored entries c k' v'" if "cache_stored entries (cache_set k v ttl c) k' v'"
    for k v ttl c k' v'
    using that redis_set_keeps mem.set_stored redis_key_inject by (cases c) fastforce+
qed

interpretation any_rr: reranker "any_rerank L r" for L r
proof (cases r)
  case Identity_Reranker
  have "any_rerank L Identity_Reranker = identity_rerank" by (intro ext) simp
  with Identity_Reranker show "reranker (any_rerank L r)" using ident.reranker_axioms by simp
next
  case Cross_Encoder_Reranker
  have "any_rerank L Cross_Encoder_Reranker = cross_encoder_rerank (vd_predict L)" by (intro ext) simp
  with Cross_Encoder_Reranker show "reranker (any_rerank L r)" using cross.reranker_axioms by simp
qed

lemma online_from_context_simps [simp]:
  "on_settings (online_from_context L base C) = cx_settings C"
  "on_dsearch (online_from_context L base C) = vectors_search"
  "on_lsearch (online_from_context L base C) = lexicon_search"
  "on_resolve_alias (online_from_context L base C) = vectors_resolve_alias"
  "on_get (online_from_context L base C) = cache_get" "on_set (online_from_context L base C) = cache_set"
  "on_rerank (online_from_context L base C) = any_rerank L (cx_reranker C)"
  "on_semantic_max (online_from_context L base C) = MAX_ENTRIES_PER_SCOPE"
  "on_prompt_version (online_from_context L base C) = ''v1''"
  "on_fallback_version (online_from_context L base C) = None"
  "on_sha (online_from_context L base C) = on_sha base" "on_frepr (online_from_context L base C) = on_frepr base"
  "on_dump (online_from_context L base C) = on_dump base" "on_load (online_from_context L base C) = on_load base"
  "on_hybrid (online_from_context L base C) =
     \<lparr>hy_rrf_k = se_rrf_k (cx_settings C), hy_dense_weight = se_dense_weight (cx_settings C),
      hy_lexical_weight = se_lexical_weight (cx_settings C)\<rparr>"
  by (simp_all add: online_from_context_def Let_def)

interpretation any_online: online "online_from_context L base C" "cache_stored entries" for L base C entries
  by (intro online.intro) (simp_all add: any_cache.kv_cache_axioms any_rr.reranker_axioms)

text \<open>The stores: what they hold, and what is assumed of a server.\<close>

fun vectors_indexed :: "('q \<Rightarrow> string \<Rightarrow> (string \<times> json_dict) set) \<Rightarrow> 'q vectors \<Rightarrow> chunk set" where
  "vectors_indexed points (Memory_Vectors st) = vs_indexed st"
| "vectors_indexed points (Qdrant_Vectors Q st) = qd_indexed Q points (qs_server st)"

fun vectors_inv :: "('q \<Rightarrow> string \<Rightarrow> (string \<times> json_dict) set) \<Rightarrow> 'q vectors \<Rightarrow> bool" where
  "vectors_inv points (Memory_Vectors st) = vs_inv st"
| "vectors_inv points (Qdrant_Vectors Q st) = (qd_serves Q points (qs_server st) \<and> qd_written Q points (qs_server st))"

fun lexicon_indexed :: "('o \<Rightarrow> string \<Rightarrow> (string \<times> json_dict) set) \<Rightarrow> 'o lexicon \<Rightarrow> chunk set" where
  "lexicon_indexed docs (BM25_Memory st) = bm_indexed st"
| "lexicon_indexed docs (OpenSearch_Index X s) = os_indexed docs s"

fun lexicon_inv :: "('o \<Rightarrow> string \<Rightarrow> (string \<times> json_dict) set) \<Rightarrow> 'o lexicon \<Rightarrow> bool" where
  "lexicon_inv docs (BM25_Memory st) = bm_inv st"
| "lexicon_inv docs (OpenSearch_Index X s) = (os_serves X docs s \<and> os_written docs s)"

interpretation any_dense: acl_search vectors_search "vectors_indexed points" "vectors_inv points" for points
proof
  show "\<exists>hits. vectors_search q k p iv st = Inr hits \<and> hits_ok p iv (vectors_indexed points st) k hits"
    if "vectors_inv points st" for q k p iv st
    using that by (cases st) (simp_all add: vs.search_hits qdrant.search_hits)
qed

interpretation any_lexical: acl_search lexicon_search "lexicon_indexed docs" "lexicon_inv docs" for docs
proof
  show "\<exists>hits. lexicon_search q k p iv st = Inr hits \<and> hits_ok p iv (lexicon_indexed docs st) k hits"
    if "lexicon_inv docs st" for q k p iv st
    using that by (cases st) (simp_all add: bm.search_hits opensearch.search_hits)
qed

interpretation any_legs: hybrid_legs vectors_search "vectors_indexed points" "vectors_inv points"
    lexicon_search "lexicon_indexed docs" "lexicon_inv docs" for points docs
  by unfold_locales

section \<open>A process serves one request after the other\<close>

lemma lookup_indexes: "lookup_cache P key scope q st = (l, st') \<Longrightarrow> ol_dense st' = ol_dense st \<and> ol_lexical st' = ol_lexical st"
  by (auto simp: lookup_cache_def Let_def split: if_splits prod.splits option.splits)

lemma store_indexes: "ol_dense (store_answer P key scope q a st) = ol_dense st"
    "ol_lexical (store_answer P key scope q a st) = ol_lexical st"
  by (simp_all add: store_answer_def Let_def)

lemma generate_indexes:
  "online_generate P trace_id q p cfg iv key scope st = (r, st') \<Longrightarrow> ol_dense st' = ol_dense st \<and> ol_lexical st' = ol_lexical st"
  by (auto simp: online_generate_def Let_def store_indexes split: if_splits sum.splits prod.splits)

text \<open>The online pipeline never writes to an index.\<close>

lemma answer_indexes:
  assumes "online_answer P trace_id q p st = (r, st')"
  shows "ol_dense st' = ol_dense st \<and> ol_lexical st' = ol_lexical st"
proof (cases "bind_result (retrieval_config (on_settings P) (on_yaml P)) (\<lambda>cfg.
             bind_result (active_index_version P st) (\<lambda>iv. Inr (cfg, iv)))")
  case (Inl e)
  with assms show ?thesis by (simp add: online_answer_def)
next
  case (Inr x)
  obtain cfg iv where x: "x = (cfg, iv)" by fastforce
  let ?params = "Some (cache_params cfg)"
  obtain l st1 where l: "lookup_cache P (cache_key (on_sha P) (on_frepr P) q p iv (on_prompt_version P) ?params)
      (cache_scope (on_sha P) (on_frepr P) p iv (on_prompt_version P) ?params) q st = (l, st1)"
    by fastforce
  show ?thesis
    using assms Inr x l lookup_indexes [OF l]
    by (auto simp: online_answer_def Let_def split: sum.splits option.splits dest: generate_indexes)
qed

fun answer_all ::
    "('s, 't, 'c, 'w) pipeline \<Rightarrow> (string \<times> string \<times> principal) list \<Rightarrow> ('s, 't, 'c, 'w) online_state
     \<Rightarrow> answer result list \<times> ('s, 't, 'c, 'w) online_state" where
  "answer_all P [] st = ([], st)"
| "answer_all P ((trace_id, q, p) # reqs) st =
     (let (r, st') = online_answer P trace_id q p st; (rs, st'') = answer_all P reqs st' in (r # rs, st''))"

definition fits_caller :: "string \<Rightarrow> principal \<Rightarrow> answer result \<Rightarrow> bool" where
  "fits_caller q p r \<longleftrightarrow> (\<forall>a. r = Inr a \<longrightarrow> grounded_for p a \<and> (a_refused a \<longrightarrow> a_citations a = [])
     \<and> (\<not> a_refused a \<longrightarrow> a_citations a \<noteq> [] \<or> route_query q = CHITCHAT))"

lemma answer_all_fits:
  assumes libs: "faithful_libs (online_from_context L base C) R F"
  shows "answer_all (online_from_context L base C) reqs st = (rs, st')
    \<Longrightarrow> online_inv (online_from_context L base C) (cache_stored entries) R F st
    \<Longrightarrow> active_index_version (online_from_context L base C) st = Inr iv
    \<Longrightarrow> \<forall>(trace_id, q, p) \<in> set reqs. covered (online_from_context L base C) R F p iv
           (Some (cache_params (config_of (cx_settings C))))
         \<and> key_text (online_from_context L base C) q p iv (Some (cache_params (config_of (cx_settings C)))) \<in> R
    \<Longrightarrow> list_all2 (\<lambda>(trace_id, q, p) r. fits_caller q p r) reqs rs
         \<and> online_inv (online_from_context L base C) (cache_stored entries) R F st'
         \<and> ol_dense st' = ol_dense st \<and> ol_lexical st' = ol_lexical st"
proof (induction reqs arbitrary: st rs)
  case (Cons req reqs)
  let ?P = "online_from_context L base C"
  obtain trace_id q p where req: "req = (trace_id, q, p)" by (cases req)
  obtain r st1 where one: "online_answer ?P trace_id q p st = (r, st1)" by fastforce
  obtain rs1 st2 where more: "answer_all ?P reqs st1 = (rs1, st2)" by fastforce
  have out: "rs = r # rs1" "st' = st2"
    using Cons.prems(1) req one more by auto
  have m: "0 \<le> on_semantic_max ?P" by (simp add: MAX_ENTRIES_PER_SCOPE_def)
  have step: "online_inv ?P (cache_stored entries) R F st1" "fits_caller q p r"
    using any_online.answer_ok [OF libs Cons.prems(2) m Cons.prems(3) _ _ one] Cons.prems(4) req
    by (auto simp: fits_caller_def)
  have same: "ol_dense st1 = ol_dense st \<and> ol_lexical st1 = ol_lexical st"
    by (rule answer_indexes [OF one])
  then have "active_index_version ?P st1 = Inr iv"
    using Cons.prems(3) by (simp add: active_index_version_def)
  with Cons.IH [OF more [folded out(2)] step(1)] Cons.prems(4)
  have "list_all2 (\<lambda>(trace_id, q, p) r. fits_caller q p r) reqs rs1
      \<and> online_inv ?P (cache_stored entries) R F st' \<and> ol_dense st' = ol_dense st1 \<and> ol_lexical st' = ol_lexical st1"
    by simp
  with out req step(2) same show ?case by simp
qed simp

text \<open>Caches that hold nothing yet.\<close>

lemma built_cache:
  assumes "from_settings L s iv out = Inr C"
  shows "cx_settings C = s \<and> cx_semantic C = build_semantic_cache s
     \<and> (cx_cache C = Memory_Cache (empty_mem_cache (out_now out)) \<or> cx_cache C = Redis_Cache (vd_redis L (se_redis_url s)) (out_redis out))
     \<and> (se_cache_backend s \<noteq> CB_Redis \<longrightarrow> cx_cache C = Memory_Cache (empty_mem_cache (out_now out)))"
  using assms
  by (auto simp: from_settings_def build_cache_def needs_def bind_result_def split: sum.splits if_splits)

lemma fresh_cache:
  assumes "from_settings L s iv out = Inr C" "ol_cache st = cx_cache C"
    and "se_cache_backend s = CB_Redis \<longrightarrow> redis_keeps (vd_redis L (se_redis_url s)) entries"
    and "\<forall>k v. \<not> entries (out_redis out) k v"
  shows "\<not> cache_stored entries (ol_cache st) k v"
  using built_cache [OF assms(1)] assms(2-4) by (auto simp: memory_stored_def empty_mem_cache_def)

lemma fresh_inv:
  assumes "from_settings L s iv out = Inr C" "ol_cache st = cx_cache C" "ol_semantic st = cx_semantic C"
    and "se_cache_backend s = CB_Redis \<longrightarrow> redis_keeps (vd_redis L (se_redis_url s)) entries"
    and "\<forall>k v. \<not> entries (out_redis out) k v"
  shows "online_inv (online_from_context L base C) (cache_stored entries) R F st"
proof -
  have "sem_inv (on_embed_query (online_from_context L base C)) (on_semantic_max (online_from_context L base C))
      (scope_ok (online_from_context L base C) R F) c" if "ol_semantic st = Some c" for c
    using built_cache [OF assms(1)] assms(3) that by (auto simp: build_semantic_cache_def sem_inv_def split: if_splits)
  with fresh_cache [OF assms(1,2,4,5)] show ?thesis by (simp add: online_inv_def)
qed

section \<open>What production wires\<close>

definition chain_of :: "settings \<Rightarrow> 'x resilient \<Rightarrow> bool" where
  "chain_of s R \<longleftrightarrow> (\<exists>A As. rs_primary R = OpenAI_Model A \<and> rs_fallbacks R = map OpenAI_Model As
     \<and> map oa_model_name (A # As) = se_llm_model s # se_llm_fallback_models s
     \<and> (\<forall>B \<in> set (A # As). oa_max_output_tokens B = se_llm_max_output_tokens s \<and> oa_temperature B = se_llm_temperature s)
     \<and> rp_max_attempts (rs_policy R) = se_llm_max_attempts s \<and> rp_timeout_seconds (rs_policy R) = se_llm_timeout_seconds s)"

lemma make_model_cases:
  "make_model L who s model =
     (if \<not> vd_installed L ''openai'' then Inl (MissingBackendError who ''openai'')
      else if no_key (se_openai_api_key s) then Inl (ValueError (''OPENAI_API_KEY is required for '' @ who))
      else Inr (OpenAI_Model \<lparr>oa_model_name = model, oa_max_output_tokens = se_llm_max_output_tokens s,
             oa_temperature = se_llm_temperature s,
             oa_create = vd_completions L (se_openai_api_key s) (se_llm_timeout_seconds s)\<rparr>))"
  by (simp add: make_model_def needs_def new_openai_def no_key_def)

lemma make_chain_iff:
  "(\<exists>R. make_chain L who s = Inr R) \<longleftrightarrow> vd_installed L ''openai'' \<and> \<not> no_key (se_openai_api_key s)"
  "make_chain L who s = Inr R \<Longrightarrow> chain_of s R"
proof -
  let ?A = "\<lambda>model. \<lparr>oa_model_name = model, oa_max_output_tokens = se_llm_max_output_tokens s,
             oa_temperature = se_llm_temperature s,
             oa_create = vd_completions L (se_openai_api_key s) (se_llm_timeout_seconds s)\<rparr>"
  show ex: "(\<exists>R. make_chain L who s = Inr R) \<longleftrightarrow> vd_installed L ''openai'' \<and> \<not> no_key (se_openai_api_key s)"
  proof (cases "vd_installed L ''openai'' \<and> \<not> no_key (se_openai_api_key s)")
    case True
    then have m: "make_model L who s model = Inr (OpenAI_Model (?A model))" for model
      by (simp add: make_model_cases)
    have "map_result (make_model L who s) models = Inr (map (OpenAI_Model \<circ> ?A) models)" for models
      by (rule map_result_Inr) (simp add: m)
    with m True show ?thesis by (simp add: make_chain_def)
  next
    case False
    then show ?thesis by (auto simp: make_chain_def make_model_cases)
  qed
  assume R: "make_chain L who s = Inr R"
  with ex have m: "make_model L who s model = Inr (OpenAI_Model (?A model))" for model
    by (auto simp: make_model_cases)
  have "map_result (make_model L who s) models = Inr (map (OpenAI_Model \<circ> ?A) models)" for models
    by (rule map_result_Inr) (simp add: m)
  with m R have "R = \<lparr>rs_primary = OpenAI_Model (?A (se_llm_model s)),
      rs_fallbacks = map (OpenAI_Model \<circ> ?A) (se_llm_fallback_models s), rs_policy = settings_policy s\<rparr>"
    by (simp add: make_chain_def comp_def)
  then show "chain_of s R"
    unfolding chain_of_def
    by (intro exI [of _ "?A (se_llm_model s)"] exI [of _ "map ?A (se_llm_fallback_models s)"])
      (auto simp: settings_policy_def comp_def)
qed

lemma production_choices:
  assumes "is_production s" "reject_unsafe repr s = Inr s'"
  shows "se_embedding_backend s = EB_OpenAI" "se_llm_backend s = LLM_OpenAI"
    "se_agent_enabled s \<Longrightarrow> se_chat_llm_backend s = LLM_OpenAI"
  using assms
  by (cases "se_embedding_backend s"; cases "se_llm_backend s"; cases "se_chat_llm_backend s";
      force simp: reject_unsafe_def unsafe_problems_def split: if_splits)+

text \<open>The optional packages that the settings ask for, beside the one of the models.\<close>

definition extras_installed :: "('q, 'o, 'r, 'x) vendor \<Rightarrow> settings \<Rightarrow> bool" where
  "extras_installed L s \<longleftrightarrow>
     (se_vector_backend s = VB_Qdrant \<longrightarrow> vd_installed L ''qdrant'')
     \<and> (se_lexical_backend s = LB_OpenSearch \<longrightarrow> vd_installed L ''opensearch'')
     \<and> (se_reranker s = RR_CrossEncoder \<longrightarrow> vd_installed L ''rerank'')
     \<and> (se_cache_backend s = CB_Redis \<longrightarrow> vd_installed L ''redis'')"

lemma from_settings_iff:
  assumes "se_embedding_backend s = EB_OpenAI" "se_llm_backend s = LLM_OpenAI"
  shows "(\<exists>C. from_settings L s iv out = Inr C)
     \<longleftrightarrow> vd_installed L ''openai'' \<and> \<not> no_key (se_openai_api_key s) \<and> extras_installed L s"
proof -
  have "(\<exists>C. from_settings L s iv out = Inr C) \<longleftrightarrow>
     (\<exists>E. build_embedder L s = Inr E) \<and> (\<exists>V. build_vector_store L s iv (out_qdrant out) = Inr V)
     \<and> (\<exists>X. build_lexical_index L s iv (out_opensearch out) = Inr X) \<and> (\<exists>r. build_reranker L s = Inr r)
     \<and> (\<exists>R. build_llm L s = Inr R) \<and> (\<exists>c. build_cache L s (out_now out) (out_redis out) = Inr c)"
    by (auto simp: from_settings_def)
  moreover have "(\<exists>E. build_embedder L s = Inr E) \<longleftrightarrow> vd_installed L ''openai'' \<and> \<not> no_key (se_openai_api_key s)"
    using assms(1) by (simp add: build_embedder_def needs_def new_openai_embedder_def)
  moreover have "(\<exists>R. build_llm L s = Inr R) \<longleftrightarrow> vd_installed L ''openai'' \<and> \<not> no_key (se_openai_api_key s)"
    using assms(2) make_chain_iff(1) by (simp add: build_llm_def)
  moreover have "(\<exists>V. build_vector_store L s iv (out_qdrant out) = Inr V) \<longleftrightarrow> (se_vector_backend s = VB_Qdrant \<longrightarrow> vd_installed L ''qdrant'')"
    by (simp add: build_vector_store_def needs_def)
  moreover have "(\<exists>X. build_lexical_index L s iv (out_opensearch out) = Inr X)
     \<longleftrightarrow> (se_lexical_backend s = LB_OpenSearch \<longrightarrow> vd_installed L ''opensearch'')"
    by (simp add: build_lexical_index_def needs_def)
  moreover have "(\<exists>r. build_reranker L s = Inr r) \<longleftrightarrow> (se_reranker s = RR_CrossEncoder \<longrightarrow> vd_installed L ''rerank'')"
    by (simp add: build_reranker_def needs_def)
  moreover have "(\<exists>c. build_cache L s (out_now out) (out_redis out) = Inr c) \<longleftrightarrow> (se_cache_backend s = CB_Redis \<longrightarrow> vd_installed L ''redis'')"
    by (simp add: build_cache_def needs_def)
  ultimately show ?thesis unfolding extras_installed_def by blast
qed

section \<open>The version a process was started under\<close>

definition started_version :: "settings \<Rightarrow> string option \<Rightarrow> string" where
  "started_version s iv = (case iv of None \<Rightarrow> se_index_version s | Some v \<Rightarrow> str_or v (se_index_version s))"

lemma collection_started: "collection_for s iv = se_collection_prefix s @ ''__'' @ started_version s iv"
  by (simp add: collection_for_def started_version_def)

lemma prefix_started:
  "plain_version (started_version s iv) \<Longrightarrow> prefix_of (collection_for s iv) = se_collection_prefix s"
  by (simp only: collection_started prefix_of_def rsplit_versioned option.case prod.case)

text \<open>Two stores that answer alike, whatever non-empty version they are asked for.\<close>

definition same_dense :: "'q vectors \<Rightarrow> 'q vectors \<Rightarrow> bool" where
  "same_dense V W \<longleftrightarrow> (\<forall>v k p iv. iv \<noteq> [] \<longrightarrow> vectors_search v k p (Some iv) V = vectors_search v k p (Some iv) W)
     \<and> (\<forall>iv. iv \<noteq> [] \<longrightarrow> vectors_count (Some iv) V = vectors_count (Some iv) W)
     \<and> (\<forall>a. vectors_resolve_alias a V = vectors_resolve_alias a W)"

definition same_lexical :: "'o lexicon \<Rightarrow> 'o lexicon \<Rightarrow> bool" where
  "same_lexical X Y \<longleftrightarrow> (\<forall>q k p iv. iv \<noteq> [] \<longrightarrow> lexicon_search q k p (Some iv) X = lexicon_search q k p (Some iv) Y)"

lemma same_qdrant:
  assumes "qd_prefix Q = qd_prefix R" "qd_client Q = qd_client R" "qd_frepr Q = qd_frepr R"
  shows "same_dense (Qdrant_Vectors Q st) (Qdrant_Vectors R st)"
proof -
  have "read_hit Q = read_hit R" using assms(3) by (intro ext) (simp add: read_hit_def)
  with assms show ?thesis
    by (simp add: same_dense_def qdrant_search_def qdrant_count_def qdrant_resolve_alias_def qd_collection_for_def versioned_def)
qed

lemma same_opensearch:
  assumes "oi_prefix X = oi_prefix Y" "oi_client X = oi_client Y" "oi_frepr X = oi_frepr Y"
  shows "same_lexical (OpenSearch_Index X st) (OpenSearch_Index Y st)"
proof -
  have "read_os_hit X = read_os_hit Y" using assms(3) by (intro ext) (simp add: read_os_hit_def)
  with assms show ?thesis
    by (simp add: same_lexical_def opensearch_search_def index_for_def versioned_def)
qed

lemma built_same:
  assumes "plain_version (started_version s v)" "plain_version (started_version s w)"
    and "from_settings L s v out = Inr C" "from_settings L s w out = Inr D"
  shows "same_dense (cx_vectors C) (cx_vectors D)" "same_lexical (cx_lexical C) (cx_lexical D)"
    "online_from_context L base C = online_from_context L base D"
    "cx_cache C = cx_cache D" "cx_semantic C = cx_semantic D"
proof -
  have V: "build_vector_store L s v (out_qdrant out) = Inr (cx_vectors C)"
      "build_vector_store L s w (out_qdrant out) = Inr (cx_vectors D)"
    and X: "build_lexical_index L s v (out_opensearch out) = Inr (cx_lexical C)"
      "build_lexical_index L s w (out_opensearch out) = Inr (cx_lexical D)"
    and rest: "cx_settings C = cx_settings D" "Inr (cx_embedder C) = Inr (cx_embedder D)"
      "Inr (cx_reranker C) = Inr (cx_reranker D)" "Inr (cx_llm C) = Inr (cx_llm D)" "Inr (cx_cache C) = Inr (cx_cache D)"
      "cx_semantic C = cx_semantic D"
    using assms(3,4) by (auto simp: from_settings_def)
  show "same_dense (cx_vectors C) (cx_vectors D)"
  proof (cases "se_vector_backend s = VB_Qdrant")
    case True
    let ?Q = "\<lambda>iv. new_qdrant (collection_for s iv) (vector_dimensions s)
        (vd_qdrant L (se_qdrant_url s) (se_qdrant_api_key s)) (vd_uuid5 L) (jr_frepr (vd_reader L))"
    have "cx_vectors C = Qdrant_Vectors (?Q v) \<lparr>qs_aliases = [], qs_server = out_qdrant out\<rparr>"
        "cx_vectors D = Qdrant_Vectors (?Q w) \<lparr>qs_aliases = [], qs_server = out_qdrant out\<rparr>"
      using V True by (auto simp: build_vector_store_def needs_def split: if_splits)
    then show ?thesis
      by (simp only:, intro same_qdrant)
        (simp_all add: new_qdrant_def prefix_started [OF assms(1)] prefix_started [OF assms(2)])
  next
    case False
    with V show ?thesis by (simp add: build_vector_store_def same_dense_def)
  qed
  show "same_lexical (cx_lexical C) (cx_lexical D)"
  proof (cases "se_lexical_backend s = LB_OpenSearch")
    case True
    let ?X = "\<lambda>iv. new_opensearch (collection_for s iv) (vd_opensearch L (se_opensearch_url s)) (jr_frepr (vd_reader L))"
    have "cx_lexical C = OpenSearch_Index (?X v) (out_opensearch out)"
        "cx_lexical D = OpenSearch_Index (?X w) (out_opensearch out)"
      using X True by (auto simp: build_lexical_index_def needs_def split: if_splits)
    then show ?thesis
      by (simp only:, intro same_opensearch)
        (simp_all add: new_opensearch_def prefix_started [OF assms(1)] prefix_started [OF assms(2)])
  next
    case False
    with X show ?thesis by (simp add: build_lexical_index_def same_lexical_def)
  qed
  show "online_from_context L base C = online_from_context L base D" "cx_cache C = cx_cache D" "cx_semantic C = cx_semantic D"
    using rest by (simp_all add: online_from_context_def)
qed

text \<open>The answers of two processes that differ in their stores only.\<close>

definition over :: "'s \<Rightarrow> 't \<Rightarrow> ('s, 't, 'c, 'w) online_state \<Rightarrow> ('s, 't, 'c, 'w) online_state" where
  "over d l st = st\<lparr>ol_dense := d, ol_lexical := l\<rparr>"

lemma over_simps [simp]:
  "ol_dense (over d l st) = d" "ol_lexical (over d l st) = l" "ol_cache (over d l st) = ol_cache st"
  "ol_semantic (over d l st) = ol_semantic st" "ol_world (over d l st) = ol_world st"
  "(over d l st)\<lparr>ol_cache := c\<rparr> = over d l (st\<lparr>ol_cache := c\<rparr>)" "(over d l st)\<lparr>ol_world := w\<rparr> = over d l (st\<lparr>ol_world := w\<rparr>)"
  "(over d l st)\<lparr>ol_semantic := sc\<rparr> = over d l (st\<lparr>ol_semantic := sc\<rparr>)"
  by (simp_all add: over_def)

lemma store_over: "store_answer P key scope q a (over d l st) = over d l (store_answer P key scope q a st)"
  by (simp add: store_answer_def Let_def)

lemma lookup_over: "lookup_cache P key scope q (over d l st) = apsnd (over d l) (lookup_cache P key scope q st)"
  by (simp add: lookup_cache_def Let_def split: option.splits prod.splits)

lemma retrieve_over:
  assumes "same_dense (ol_dense st) d" "same_lexical (ol_lexical st) l" "iv \<noteq> []"
  shows "online_retrieve (online_from_context L base C) trace_id q p cfg iv (over d l st)
       = online_retrieve (online_from_context L base C) trace_id q p cfg iv st"
proof -
  have "vectors_search v k p (Some iv) d = vectors_search v k p (Some iv) (ol_dense st)"
      "lexicon_search t k p (Some iv) l = lexicon_search t k p (Some iv) (ol_lexical st)" for v t k p
    using assms by (simp_all add: same_dense_def same_lexical_def)
  then show ?thesis
    by (simp only: online_retrieve_def retrieve_multi_def online_from_context_simps over_simps)
qed

lemma generate_over:
  assumes "same_dense (ol_dense st) d" "same_lexical (ol_lexical st) l" "iv \<noteq> []"
  shows "online_generate (online_from_context L base C) trace_id q p cfg iv key scope (over d l st)
       = apsnd (over d l) (online_generate (online_from_context L base C) trace_id q p cfg iv key scope st)"
  using retrieve_over [OF assms]
  by (simp add: online_generate_def Let_def store_over split: sum.splits prod.splits)

lemma active_over:
  assumes "same_dense (ol_dense st) d"
  shows "active_index_version (online_from_context L base C) (over d l st) = active_index_version (online_from_context L base C) st"
  using assms by (simp add: active_index_version_def same_dense_def)

lemma active_nonempty:
  assumes "active_index_version (online_from_context L base C) st = Inr iv" "se_index_version (cx_settings C) \<noteq> []"
  shows "iv \<noteq> []"
  using assms by (auto simp: active_index_version_def opt_or_def str_or_def split: option.splits if_splits)

lemma answer_over:
  assumes "same_dense (ol_dense st) d" "same_lexical (ol_lexical st) l" "se_index_version (cx_settings C) \<noteq> []"
  shows "online_answer (online_from_context L base C) trace_id q p (over d l st)
       = apsnd (over d l) (online_answer (online_from_context L base C) trace_id q p st)"
proof (cases "active_index_version (online_from_context L base C) st")
  case (Inl e)
  with active_over [OF assms(1)] show ?thesis
    by (simp add: online_answer_def config_from_settings)
next
  case (Inr iv)
  let ?P = "online_from_context L base C"
  let ?params = "Some (cache_params (config_of (cx_settings C)))"
  obtain hit st1 where look: "lookup_cache ?P (cache_key (on_sha ?P) (on_frepr ?P) q p iv (on_prompt_version ?P) ?params)
      (cache_scope (on_sha ?P) (on_frepr ?P) p iv (on_prompt_version ?P) ?params) q st = (hit, st1)"
    by fastforce
  have st1: "same_dense (ol_dense st1) d" "same_lexical (ol_lexical st1) l"
    using lookup_indexes [OF look] assms(1,2) by simp_all
  note gen = generate_over [OF st1 active_nonempty [OF Inr assms(3)]]
  show ?thesis
    using Inr look gen active_over [OF assms(1), of L base C l]
    by (simp add: online_answer_def config_from_settings lookup_over Let_def split: sum.splits option.splits)
qed

lemma answer_all_over:
  assumes "se_index_version (cx_settings C) \<noteq> []"
  shows "same_dense (ol_dense st) d \<Longrightarrow> same_lexical (ol_lexical st) l
    \<Longrightarrow> answer_all (online_from_context L base C) reqs (over d l st) = apsnd (over d l) (answer_all (online_from_context L base C) reqs st)"
proof (induction reqs arbitrary: st)
  case (Cons req reqs)
  obtain trace_id q p where req: "req = (trace_id, q, p)" by (cases req)
  obtain r st1 where one: "online_answer (online_from_context L base C) trace_id q p st = (r, st1)" by fastforce
  have "same_dense (ol_dense st1) d" "same_lexical (ol_lexical st1) l"
    using answer_indexes [OF one] Cons.prems by simp_all
  from Cons.IH [OF this] show ?case
    using req one answer_over [OF Cons.prems assms, of L base trace_id q p] by (simp add: Let_def split_beta)
qed simp

section \<open>Vectors fit their collection\<close>

text \<open>What the embedding service documents: one vector for each text, of the requested dimension.\<close>

definition sized_service :: "('q, 'o, 'r, 'x) vendor \<Rightarrow> bool" where
  "sized_service L \<longleftrightarrow> (\<forall>key model texts d w data w'. vd_embeddings L key model texts d w = (Inr data, w')
     \<longrightarrow> length data = length texts \<and> (\<forall>item \<in> set data. int (length (ei_embedding item)) = d))"

lemma sized_batches:
  assumes "sized_service L" "oe_create E = vd_embeddings L key" "oe_dimensions E = d"
    and "\<forall>v \<in> set vectors. int (length v) = d"
  shows "embed_batches E texts starts vectors w = (Inr vs, w') \<Longrightarrow> \<forall>v \<in> set vs. int (length v) = d"
  using assms(4)
proof (induction starts arbitrary: vectors w)
  case Nil
  then show ?case by (simp add: return_def)
next
  case (Cons start starts)
  obtain data w1 where data: "oe_create E (oe_model_name E) (take MAX_BATCH (drop start texts)) (oe_dimensions E) w = (Inr data, w1)"
    "embed_batches E texts starts (vectors @ map ei_embedding (sort_key ei_index data)) w1 = (Inr vs, w')"
    using Cons.prems(1) by (auto elim: and_then_InrE)
  have "\<forall>item \<in> set data. int (length (ei_embedding item)) = d"
    using assms(1-3) data(1) unfolding sized_service_def by metis
  with Cons.IH [OF data(2)] Cons.prems(2) show ?case by auto
qed

lemma built_embedder:
  assumes "from_settings L s iv out = Inr C"
  shows "build_embedder L s = Inr (cx_embedder C) \<and> build_vector_store L s iv (out_qdrant out) = Inr (cx_vectors C)
     \<and> build_llm L s = Inr (cx_llm C)"
  using assms by (auto simp: from_settings_def)

section \<open>Properties\<close>




text \<open>A version with a double underscore is read from a collection that nobody writes.\<close>

lemma underscored_version_misrouted:
  "let s = default_settings\<lparr>se_vector_backend := VB_Qdrant\<rparr>;
       Q = new_qdrant (collection_for s (Some ''2024__q1'')) 64 client uuid5 frepr
   in qd_collection_for Q (Some ''v2'') = ''docs__2024__v2'' \<and> collection_for s (Some ''v2'') = ''docs__v2''"
  by (simp add: new_qdrant_def collection_for_def default_settings_def qd_collection_for_def versioned_def prefix_of_def
      startswith_def str_or_def)

text \<open>
  Every vector that the embedder of a process makes has the dimension that its Qdrant collection is
  created with. The hash embedder always returns; for the service this rests on its vectors having the
  dimension that was asked for.
\<close>

theorem embedder_fits_store:
  assumes "from_settings L s iv out = Inr C" "0 \<le> vector_dimensions s" "\<And>b. length (vd_sha256 L b) = 32" "sized_service L"
  shows "(\<forall>Q st. cx_vectors C = Qdrant_Vectors Q st \<longrightarrow> qd_dimensions Q = vector_dimensions s)
     \<and> (\<forall>texts w vs w'. embedder_embed L (cx_embedder C) texts w = (Some (Inr vs), w')
          \<longrightarrow> (\<forall>v \<in> set vs. int (length v) = vector_dimensions s))
     \<and> (se_embedding_backend s = EB_Hash \<longrightarrow> (\<forall>texts w. \<exists>vs. embedder_embed L (cx_embedder C) texts w = (Some (Inr vs), w)
          \<and> length vs = length texts))"
proof (intro conjI allI impI)
  note built = built_embedder [OF assms(1)]
  fix Q st assume "cx_vectors C = Qdrant_Vectors Q st"
  with built show "qd_dimensions Q = vector_dimensions s"
    by (auto simp: build_vector_store_def needs_def new_qdrant_def split: if_splits)
next
  fix texts w vs w' assume run: "embedder_embed L (cx_embedder C) texts w = (Some (Inr vs), w')"
  show "\<forall>v \<in> set vs. int (length v) = vector_dimensions s"
  proof (cases "cx_embedder C")
    case (Hash_Embedder d)
    then have d: "d = vector_dimensions s"
      using built_embedder [OF assms(1)] by (auto simp: build_embedder_def needs_def vector_dimensions_def split: if_splits)
    have "\<exists>ws. hash_vector (vd_sha256 L) d t = Some ws \<and> int (length ws) = d" for t
      using hash_vector_exact [of "vd_sha256 L" d t] assms(2,3) d by auto
    then obtain f where f: "\<And>t. hash_vector (vd_sha256 L) d t = Some (f t) \<and> int (length (f t)) = d" by metis
    then have "hash_embed (vd_sha256 L) d texts = Some (map f texts)"
      by (induction texts) (simp_all add: hash_embed_def)
    with run Hash_Embedder f d show ?thesis by auto
  next
    case (OpenAI_Embedder E)
    then have E: "oe_create E = vd_embeddings L (se_openai_api_key s)" "oe_dimensions E = vector_dimensions s"
      using built_embedder [OF assms(1)]
      by (auto simp: build_embedder_def needs_def new_openai_embedder_def vector_dimensions_def split: if_splits)
    have "texts = [] \<or> embed_batches E texts (batch_starts (length texts)) [] w = (Inr vs, w')" "texts = [] \<longrightarrow> vs = []"
      using run OpenAI_Embedder by (auto simp: openai_embed_def return_def apfst_def map_prod_def split: if_splits prod.splits)
    then show ?thesis using sized_batches [OF assms(4) E, of "[]"] by auto
  qed
next
  fix texts w assume "se_embedding_backend s = EB_Hash"
  then have C: "cx_embedder C = Hash_Embedder (se_hash_embedding_dimensions s)"
    using built_embedder [OF assms(1)] by (auto simp: build_embedder_def)
  obtain f where f: "\<And>t. hash_vector (vd_sha256 L) (se_hash_embedding_dimensions s) t = Some (f t)"
    using hash_vector_exact [of "vd_sha256 L" "se_hash_embedding_dimensions s"] assms(3) by metis
  then have "hash_embed (vd_sha256 L) (se_hash_embedding_dimensions s) texts = Some (map f texts)"
    by (induction texts) (simp_all add: hash_embed_def)
  with C show "\<exists>vs. embedder_embed L (cx_embedder C) texts w = (Some (Inr vs), w) \<and> length vs = length texts" by simp
qed

section \<open>Examples\<close>

definition example_vendor :: "(example_server, example_server, unit, nat) vendor" where
  "example_vendor =
     \<lparr>vd_installed = (\<lambda>e. True), vd_qdrant = (\<lambda>url key. qd_client example_qdrant),
      vd_opensearch = (\<lambda>url. oi_client example_opensearch),
      vd_redis = (\<lambda>url. \<lparr>rd_get = (\<lambda>k r. (Inr None, r)), rd_setex = (\<lambda>k n v r. (Inr (), r)), rd_set = (\<lambda>k v r. (Inr (), r)), rd_delete = (\<lambda>k r. (Inr (), r)),
        rd_ping = (\<lambda>r. (Inr True, r))\<rparr>),
      vd_embeddings = (\<lambda>key model texts d w. (if d < 0 then Inl (ValueError ''dimensions'')
        else Inr (map (item_at (\<lambda>t. replicate (nat d) 0)) (enumerate 0 texts)), Suc w)),
      vd_completions = (\<lambda>key limit body w. (Inl TimeoutError, Suc w)), vd_predict = map (\<lambda>x. 0),
      vd_late = (\<lambda>limit w w'. False), vd_rest = (\<lambda>i w. w), vd_exn_text = (\<lambda>e. ''error''),
      vd_reader = \<lparr>jr_loads = (\<lambda>t. Inl (ValueError ''no json'')), jr_float = (\<lambda>t. Inr 0), jr_frepr = (\<lambda>x. ''1.0'')\<rparr>,
      vd_sha256 = (\<lambda>b. replicate 32 0), vd_uuid5 = (\<lambda>s. s)\<rparr>"

definition example_outside :: "(example_server, example_server, unit) outside" where
  "example_outside = \<lparr>out_qdrant = ([], []), out_opensearch = ([], []), out_redis = (), out_now = 0\<rparr>"

definition example_base :: "(example_server vectors, example_server lexicon, unit cache_store, nat) pipeline" where
  "example_base =
     \<lparr>on_settings = default_settings, on_yaml = [], on_dsearch = vectors_search, on_lsearch = lexicon_search,
      on_resolve_alias = vectors_resolve_alias, on_count = vectors_count, on_embed = map (\<lambda>t. [1, 0]),
      on_embed_query = (\<lambda>t. [1, 0]), on_hybrid = \<lparr>hy_rrf_k = 60, hy_dense_weight = 1, hy_lexical_weight = 1\<rparr>,
      on_rerank = identity_rerank, on_llm = echo_llm, on_get = cache_get, on_set = cache_set, on_prompt_version = ''v1'',
      on_fallback_version = None, on_get_prompt = on_get_prompt example_pipeline, on_semantic_max = 256,
      on_sha = example_sha, on_frepr = (\<lambda>x. ''1.0''), on_dump = on_dump example_pipeline,
      on_load = on_load example_pipeline, on_elapsed = (\<lambda>w. 0)\<rparr>"

definition example_context :: "(example_server, example_server, unit, nat) backend_context" where
  "example_context =
     \<lparr>cx_settings = default_settings, cx_embedder = Hash_Embedder 64, cx_vectors = Memory_Vectors empty_vector_store,
      cx_lexical = BM25_Memory (bm_empty (3 / 2) (3 / 4)), cx_reranker = Identity_Reranker,
      cx_llm = \<lparr>rs_primary = Stub_Model, rs_fallbacks = [], rs_policy = settings_policy default_settings\<rparr>,
      cx_cache = Memory_Cache (empty_mem_cache 0), cx_semantic = Some []\<rparr>"

lemma example_context_built: "from_settings example_vendor default_settings None example_outside = Inr example_context"
  by (simp add: from_settings_def build_embedder_def build_vector_store_def build_lexical_index_def build_reranker_def
      build_llm_def build_cache_def build_semantic_cache_def example_context_def example_outside_def default_settings_def)

text \<open>What the libraries of the earlier example promise holds for any pipeline over the same libraries.\<close>

lemma example_base_libs: "faithful_libs (online_from_context example_vendor example_base C) example_texts {1}"
    "covered (online_from_context example_vendor example_base C) example_texts {1} example_caller ''v1'' example_params"
    "key_text (online_from_context example_vendor example_base C) ''what is it'' example_caller ''v1'' example_params \<in> example_texts"
proof -
  have libs: "on_sha (online_from_context example_vendor example_base C) = on_sha (in_memory example_pipeline)"
    "on_frepr (online_from_context example_vendor example_base C) = on_frepr (in_memory example_pipeline)"
    "on_dump (online_from_context example_vendor example_base C) = on_dump (in_memory example_pipeline)"
    "on_load (online_from_context example_vendor example_base C) = on_load (in_memory example_pipeline)"
    "on_prompt_version (online_from_context example_vendor example_base C) = on_prompt_version (in_memory example_pipeline)"
    by (simp_all add: example_base_def) (simp_all add: in_memory_def example_pipeline_def)
  from example_libs show "faithful_libs (online_from_context example_vendor example_base C) example_texts {1}"
    unfolding faithful_libs_def libs .
  from example_covered show "covered (online_from_context example_vendor example_base C) example_texts {1} example_caller ''v1'' example_params"
    unfolding covered_def libs .
  have "key_text (in_memory example_pipeline) ''what is it'' example_caller ''v1'' example_params \<in> example_texts"
    by (simp add: example_texts_def)
  then show "key_text (online_from_context example_vendor example_base C) ''what is it'' example_caller ''v1'' example_params \<in> example_texts"
    unfolding key_text_def libs .
qed


definition example_production :: settings where
  "example_production = default_settings\<lparr>se_env := ''production'', se_vector_backend := VB_Qdrant,
     se_lexical_backend := LB_OpenSearch, se_embedding_backend := EB_OpenAI, se_llm_backend := LLM_OpenAI,
     se_chat_llm_backend := LLM_OpenAI, se_openai_api_key := Some ''key'', se_llm_fallback_models := [''other'']\<rparr>"

lemma example_production_safe: "is_production example_production" "reject_unsafe id example_production = Inr example_production"
  by (simp_all add: is_production_def reject_unsafe_def unsafe_problems_def example_production_def default_settings_def
      PRODUCTION_ENVS_def py_lower_def lower_char_def ascii_upper_def code_def)

lemma example_production_builds: "\<exists>C. from_settings example_vendor example_production iv out = Inr C"
  by (simp add: from_settings_iff example_production_def)
     (simp add: example_vendor_def no_key_def extras_installed_def)



lemma example_vendor_sized: "sized_service example_vendor"
  by (auto simp: sized_service_def example_vendor_def item_at_def split: if_splits)

lemma embedder_fits_store_witness:
  "\<exists>C Q st vs. from_settings example_vendor (default_settings\<lparr>se_vector_backend := VB_Qdrant\<rparr>) None example_outside = Inr C
     \<and> cx_vectors C = Qdrant_Vectors Q st \<and> qd_dimensions Q = 64
     \<and> embedder_embed example_vendor (cx_embedder C) [''one'', ''two''] (0 :: nat) = (Some (Inr vs), 0) \<and> length vs = 2"
proof -
  let ?s = "default_settings\<lparr>se_vector_backend := VB_Qdrant\<rparr>"
  have "\<exists>C Q st. from_settings example_vendor ?s None example_outside = Inr C \<and> cx_vectors C = Qdrant_Vectors Q st"
    by (simp add: from_settings_def build_embedder_def build_vector_store_def build_lexical_index_def build_reranker_def
        build_llm_def build_cache_def needs_def default_settings_def) (simp add: example_vendor_def)
  then obtain C Q st where C: "from_settings example_vendor ?s None example_outside = Inr C" "cx_vectors C = Qdrant_Vectors Q st"
    by blast
  have d: "vector_dimensions ?s = 64" "se_embedding_backend ?s = EB_Hash"
    by (simp_all add: vector_dimensions_def default_settings_def)
  have "length (vd_sha256 example_vendor b) = 32" for b by (simp add: example_vendor_def)
  from embedder_fits_store [OF C(1) _ this example_vendor_sized] C(2) d
  have "qd_dimensions Q = 64" and total: "\<forall>texts w. \<exists>vs. embedder_embed example_vendor (cx_embedder C) texts w = (Some (Inr vs), w)
      \<and> length vs = length texts" by simp_all
  moreover obtain vs where "embedder_embed example_vendor (cx_embedder C) [''one'', ''two''] 0 = (Some (Inr vs), 0)"
      "length vs = length [''one'', ''two'']"
    using total by blast
  ultimately show ?thesis using C by auto
qed

end
