(* ===== verification/Lifecycle.thy ===== *)
theory Lifecycle
  imports Backends
begin

text \<open>
  From a source directory to an answer, inside one process: the offline pipeline and the online pipeline
  of one context share their stores, so that what a job indexes is what a query then finds. The
  in-memory backends are followed exactly: the offline pipeline of such a context is the in-memory
  pipeline of theory \<open>Offline\<close>, step by step.
\<close>

section \<open>The in-memory stores inside a context\<close>

definition lift_stores :: "(vector_store, bm25) offline_state \<Rightarrow> ('q vectors, 'o lexicon) offline_state" where
  "lift_stores st = \<lparr>os_vectors = Memory_Vectors (os_vectors st), os_lexical = BM25_Memory (os_lexical st),
     os_registry = os_registry st\<rparr>"

text \<open>A call on the lifted state does what the other call does on the state itself.\<close>

definition mirrors ::
    "(('q vectors, 'o lexicon) offline_state, 'a) call \<Rightarrow> ((vector_store, bm25) offline_state, 'a) call \<Rightarrow> bool" where
  "mirrors m n \<longleftrightarrow> (\<forall>st. m (lift_stores st) = apsnd lift_stores (n st))"

lemma mirrors_return: "mirrors (return r) (return r)"
  by (simp add: mirrors_def return_def)

lemma mirrors_then:
  assumes "mirrors m n" "\<And>x. mirrors (f x) (g x)"
  shows "mirrors (and_then m f) (and_then n g)"
  using assms by (auto simp: mirrors_def and_then_def split: prod.splits sum.splits)

lemma mirrors_if: "mirrors m n \<Longrightarrow> mirrors m' n' \<Longrightarrow> mirrors (if b then m else m') (if b then n else n')"
  by simp

lemma mirrors_upsert: "mirrors (on_vectors (vectors_upsert cs vs)) (on_vectors (mem_upsert cs vs))"
  by (auto simp: mirrors_def on_vectors_def lift_stores_def split: prod.splits)

lemma mirrors_alias: "mirrors (on_vectors (vectors_set_alias a v)) (on_vectors (mem_set_alias a v))"
  by (auto simp: mirrors_def on_vectors_def lift_stores_def split: prod.splits)

lemma mirrors_index: "mirrors (on_lexical (lexicon_index cs)) (on_lexical (mem_index cs))"
  by (auto simp: mirrors_def on_lexical_def lift_stores_def split: prod.splits)

lemma mirrors_registry: "mirrors (on_registry m) (on_registry m)"
  by (auto simp: mirrors_def on_registry_def lift_stores_def split: prod.splits)

lemmas mirrors_intros = mirrors_return mirrors_then mirrors_if mirrors_upsert mirrors_alias mirrors_index mirrors_registry

lemma offline_from_context_simps [simp]:
  "of_upsert (offline_from_context L ob C) = vectors_upsert" "of_set_alias (offline_from_context L ob C) = vectors_set_alias"
  "of_index (offline_from_context L ob C) = lexicon_index" "of_settings (offline_from_context L ob C) = cx_settings C"
  "of_model_name (offline_from_context L ob C) = embedder_model_name (cx_embedder C)"
  "of_chunking (offline_from_context L ob C) = of_chunking ob" "of_chunkers (offline_from_context L ob C) = of_chunkers ob"
  "of_parsers (offline_from_context L ob C) = of_parsers ob" "of_connect (offline_from_context L ob C) = of_connect ob"
  by (simp_all add: offline_from_context_def)

lemma context_run_mirrors:
  "mirrors (offline_run (offline_from_context L ob C) source iv acl activate)
     (offline_run (in_memory_offline (offline_from_context L ob C)) source iv acl activate)"
proof -
  let ?op = "offline_from_context L ob C"
  let ?mp = "in_memory_offline ?op"
  have same: "run_version ?mp = run_version ?op" "registry_entry ?mp = registry_entry ?op" "ingest ?mp = ingest ?op"
      "chunk_stage ?mp = chunk_stage ?op" "stamp_model ?mp = stamp_model ?op" "of_embed ?mp = of_embed ?op"
      "of_chunking ?mp = of_chunking ?op"
    by (simp_all add: fun_eq_iff run_version_def registry_entry_def ingest_def chunk_stage_def stamp_model_def
        in_memory_offline_def split: option.splits)
  have parse: "parse_stage ?mp ds = parse_stage ?op ds" for ds
    by (induction ds) (simp_all split: sum.split)
  have embed: "mirrors (embed_and_index ?op cs) (embed_and_index ?mp cs)" for cs
    unfolding embed_and_index_def Let_def same in_memory_offline_simps offline_from_context_simps
    by (intro mirrors_intros)
  have build: "mirrors (offline_build ?op source version acl) (offline_build ?mp source version acl)" for version
    unfolding offline_build_def same parse in_memory_offline_simps
    by (intro mirrors_intros embed)
  have activate: "mirrors (offline_activate ?op version) (offline_activate ?mp version)" for version
    unfolding offline_activate_def in_memory_offline_simps offline_from_context_simps
    by (intro mirrors_intros)
  show ?thesis
    unfolding offline_run_def Let_def same
    by (intro mirrors_intros build activate)
qed

section \<open>What a successful run leaves in the stores\<close>

lemma embed_and_index_stores:
  assumes "embed_and_index op cs st = (Inr cs', st')"
  shows "\<exists>vs. of_embed op (map ch_text cs') = Inr vs \<and> of_upsert op cs' vs (os_vectors st) = (Inr (), os_vectors st')
     \<and> of_index op cs' (os_lexical st) = (Inr (), os_lexical st')"
  using assms
  by (auto simp: embed_and_index_def Let_def and_then_eq on_vectors_eq on_lexical_eq return_def)

lemma build_stores:
  assumes "offline_build op source version acl st = (Inr cs, st')" "cs \<noteq> []"
  shows "\<exists>vs. of_embed op (map ch_text cs) = Inr vs \<and> of_upsert op cs vs (os_vectors st) = (Inr (), os_vectors st')
     \<and> of_index op cs (os_lexical st) = (Inr (), os_lexical st')"
proof -
  obtain e1 e2 st1 chunks st2 where
    st1: "on_registry (reg_record e1) st = (Inr (), st1)"
    and chunks: "(if chunks = [] then return (Inr []) else embed_and_index op chunks) st1 = (Inr cs, st2)"
    and st': "on_registry (reg_record e2) st2 = (Inr (), st')"
    using assms(1) unfolding offline_build_def
    by (elim and_then_InrE) auto
  have "embed_and_index op chunks st1 = (Inr cs, st2)"
    using chunks assms(2) by (auto simp: return_def split: if_splits)
  from embed_and_index_stores [OF this] st1 st' show ?thesis
    by (auto simp: on_registry_eq)
qed

lemma run_stores:
  assumes "offline_run op source iv acl True st = (Inr cs, st')" "cs \<noteq> []"
  shows "\<exists>vs v. of_embed op (map ch_text cs) = Inr vs \<and> of_upsert op cs vs (os_vectors st) = (Inr (), v)
     \<and> of_set_alias op (se_collection_alias (of_settings op)) (run_version op iv) v = (Inr (), os_vectors st')
     \<and> of_index op cs (os_lexical st) = (Inr (), os_lexical st')"
proof -
  obtain st1 where build: "offline_build op source (run_version op iv) acl st = (Inr cs, st1)"
      and publish: "offline_activate op (run_version op iv) st1 = (Inr (), st')"
    using assms by (auto simp: offline_run_def Let_def and_then_eq return_def split: if_splits)
  from build_stores [OF build assms(2)] publish show ?thesis
    by (auto simp: offline_activate_def and_then_eq on_vectors_eq on_registry_eq)
qed

section \<open>What a search finds\<close>

lemma ranked_Nil: "ranked r xs = [] \<longleftrightarrow> xs = []"
  by (cases xs) (simp_all add: ranked_def)

lemma cut_Nil: "1 \<le> n \<Longrightarrow> slice_to xs n = [] \<longleftrightarrow> xs = []"
  by (simp add: slice_to_def)

context hybrid_legs begin

text \<open>When every dense search finds something, so does the whole.\<close>

lemma retrieve_multi_finds:
  assumes inv: "dinv dst" "linv lst" and k: "0 \<le> hy_rrf_k cfg" "1 \<le> top_k"
    and finds: "\<And>v hits. dsearch v top_k p iv dst = Inr hits \<Longrightarrow> hits \<noteq> []"
    and texts: "\<And>ts. ts \<noteq> [] \<Longrightarrow> emb ts \<noteq> []" and queries: "queries \<noteq> []"
    and run: "retrieve_multi dsearch lsearch emb cfg dst lst queries p top_k iv (Some dqs) = Inr hits"
  shows "hits \<noteq> []"
proof -
  let ?texts = "if dqs = [] then queries else dqs"
  obtain dh lh fused where
    dh: "map_result (\<lambda>v. dsearch v top_k p iv dst) (emb ?texts) = Inr dh"
    and lh: "map_result (\<lambda>q. lsearch q top_k p iv lst) queries = Inr lh"
    and fused: "reciprocal_rank_fusion (dh @ lh) (hy_rrf_k cfg)
        (Some (replicate (length dh) (hy_dense_weight cfg) @ replicate (length lh) (hy_lexical_weight cfg))) = Inr fused"
    and hits: "hits = ranked Fused (map (\<lambda>s. (sc_score s, sc_chunk s))
        (slice_to (filter (\<lambda>s. is_allowed p (ch_acl (sc_chunk s))) fused) top_k))"
    using run queries by (auto simp: retrieve_multi_def Let_def split: if_splits)
  let ?ws = "replicate (length dh) (hy_dense_weight cfg) @ replicate (length lh) (hy_lexical_weight cfg)"
  have ok: "\<exists>I. hits_ok p iv I top_k hs" if "hs \<in> set (dh @ lh)" for hs
    using that map_result_in [OF dh] map_result_in [OF lh] dense.search_ok [OF inv(1)] lexical.search_ok [OF inv(2)]
    by fastforce
  have good: "is_allowed p (ch_acl (sc_chunk h)) \<and> 1 \<le> sc_rank h" if hs: "hs \<in> set (dh @ lh)" and h: "h \<in> set hs" for hs h
  proof -
    obtain I where I: "hits_ok p iv I top_k hs" using ok [OF hs] by blast
    then have "sc_rank h \<in> set [1 ..< Suc (length hs)]"
      using h unfolding hits_ok_def by (metis image_eqI list.set_map)
    with I h show ?thesis by (auto simp: hits_ok_def visible_def)
  qed
  have "\<forall>hs \<in> set (dh @ lh). \<forall>h \<in> set hs. hy_rrf_k cfg + int (sc_rank h) \<noteq> 0"
    using good k(1) by fastforce
  from rrf_ok [OF _ this, of ?ws] fused have all: "fused_ok (hy_rrf_k cfg) (zip ?ws (dh @ lh)) fused" by simp
  have snds: "snd ` set (zip ?ws (dh @ lh)) = set (dh @ lh)"
    using map_snd_zip [of ?ws "dh @ lh"] by (metis length_append length_replicate list.set_map)
  have "dh \<noteq> []" using map_result_length [OF dh] texts [of ?texts] queries by auto
  then obtain hs where hs: "hs \<in> set dh" by (cases dh) auto
  then have "hs \<noteq> []" using map_result_in [OF dh] finds by blast
  with hs have "\<Union> (set ` set (dh @ lh)) \<noteq> {}" by auto
  moreover have "item_id ` set fused = item_id ` \<Union> (set ` set (dh @ lh))"
    using all unfolding fused_ok_def snds by blast
  ultimately have "fused \<noteq> []" by fastforce
  moreover have "is_allowed p (ch_acl (sc_chunk h))" if "h \<in> set fused" for h
    using all that good unfolding fused_ok_def snds by fastforce
  ultimately have "filter (\<lambda>s. is_allowed p (ch_acl (sc_chunk s))) fused \<noteq> []"
    by (auto simp: filter_empty_conv intro: exI [of _ "hd fused"])
  with k(2) show ?thesis
    by (simp add: hits ranked_Nil cut_Nil)
qed

end

lemma vs_search_finds:
  assumes "1 \<le> k" "c \<in> vs_indexed st" "visible p iv c" "vs_search v k p iv st = Inr hits"
  shows "hits \<noteq> []"
proof
  assume none: "hits = []"
  obtain cid w where w: "(cid, c, w) \<in> set (vs_items st)"
    using assms(2) by (auto simp: vs_indexed_def)
  have eq: "hits = top_ranked Dense k (map (\<lambda>(ch, stored). (cosine v stored, ch))
      (filter (\<lambda>(ch, stored). visible p iv ch) (map snd (vs_items st))))"
    using assms(4) by (simp add: vs_search_def)
  have "c \<in> sc_chunk ` set hits \<or> int (length hits) = k"
    using top_ranked_best [of k "cosine v w" c "map (\<lambda>(ch, stored). (cosine v stored, ch))
      (filter (\<lambda>(ch, stored). visible p iv ch) (map snd (vs_items st)))" Dense] assms(1,3) w
    unfolding eq by force
  with none assms(1) show False by simp
qed

section \<open>The stores after a run\<close>

lemma bm_fold_indexed: "snd ` set (fold (\<lambda>ch. AList.update (ch_chunk_id ch) ch) cs d) \<subseteq> snd ` set d \<union> set cs"
proof (induction cs arbitrary: d)
  case (Cons c cs)
  have "snd ` set (AList.update (ch_chunk_id c) c d) \<subseteq> insert c (snd ` set d)"
    by (force dest: in_update)
  with Cons.IH [of "AList.update (ch_chunk_id c) c d"] show ?case by auto
qed simp

lemma fresh_upsert:
  assumes "mem_upsert cs vs empty_vector_store = (Inr (), v)" "cs \<noteq> []"
  shows "vs_inv v \<and> vs_indexed v \<subseteq> set cs \<and> vs_indexed v \<noteq> {}"
proof -
  have inv: "vs_inv empty_vector_store" by (simp add: vs_inv_def empty_vector_store_def)
  have up: "vs_upsert cs vs empty_vector_store = Inr v"
    using assms(1) by (auto simp: mem_upsert_def split: sum.splits)
  have "ch_chunk_id ` set cs \<subseteq> vs_ids v" using mem_upsert_writes [OF inv assms(1)] by simp
  with assms(2) have "vs_items v \<noteq> []" by (auto simp: vs_ids_def)
  with vs_upsert_inv [OF inv up] show ?thesis by (auto simp: vs_indexed_def empty_vector_store_def)
qed

lemma fresh_index:
  assumes "mem_index cs (bm_empty (3 / 2) (3 / 4)) = (Inr (), l)"
  shows "bm_inv l \<and> bm_indexed l \<subseteq> set cs"
proof -
  have inv: "bm_inv (bm_empty (3 / 2) (3 / 4))" by (simp add: bm_empty_inv)
  obtain l1 where l1: "bm_upsert cs (bm_empty (3 / 2) (3 / 4)) = Inr l1" "bm_inv l1"
      "bm_chunks l1 = fold (\<lambda>ch. AList.update (ch_chunk_id ch) ch) cs []"
    using bm_apply_inv [OF inv, of "Bm_Upsert cs"] by (auto simp: bm_empty_def)
  with assms bm_fold_indexed [of cs "[]"] show ?thesis
    by (auto simp: mem_index_def bm_indexed_def)
qed

lemma memory_run:
  assumes run: "offline_run (offline_from_context L ob C) source iv acl True st = (Inr cs, st')" and some: "cs \<noteq> []"
    and fresh: "os_vectors st = Memory_Vectors empty_vector_store" "os_lexical st = BM25_Memory (bm_empty (3 / 2) (3 / 4))"
  obtains v l where "os_vectors st' = Memory_Vectors v" "os_lexical st' = BM25_Memory l" "vs_inv v" "bm_inv l"
    "vs_indexed v \<subseteq> set cs" "vs_indexed v \<noteq> {}" "bm_indexed l \<subseteq> set cs"
    "vs_resolve_alias (se_collection_alias (cx_settings C)) v = Some (run_version (offline_from_context L ob C) iv)"
proof -
  let ?published = "se_collection_alias (cx_settings C)" and ?version = "run_version (offline_from_context L ob C) iv"
  obtain vs v0 where v0: "vectors_upsert cs vs (Memory_Vectors empty_vector_store) = (Inr (), v0)"
      "vectors_set_alias ?published ?version v0 = (Inr (), os_vectors st')"
      "lexicon_index cs (BM25_Memory (bm_empty (3 / 2) (3 / 4))) = (Inr (), os_lexical st')"
    using run_stores [OF run some] fresh by auto
  obtain v1 where v1: "mem_upsert cs vs empty_vector_store = (Inr (), v1)" "v0 = Memory_Vectors v1"
    using v0(1) by (auto simp: apsnd_def map_prod_def split: prod.splits)
  obtain l where l: "mem_index cs (bm_empty (3 / 2) (3 / 4)) = (Inr (), l)" "os_lexical st' = BM25_Memory l"
    using v0(3) by (auto simp: apsnd_def map_prod_def split: prod.splits)
  have v: "os_vectors st' = Memory_Vectors (vs_set_alias ?published ?version v1)"
    using v0(2) v1(2) by (simp add: mem_set_alias_def)
  show thesis
    by (rule that [OF v l(2)]) (use fresh_upsert [OF v1(1) some] fresh_index [OF l(1)] in
        \<open>simp_all add: vs_set_alias_def vs_inv_def vs_indexed_def vs_resolve_alias_def update_conv'\<close>)
qed

lemma hash_answers_total:
  assumes "\<And>b. length (vd_sha256 L b) = 32"
  shows "length (hash_answers L d ts) = length ts"
proof -
  obtain f where f: "\<And>t. hash_vector (vd_sha256 L) d t = Some (f t)"
    using hash_vector_exact [of "vd_sha256 L" d] assms by metis
  have "hash_embed (vd_sha256 L) d ts = Some (map f ts)"
    using f by (induction ts) (simp_all add: hash_embed_def)
  then show ?thesis by (simp add: hash_answers_def)
qed

lemma query_variants_some: "query_variants q cfg \<noteq> []"
  by (auto simp: query_variants_def Let_def)

text \<open>Retrieval over stores whose chunks all have the same tags and version.\<close>

lemma memory_retrieve:
  fixes V :: "'q vectors" and X :: "'o lexicon"
  assumes "V = Memory_Vectors v" "X = BM25_Memory l" "vs_inv v" "bm_inv l" "0 \<le> hy_rrf_k cfg" "1 \<le> k"
    and "queries \<noteq> []" "length ds = length queries" "vs_indexed v \<noteq> {}"
    and texts: "\<forall>ts. ts \<noteq> [] \<longrightarrow> emb ts \<noteq> []"
    and stamped: "\<forall>c \<in> vs_indexed v \<union> bm_indexed l. ch_acl c = tags \<and> ch_index_version c = iv"
  shows "\<exists>hits. retrieve_multi vectors_search lexicon_search emb cfg V X queries p k (Some iv) (Some ds) = Inr hits
     \<and> (\<forall>h \<in> set hits. sc_chunk h \<in> vs_indexed v \<union> bm_indexed l) \<and> (hits \<noteq> [] \<longleftrightarrow> is_allowed p tags)"
proof -
  have inv: "vectors_inv (\<lambda>_ _. {}) V" "lexicon_inv (\<lambda>_ _. {}) X"
    using assms(1-4) by simp_all
  have "0 \<le> k" "Some ds = None \<or> Some ds = Some [] \<or> (\<exists>xs. Some ds = Some xs \<and> length xs = length queries)"
    using assms(6,8) by simp_all
  from any_legs.retrieve_multi_hits [OF inv assms(5) this, of emb p "Some iv"]
  obtain hits where hits: "retrieve_multi vectors_search lexicon_search emb cfg V X queries p k (Some iv) (Some ds) = Inr hits"
      "hits_ok p (Some iv) (vs_indexed v \<union> bm_indexed l) k hits"
    using assms(1,2) by auto
  have all: "sc_chunk h \<in> vs_indexed v \<union> bm_indexed l \<and> is_allowed p tags" if "h \<in> set hits" for h
    using hits(2) stamped that by (auto simp: hits_ok_def visible_def)
  have "hits \<noteq> []" if allowed: "is_allowed p tags"
  proof (rule any_legs.retrieve_multi_finds [OF inv assms(5,6) _ _ assms(7) hits(1)])
    obtain c where c: "c \<in> vs_indexed v" using assms(9) by blast
    with stamped allowed have "visible p (Some iv) c" by (auto simp: visible_def wanted_def)
    with c show "found \<noteq> []" if "vectors_search u k p (Some iv) V = Inr found" for u found
      using vs_search_finds [of k c v p "Some iv" u found] that assms(1,6) by simp
  qed (use texts in blast)
  moreover have "is_allowed p tags" if "hits \<noteq> []"
    using all [OF last_in_set [OF that]] by blast
  ultimately have "hits \<noteq> [] \<longleftrightarrow> is_allowed p tags" by blast
  with hits(1) all show ?thesis by blast
qed

lemma identity_keeps:
  assumes "1 \<le> k"
  obtains results where "identity_rerank q hits k = Inr results" "results = [] \<longleftrightarrow> hits = []"
    "\<forall>h \<in> set results. sc_chunk h \<in> sc_chunk ` set hits"
proof -
  have r: "identity_rerank q hits k = Inr (ranked Rerank (map (\<lambda>c. (sc_score c, sc_chunk c)) (slice_to hits k)))"
    by (simp add: identity_rerank_def)
  have "\<forall>h \<in> set (ranked Rerank (map (\<lambda>c. (sc_score c, sc_chunk c)) (slice_to hits k))). sc_chunk h \<in> sc_chunk ` set hits"
    by (rule ident.rerank_all [OF r]) simp
  with r that assms show thesis by (simp add: ranked_Nil cut_Nil)
qed

lemma memory_context:
  assumes "from_settings L s started out = Inr C" "se_vector_backend s = VB_Memory" "se_lexical_backend s = LB_Memory"
    and "se_embedding_backend s = EB_Hash" "se_reranker s = RR_Identity"
  shows "cx_settings C = s" "cx_embedder C = Hash_Embedder (se_hash_embedding_dimensions s)"
    "cx_vectors C = Memory_Vectors empty_vector_store" "cx_lexical C = BM25_Memory (bm_empty (3 / 2) (3 / 4))"
    "cx_reranker C = Identity_Reranker"
  using assms
  by (auto simp: from_settings_def build_embedder_def build_vector_store_def build_lexical_index_def build_reranker_def)

section \<open>Properties\<close>

text \<open>
  C11: what is ingested can be found, and by whom. In a process with the in-memory backends, after a run
  that indexed at least one chunk and published its version, every query of every caller is answered from
  that run: retrieval succeeds, reads the published version and returns only chunks of the run; and it
  returns something exactly when the access tags given to the run admit the caller, who gets nothing
  otherwise.
\<close>

theorem ingested_then_found:
  assumes "from_settings L s started out = Inr C"
    and "se_vector_backend s = VB_Memory" "se_lexical_backend s = LB_Memory" "se_embedding_backend s = EB_Hash"
    and "se_reranker s = RR_Identity" "1 \<le> se_top_k s" "1 \<le> se_rerank_top_k s" "0 \<le> se_rrf_k s" "se_index_version s \<noteq> []"
    and "\<And>b. length (vd_sha256 L b) = 32"
    and "deployed_chunkers sha (of_chunkers ob)" "of_parsers ob = default_parsers rd" "of_connect ob = local_fs rd fs"
    and "offline_run (offline_from_context L ob C) source iv acl True (offline_start C registry) = (Inr cs, st')" "cs \<noteq> []"
  shows "\<exists>res. retrieve_only (online_from_context L base C) trace_id q p
        ((online_start C world)\<lparr>ol_dense := os_vectors st', ol_lexical := os_lexical st'\<rparr>) = Inr res
     \<and> qr_index_version res = run_version (offline_from_context L ob C) iv
     \<and> (\<forall>h \<in> set (qr_results res). sc_chunk h \<in> set cs)
     \<and> (qr_results res \<noteq> [] \<longleftrightarrow> is_allowed p (case acl of None \<Rightarrow> DEFAULT_ACL | Some a \<Rightarrow> a))"
proof -
  let ?op = "offline_from_context L ob C" and ?P = "online_from_context L base C"
  let ?st = "(online_start C world)\<lparr>ol_dense := os_vectors st', ol_lexical := os_lexical st'\<rparr>"
  let ?v = "run_version ?op iv" and ?tags = "case acl of None \<Rightarrow> DEFAULT_ACL | Some a \<Rightarrow> a"
  note cx = memory_context [OF assms(1-5)]
  obtain v l where after: "os_vectors st' = Memory_Vectors v" "os_lexical st' = BM25_Memory l" "vs_inv v" "bm_inv l"
    "vs_indexed v \<subseteq> set cs" "vs_indexed v \<noteq> {}" "bm_indexed l \<subseteq> set cs"
    "vs_resolve_alias (se_collection_alias s) v = Some ?v"
    using memory_run [OF assms(14,15)] cx by (auto simp: offline_start_def)
  have stamped: "\<forall>c \<in> vs_indexed v \<union> bm_indexed l. ch_acl c = ?tags \<and> ch_index_version c = ?v"
    using run_stamped [OF _ _ _ assms(14)] assms(11-13) after(5,7) by auto
  have "?v \<noteq> []"
    using assms(9) cx(1) by (auto simp: run_version_def str_or_def split: option.splits)
  then have active: "active_index_version ?P ?st = Inr ?v"
    using after(1,8) cx(1) by (simp add: active_index_version_def opt_or_def str_or_def)
  let ?qs = "query_variants q (config_of s)"
  let ?ds = "if rc_hyde_enabled (config_of s) then map (\<lambda>v. str_or (hyde_document v) v) ?qs else ?qs"
  have knobs: "rc_top_k (config_of s) = se_top_k s" "rc_rerank_top_k (config_of s) = se_rerank_top_k s"
    by (simp_all add: config_of_def)
  have texts: "\<forall>ts. ts \<noteq> [] \<longrightarrow> on_embed ?P ts \<noteq> []"
  proof (intro allI impI)
    fix ts :: "string list" assume "ts \<noteq> []"
    with hash_answers_total [of L "se_hash_embedding_dimensions s" ts] assms(10) cx(2) show "on_embed ?P ts \<noteq> []"
      by (auto simp: online_from_context_def Let_def)
  qed
  have k: "0 \<le> hy_rrf_k (on_hybrid ?P)" "length ?ds = length ?qs" using assms(8) cx(1) by simp_all
  obtain hits where hits: "retrieve_multi vectors_search lexicon_search (on_embed ?P) (on_hybrid ?P) (os_vectors st')
        (os_lexical st') ?qs p (se_top_k s) (Some ?v) (Some ?ds) = Inr hits"
      "\<forall>h \<in> set hits. sc_chunk h \<in> vs_indexed v \<union> bm_indexed l" "hits \<noteq> [] \<longleftrightarrow> is_allowed p ?tags"
    using memory_retrieve [OF after(1-4) k(1) assms(6) query_variants_some k(2) after(6) texts stamped] by blast
  obtain results where results: "identity_rerank (hd ?qs) hits (se_rerank_top_k s) = Inr results"
      "results = [] \<longleftrightarrow> hits = []" "\<forall>h \<in> set results. sc_chunk h \<in> sc_chunk ` set hits"
    by (rule identity_keeps [OF assms(7)])
  let ?res = "\<lparr>qr_query = q, qr_rewritten = ?qs, qr_results = results, qr_index_version = ?v, qr_trace_id = trace_id,
      qr_latency_ms = on_elapsed ?P (ol_world ?st), qr_cache_hit = False\<rparr>"
  have "retrieve_only ?P trace_id q p ?st = Inr ?res"
    using active hits(1) results(1) cx knobs
    by (simp add: retrieve_only_def config_from_settings online_retrieve_def Let_def)
  moreover have "\<forall>h \<in> set results. sc_chunk h \<in> set cs" using results(3) hits(2) after(5,7) by fastforce
  ultimately show ?thesis using results(2) hits(3) by (intro exI [of _ ?res]) auto
qed

text \<open>
  Such a process is not ready before that run and is ready after it, and deleting from both indexes
  removes exactly the chunks with the given ids.
\<close>

lemma ready_after_run:
  assumes "from_settings L s started out = Inr C"
    and "se_vector_backend s = VB_Memory" "se_lexical_backend s = LB_Memory" "se_embedding_backend s = EB_Hash"
    and "se_reranker s = RR_Identity" "se_cache_backend s = CB_Memory" "se_index_version s \<noteq> []"
    and "deployed_chunkers sha (of_chunkers ob)" "of_parsers ob = default_parsers rd" "of_connect ob = local_fs rd fs"
    and "offline_run (offline_from_context L ob C) source iv acl True (offline_start C registry) = (Inr cs, st')" "cs \<noteq> []"
  shows "\<not> context_ready L base C (online_start C world)
     \<and> context_ready L base C ((online_start C world)\<lparr>ol_dense := os_vectors st', ol_lexical := os_lexical st'\<rparr>)"
proof -
  let ?op = "offline_from_context L ob C"
  let ?v = "run_version ?op iv"
  note cx = memory_context [OF assms(1-5)]
  have cache: "cache_ping (cx_cache C) = None"
    using assms(1,6) by (auto simp: from_settings_def build_cache_def)
  obtain v l where after: "os_vectors st' = Memory_Vectors v" "os_lexical st' = BM25_Memory l" "vs_inv v" "bm_inv l"
    "vs_indexed v \<subseteq> set cs" "vs_indexed v \<noteq> {}" "bm_indexed l \<subseteq> set cs"
    "vs_resolve_alias (se_collection_alias s) v = Some ?v"
    using memory_run [OF assms(11,12)] cx by (auto simp: offline_start_def)
  have "\<forall>c \<in> vs_indexed v. ch_index_version c = ?v"
    using run_stamped [OF _ _ _ assms(11)] assms(8-10) after(5) by auto
  with after(6) obtain c where c: "c \<in> vs_indexed v" "ch_index_version c = ?v" by blast
  then have "0 < vs_count (Some ?v) v"
    by (force simp: vs_count_def vs_indexed_def filter_empty_conv)
  moreover have "?v \<noteq> []"
    using assms(7) cx(1) by (auto simp: run_version_def str_or_def split: option.splits)
  moreover have "on_count (online_from_context L base C) = vectors_count" by (simp add: online_from_context_def Let_def)
  ultimately show ?thesis
    using after(1,8) cx cache
    by (simp add: context_ready_def ready_def readiness_checks_def online_start_def Let_def vs_resolve_alias_def
        empty_vector_store_def)
qed

lemma fold_delete: "set (fold AList.delete ids d) = {x \<in> set d. fst x \<notin> set ids}"
  by (induction ids arbitrary: d) (auto simp: AList.delete_eq)

lemma image_kept: "\<forall>x \<in> S. g (f x) = h x \<Longrightarrow> f ` {x \<in> S. h x \<notin> I} = {c \<in> f ` S. g c \<notin> I}"
  by auto

lemma memory_deleted:
  assumes "vs_inv v" "bm_inv l"
  shows "\<exists>v' l'. vectors_delete ids (Memory_Vectors v) = (Inr (), Memory_Vectors v')
     \<and> lexicon_delete ids (BM25_Memory l) = (Inr (), BM25_Memory l') \<and> vs_inv v' \<and> bm_inv l'
     \<and> vs_indexed v' = {c \<in> vs_indexed v. ch_chunk_id c \<notin> set ids} \<and> bm_indexed l' = {c \<in> bm_indexed l. ch_chunk_id c \<notin> set ids}"
proof -
  obtain l' where l': "bm_delete ids l = Inr l'" "bm_inv l'" "bm_chunks l' = fold AList.delete ids (bm_chunks l)"
    using bm_apply_inv [OF assms(2), of "Bm_Delete ids"] by auto
  have "bm_indexed l' = {c \<in> bm_indexed l. ch_chunk_id c \<notin> set ids}"
    unfolding bm_indexed_def l'(3) fold_delete
    by (rule image_kept) (use assms(2) in \<open>auto simp: bm_inv_def bm_core_def\<close>)
  moreover have vs_items_delete: "vs_items (vs_delete ids v) = fold AList.delete ids (vs_items v)"
    by (simp add: vs_delete_def)
  have "vs_indexed (vs_delete ids v) = {c \<in> vs_indexed v. ch_chunk_id c \<notin> set ids}"
    unfolding vs_indexed_def image_image vs_items_delete fold_delete
    by (rule image_kept) (use assms(1) in \<open>auto simp: vs_inv_def\<close>)
  ultimately show ?thesis
    using l'(1,2) vs_delete_inv [OF assms(1)] by simp
qed

text \<open>A process over the example files.\<close>

definition plain_settings :: settings where
  "plain_settings = default_settings\<lparr>se_pii_redaction_enabled := False\<rparr>"

definition example_process :: "(example_server, example_server, unit, nat) backend_context" where
  "example_process = example_context\<lparr>cx_settings := plain_settings,
     cx_llm := \<lparr>rs_primary = Stub_Model, rs_fallbacks = [], rs_policy = settings_policy plain_settings\<rparr>\<rparr>"

definition example_jobs :: "(example_server vectors, example_server lexicon) offline" where
  "example_jobs =
     \<lparr>of_upsert = vectors_upsert, of_set_alias = vectors_set_alias, of_index = lexicon_index, of_embed = (\<lambda>ts. Inr []),
      of_model_name = [], of_settings = plain_settings, of_chunking = of_chunking example_offline,
      of_chunkers = of_chunkers example_offline, of_parsers = of_parsers example_offline,
      of_connect = of_connect example_offline, of_now = ''2026-01-01''\<rparr>"

lemma example_process_built: "from_settings example_vendor plain_settings None example_outside = Inr example_process"
  by (simp add: from_settings_def build_embedder_def build_vector_store_def build_lexical_index_def build_reranker_def
      build_llm_def build_cache_def build_semantic_cache_def example_process_def example_context_def example_outside_def
      plain_settings_def default_settings_def)

lemma example_process_run:
  "\<exists>c st'. offline_run (offline_from_context example_vendor example_jobs example_process) [''data''] None None True
     (offline_start example_process example_registry) = (Inr [c], st')"
proof -
  let ?op = "offline_from_context example_vendor example_jobs example_process"
  have sha: "length (vd_sha256 example_vendor b) = 32" for b by (simp add: example_vendor_def)
  obtain f where f: "\<And>t. hash_vector (vd_sha256 example_vendor) 64 t = Some (f t)"
    using hash_vector_exact [of "vd_sha256 example_vendor" 64] sha by metis
  then have "of_embed ?op [''hi''] = Inr [f ''hi'']"
    by (simp add: offline_from_context_def example_process_def example_context_def hash_answers_def hash_embed_def)
  moreover have "of_chunking ?op = of_chunking example_offline" "of_chunkers ?op = of_chunkers example_offline"
      "of_parsers ?op = of_parsers example_offline" "of_connect ?op = of_connect example_offline"
      "of_settings ?op = of_settings example_offline"
    by (simp_all add: example_jobs_def example_process_def) (simp add: example_offline_def plain_settings_def)
  ultimately obtain c st' where
    "offline_run (in_memory_offline ?op) [''data''] None None True example_offline_state = (Inr [c], st')"
    using example_files_run by blast
  moreover have "offline_start example_process example_registry = lift_stores example_offline_state"
    by (simp add: offline_start_def lift_stores_def example_offline_state_def example_process_def example_context_def)
  ultimately show ?thesis
    using context_run_mirrors [of example_vendor example_jobs example_process "[''data'']" None None True]
    by (auto simp: mirrors_def)
qed

lemma ingested_then_found_witness:
  "\<exists>c st' res. offline_run (offline_from_context example_vendor example_jobs example_process) [''data''] None None True
        (offline_start example_process example_registry) = (Inr [c], st')
     \<and> retrieve_only (online_from_context example_vendor example_base example_process) ''t'' ''what is it''
        \<lparr>pr_subject = ''u'', pr_groups = {''public''}, pr_tenant = ''default''\<rparr>
        ((online_start example_process 0)\<lparr>ol_dense := os_vectors st', ol_lexical := os_lexical st'\<rparr>) = Inr res
     \<and> qr_results res \<noteq> [] \<and> qr_index_version res = ''v1''"
proof -
  let ?p = "\<lparr>pr_subject = ''u'', pr_groups = {''public''}, pr_tenant = ''default''\<rparr>"
  obtain c st' where run: "offline_run (offline_from_context example_vendor example_jobs example_process) [''data''] None None True
     (offline_start example_process example_registry) = (Inr [c], st')"
    using example_process_run by blast
  have chosen: "se_vector_backend plain_settings = VB_Memory" "se_lexical_backend plain_settings = LB_Memory"
      "se_embedding_backend plain_settings = EB_Hash" "se_reranker plain_settings = RR_Identity"
      "1 \<le> se_top_k plain_settings" "1 \<le> se_rerank_top_k plain_settings" "0 \<le> se_rrf_k plain_settings"
      "se_index_version plain_settings \<noteq> []"
    by (simp_all add: plain_settings_def default_settings_def)
  have sha: "length (vd_sha256 example_vendor b) = 32" for b by (simp add: example_vendor_def)
  have files: "deployed_chunkers (\<lambda>s. s) (of_chunkers example_jobs)" "of_parsers example_jobs = default_parsers ascii_reader"
      "of_connect example_jobs = local_fs ascii_reader example_files"
    by (simp_all add: example_jobs_def example_offline_def deployed_chunkers_def)
  have "is_allowed ?p DEFAULT_ACL" by (simp add: is_allowed_def DEFAULT_ACL_def)
  moreover have "run_version (offline_from_context example_vendor example_jobs example_process) None = ''v1''"
    by (simp add: run_version_def example_process_def plain_settings_def default_settings_def)
  ultimately show ?thesis
    using ingested_then_found [OF example_process_built chosen sha files run, of example_base "''t''" "''what is it''" ?p 0] run
    by auto
qed

end
