(* ===== verification/Jobs.thy ===== *)
theory Jobs
  imports Lifecycle Eval
begin

text \<open>
  The jobs and their command line: \<open>src/rag/jobs/cli.py\<close>, \<open>scheduled_eval.py\<close>, \<open>agent_eval.py\<close> and the
  reader of golden sets \<open>src/rag/eval/datasets.py\<close>. A command runs in a process of its own, which it
  builds from the settings; what outlives it are the registry file and the servers. Commands come parsed,
  with the defaults of \<open>build_parser\<close>; printed floats are exact.
\<close>

section \<open>Printing\<close>

text \<open>\<open>f"{x:.3f}"\<close> and the like.\<close>

definition fmt_fixed :: "nat \<Rightarrow> real \<Rightarrow> string" where
  "fmt_fixed d x =
     (let n = nat (round_even (\<bar>x\<bar> * 10 ^ d)); t = show_nat (n mod 10 ^ d)
      in (if x < 0 then ''-'' else []) @ show_nat (n div 10 ^ d) @ ''.'' @ replicate (d - length t) (CHR ''0'') @ t)"

definition format_report :: "eval_report \<Rightarrow> string" where
  "format_report r = py_join newline
     [''EvalReport n='' @ show_nat (er_n r),
      ''  Recall@5='' @ fmt_fixed 3 (er_recall_5 r) @ ''  Recall@10='' @ fmt_fixed 3 (er_recall_10 r),
      ''  MRR='' @ fmt_fixed 3 (er_mrr r) @ ''  nDCG@10='' @ fmt_fixed 3 (er_ndcg_10 r),
      ''  Faithfulness='' @ fmt_fixed 3 (er_faithfulness r) @ ''  AnswerRel='' @ fmt_fixed 3 (er_relevance r),
      ''  RefusalRate='' @ fmt_fixed 3 (er_refusal_rate r)]"

definition format_agent_report :: "agent_report \<Rightarrow> string" where
  "format_agent_report r = py_join newline
     [''AgentEvalReport n='' @ show_nat (ar_n r),
      ''  Success='' @ fmt_fixed 3 (ar_success_rate r) @ ''  AvgSteps='' @ fmt_fixed 2 (ar_avg_steps r),
      ''  StepEff='' @ fmt_fixed 3 (ar_avg_efficiency r) @ ''  ToolPrec='' @ fmt_fixed 3 (ar_avg_tool_precision r),
      ''  SelfCorr='' @ fmt_fixed 3 (ar_avg_correction_rate r),
      ''  AvgCost=$'' @ fmt_fixed 4 (ar_avg_cost r) @ ''  Cost/Correct=$'' @ fmt_fixed 4 (ar_avg_cost_per_correct r),
      ''  FallbackRate='' @ fmt_fixed 3 (ar_fallback_rate r) @ ''  RefusalRate='' @ fmt_fixed 3 (Eval.ar_refusal_rate r),
      ''  TrajectoryOK='' @ fmt_fixed 3 (ar_trajectory_rate r)]"

section \<open>A process\<close>

record ('q, 'o, 'r, 'x) process =
  pc_stores :: "('q vectors, 'o lexicon) offline_state"
  pc_cache :: "'r cache_store"
  pc_semantic :: "sem_cache option"
  pc_world :: 'x

definition new_process :: "('q, 'o, 'r, 'x) backend_context \<Rightarrow> index_registry \<Rightarrow> 'x \<Rightarrow> ('q, 'o, 'r, 'x) process" where
  "new_process C registry w =
     \<lparr>pc_stores = offline_start C registry, pc_cache = cx_cache C, pc_semantic = cx_semantic C, pc_world = w\<rparr>"

definition online_view :: "('q, 'o, 'r, 'x) process \<Rightarrow> ('q vectors, 'o lexicon, 'r cache_store, 'x) online_state" where
  "online_view ps =
     \<lparr>ol_dense = os_vectors (pc_stores ps), ol_lexical = os_lexical (pc_stores ps), ol_cache = pc_cache ps,
      ol_semantic = pc_semantic ps, ol_world = pc_world ps\<rparr>"

definition on_stores :: "(('q vectors, 'o lexicon) offline_state, 'a) call \<Rightarrow> (('q, 'o, 'r, 'x) process, 'a) call" where
  "on_stores m ps = (let (r, st) = m (pc_stores ps) in (r, ps\<lparr>pc_stores := st\<rparr>))"

definition job_reindex ::
    "('q, 'o, 'r, 'x) vendor \<Rightarrow> ('q vectors, 'o lexicon) offline \<Rightarrow> ('q, 'o, 'r, 'x) backend_context \<Rightarrow> path \<Rightarrow> string
     \<Rightarrow> bool \<Rightarrow> acl_tags option \<Rightarrow> (('q, 'o, 'r, 'x) process, nat) call" where
  "job_reindex L ob C source version activate acl =
     on_stores (reindex (offline_from_context L ob C) source version activate acl)"

section \<open>Golden sets\<close>

text \<open>\<open>load_golden\<close> on the lines of the file; \<open>read\<close> parses and validates one of them.\<close>

definition load_golden :: "(string \<Rightarrow> golden_example result) \<Rightarrow> string list \<Rightarrow> golden_example list result" where
  "load_golden read lines = map_result read (filter (\<lambda>l. l \<noteq> []) (map strip lines))"

definition public_acl :: "settings \<Rightarrow> acl_tags" where
  "public_acl s = \<lparr>acl_tenant = se_default_tenant s, acl_allow_groups = {''public''}, acl_classification = ''internal''\<rparr>"

definition job_principal :: "string \<Rightarrow> settings \<Rightarrow> principal" where
  "job_principal subject s = \<lparr>pr_subject = subject, pr_groups = {''public''}, pr_tenant = se_default_tenant s\<rparr>"

definition scheduled_eval ::
    "('q vectors, 'o lexicon, 'r cache_store, 'x) pipeline \<Rightarrow> string \<Rightarrow> golden_example list result
     \<Rightarrow> (('q, 'o, 'r, 'x) process, eval_report) call" where
  "scheduled_eval P trace_id dataset =
     (let s = on_settings P;
          who = job_principal ''scheduled-eval'' s;
          retrieve_fn = (\<lambda>q ps. (retrieve_only P trace_id q who (online_view ps), ps));
          generate_fn = (\<lambda>q res ps.
            (let (a, w) = generate_grounded (on_get_prompt P) (on_llm P) trace_id q (qr_results res)
                            (se_refusal_score_threshold s) ''answer_grounded'' ''v1'' (se_pii_redaction_enabled s) (pc_world ps)
             in (a, ps\<lparr>pc_world := w\<rparr>)))
      in and_then (return dataset) (eval_run retrieve_fn generate_fn))"

section \<open>The scripted agent evaluation\<close>

definition APPROVE :: string where
  "APPROVE = ''{\"sufficient\": true, \"grounded\": true, \"reasons\": [\"cited\"], \"missing\": [], \"confidence\": 0.9}''"

definition REJECT :: string where
  "REJECT = ''{\"sufficient\": false, \"grounded\": false, \"reasons\": [\"draft cites nothing\"], ''
     @ ''\"missing\": [\"a citation for the main claim\"], \"confidence\": 0.2}''"

definition says :: "string \<Rightarrow> scripted_turn" where
  "says content = \<lparr>sn_content = content, sn_tool_calls = [], sn_finish_reason = ''stop''\<rparr>"

definition searches :: "string \<Rightarrow> string \<Rightarrow> scripted_turn" where
  "searches call_id question =
     \<lparr>sn_content = [], sn_tool_calls = [\<lparr>tc_id = call_id, tc_name = ''retrieval_search'',
        tc_arguments = [(''query'', JStr question)]\<rparr>], sn_finish_reason = ''stop''\<rparr>"

definition planner_turns :: "golden_example \<Rightarrow> string \<Rightarrow> scripted_turn list" where
  "planner_turns ex chunk_id =
     (let grounded = opt_or (ge_reference_answer ex) ''Grounded answer from the corpus.'' @ '' ['' @ chunk_id @ '']''
      in map (\<lambda>i. searches (ge_id ex @ ''-r'' @ show_nat i) (ge_question ex)) [0 ..< nat (ge_retrieval_rounds ex)]
         @ (if ge_expect_self_correction ex
            then [says ''A confident answer that cites nothing.'', searches (ge_id ex @ ''-fix'') (ge_question ex)] else [])
         @ [says grounded])"

definition critiques :: "golden_example \<Rightarrow> scripted_turn list" where
  "critiques ex = (if ge_expect_self_correction ex then [says REJECT, says APPROVE] else [says APPROVE])"

text \<open>The two scripted models live in the world of the job, beside the world of the pipeline's model.\<close>

type_synonym 'x scripted = "'x \<times> echo_chat \<times> echo_chat"

definition widen_llm :: "'x llm \<Rightarrow> 'x scripted llm" where
  "widen_llm m =
     \<lparr>llm_model_name = llm_model_name m,
      llm_complete = (\<lambda>prompt (w, e). let (r, w') = llm_complete m prompt w in (r, (w', e)))\<rparr>"

definition widen ::
    "('s, 't, 'c, 'x) pipeline \<Rightarrow> ('s, 't, 'c, 'x scripted) pipeline" where
  "widen P =
     \<lparr>on_settings = on_settings P, on_yaml = on_yaml P, on_dsearch = on_dsearch P, on_lsearch = on_lsearch P,
      on_resolve_alias = on_resolve_alias P, on_count = on_count P, on_embed = on_embed P,
      on_embed_query = on_embed_query P, on_hybrid = on_hybrid P, on_rerank = on_rerank P, on_llm = widen_llm (on_llm P),
      on_get = on_get P, on_set = on_set P, on_prompt_version = on_prompt_version P,
      on_fallback_version = on_fallback_version P, on_get_prompt = on_get_prompt P, on_semantic_max = on_semantic_max P,
      on_sha = on_sha P, on_frepr = on_frepr P, on_dump = on_dump P, on_load = on_load P,
      on_elapsed = (\<lambda>(w, e). on_elapsed P w)\<rparr>"

definition script_model ::
    "('x scripted \<Rightarrow> echo_chat) \<Rightarrow> (echo_chat \<Rightarrow> 'x scripted \<Rightarrow> 'x scripted)
     \<Rightarrow> ('s, 't, 'c, 'x scripted) online_state chat_llm" where
  "script_model script update_script =
     \<lparr>cm_model_name = ''echo-chat'',
      cm_chat = (\<lambda>messages tools st.
        (let (c, e) = echo_chat_step messages (script (ol_world st))
         in (Some (Inr c), st\<lparr>ol_world := update_script e (ol_world st)\<rparr>)))\<rparr>"

definition planner_model :: "('s, 't, 'c, 'x scripted) online_state chat_llm" where
  "planner_model = script_model (\<lambda>(w, p, c). p) (\<lambda>p' (w, p, c). (w, p', c))"

definition critic_model :: "('s, 't, 'c, 'x scripted) online_state chat_llm" where
  "critic_model = script_model (\<lambda>(w, p, c). c) (\<lambda>c' (w, p, c). (w, p, c'))"

definition eval_runtime ::
    "('s, 't, 'c, 'x scripted) agent_env \<Rightarrow> ('s, 't, 'c, 'x scripted) pipeline \<Rightarrow> string
     \<Rightarrow> ('s, 't, 'c, 'x scripted) online_state agent_runtime result" where
  "eval_runtime E P trace_id =
     bind_result (new_registry [retrieval_tool P (ae_deadline E) trace_id] None) (\<lambda>registry.
       let R = wired_runtime E P planner_model trace_id registry
       in Inr (R\<lparr>ar_critic := (ar_critic R)\<lparr>ck_llm := critic_model\<rparr>, ar_allow_egress := False, ar_include_trace := True\<rparr>))"

text \<open>The gates; \<open>Inl\<close> is the message of \<open>SystemExit\<close>.\<close>

record thresholds =
  th_max_avg_steps :: "real option"
  th_max_avg_cost :: "real option"
  th_min_success_rate :: "real option"
  th_min_trajectory_rate :: "real option"

definition below :: "real option \<Rightarrow> real \<Rightarrow> bool" where
  "below limit x \<longleftrightarrow> (case limit of None \<Rightarrow> False | Some m \<Rightarrow> x < m)"

definition above :: "real option \<Rightarrow> real \<Rightarrow> bool" where
  "above limit x \<longleftrightarrow> (case limit of None \<Rightarrow> False | Some m \<Rightarrow> m < x)"

definition gate_agent :: "thresholds \<Rightarrow> agent_report \<Rightarrow> string + agent_report" where
  "gate_agent t r =
     (if below (th_min_success_rate t) (ar_success_rate r)
      then Inl (''agent success_rate '' @ fmt_fixed 3 (ar_success_rate r) @ '' below threshold '' @ fmt_fixed 3 (the (th_min_success_rate t)))
      else if below (th_min_trajectory_rate t) (ar_trajectory_rate r)
      then Inl (''agent trajectory_rate '' @ fmt_fixed 3 (ar_trajectory_rate r) @ '' below threshold ''
             @ fmt_fixed 3 (the (th_min_trajectory_rate t)))
      else if above (th_max_avg_steps t) (ar_avg_steps r)
      then Inl (''agent avg_steps '' @ fmt_fixed 2 (ar_avg_steps r) @ '' above threshold '' @ fmt_fixed 2 (the (th_max_avg_steps t)))
      else if above (th_max_avg_cost t) (ar_avg_cost r)
      then Inl (''agent avg_cost_usd '' @ fmt_fixed 4 (ar_avg_cost r) @ '' above threshold '' @ fmt_fixed 4 (the (th_max_avg_cost t)))
      else Inr r)"

text \<open>A call of the runtime on the process.\<close>

definition on_runtime ::
    "(('q vectors, 'o lexicon, 'r cache_store, 'x) online_state, 'a) call \<Rightarrow> (('q, 'o, 'r, 'x) process, 'a) call" where
  "on_runtime m ps =
     (let (r, st) = m (online_view ps)
      in (r, ps\<lparr>pc_stores := (pc_stores ps)\<lparr>os_vectors := ol_dense st, os_lexical := ol_lexical st\<rparr>,
             pc_cache := ol_cache st, pc_semantic := ol_semantic st, pc_world := ol_world st\<rparr>))"

definition set_scripts :: "scripted_turn list \<Rightarrow> scripted_turn list \<Rightarrow> ('q, 'o, 'r, 'x scripted) process \<Rightarrow> ('q, 'o, 'r, 'x scripted) process" where
  "set_scripts planner critic ps =
     ps\<lparr>pc_world := (fst (pc_world ps), new_echo_chat planner, new_echo_chat critic)\<rparr>"

definition run_agent_eval ::
    "('q vectors, 'o lexicon, 'r cache_store, 'x scripted) agent_env
     \<Rightarrow> ('q vectors, 'o lexicon, 'r cache_store, 'x scripted) pipeline \<Rightarrow> string
     \<Rightarrow> (('q, 'o, 'r, 'x scripted) process, unit) call \<Rightarrow> golden_example list result \<Rightarrow> thresholds
     \<Rightarrow> (('q, 'o, 'r, 'x scripted) process, string + agent_report) call" where
  "run_agent_eval E P trace_id index_first dataset t =
     (let s = on_settings P; who = job_principal ''eval-agent'' s in
      and_then index_first (\<lambda>_.
      and_then (return dataset) (\<lambda>examples.
      and_then (\<lambda>ps. (retrieve_only P trace_id (case examples of [] \<Rightarrow> ''overview'' | ex # _ \<Rightarrow> ge_question ex) who (online_view ps), ps)) (\<lambda>probe.
      let chunk_id = (case qr_results probe of [] \<Rightarrow> ''missing'' | h # _ \<Rightarrow> ch_chunk_id (sc_chunk h));
          script = concat (map (\<lambda>ex. planner_turns ex chunk_id) examples);
          critic_script = concat (map critiques examples)
      in and_then (return (eval_runtime E P trace_id)) (\<lambda>runtime.
         and_then (\<lambda>ps. (Inr (), set_scripts script critic_script ps)) (\<lambda>_.
         and_then (agent_eval_run (\<lambda>q. on_runtime (agent_run runtime trace_id q who None)) (se_agent_max_steps s) examples)
           (\<lambda>report. return (Inr (gate_agent t report)))))))))"

section \<open>The command line\<close>

datatype command =
  Ingest path "string option" "string option" "string option" bool
| Reindex path string "string option" "string option" bool
| Activate string
| Versions
| Eval_Golden path "path option" "real option"
| Eval_Agent path "path option" thresholds

text \<open>The defaults of the parser for the two evaluations in CI.\<close>

definition default_thresholds :: thresholds where
  "default_thresholds = \<lparr>th_max_avg_steps = Some 4, th_max_avg_cost = Some (5 / 100), th_min_success_rate = Some 1,
     th_min_trajectory_rate = Some 1\<rparr>"

definition given :: "string option \<Rightarrow> bool" where
  "given x \<longleftrightarrow> x \<noteq> None \<and> x \<noteq> Some []"

definition cli_acl :: "string option \<Rightarrow> string option \<Rightarrow> settings \<Rightarrow> acl_tags option" where
  "cli_acl tenant groups s =
     (if \<not> (given tenant \<or> given groups) then None
      else Some \<lparr>acl_tenant = opt_or tenant (se_default_tenant s), acl_allow_groups = parse_groups groups {''public''},
             acl_classification = ''internal''\<rparr>)"

record printed =
  pr_exit :: nat
  pr_stdout :: "string list"
  pr_stderr :: "string list"

definition printed_ok :: "string \<Rightarrow> printed" where
  "printed_ok line = \<lparr>pr_exit = 0, pr_stdout = [line], pr_stderr = []\<rparr>"

text \<open>What outlives a command: the registry file, the servers, and the world of the models.\<close>

record ('q, 'o, 'r, 'x) site =
  si_registry :: index_registry
  si_outside :: "('q, 'o, 'r) outside"
  si_world :: 'x

definition left_outside :: "('q, 'o, 'r, 'x) process \<Rightarrow> ('q, 'o, 'r) outside \<Rightarrow> ('q, 'o, 'r) outside" where
  "left_outside ps out =
     out\<lparr>out_qdrant := (case os_vectors (pc_stores ps) of Memory_Vectors v \<Rightarrow> out_qdrant out | Qdrant_Vectors Q st \<Rightarrow> qs_server st),
       out_opensearch := (case os_lexical (pc_stores ps) of BM25_Memory l \<Rightarrow> out_opensearch out | OpenSearch_Index X x \<Rightarrow> x),
       out_redis := (case pc_cache ps of Memory_Cache c \<Rightarrow> out_redis out | Redis_Cache R r \<Rightarrow> r)\<rparr>"

definition in_process ::
    "('q, 'o, 'r, 'x) vendor \<Rightarrow> settings \<Rightarrow> string option
     \<Rightarrow> (('q, 'o, 'r, 'x) backend_context \<Rightarrow> (('q, 'o, 'r, 'x) process, 'a) call) \<Rightarrow> (('q, 'o, 'r, 'x) site, 'a) call" where
  "in_process L s iv job si =
     (case from_settings L s iv (si_outside si) of
        Inl e \<Rightarrow> (Inl e, si)
      | Inr C \<Rightarrow>
          (let (r, ps) = job C (new_process C (si_registry si) (si_world si))
           in (r, \<lparr>si_registry = os_registry (pc_stores ps), si_outside = left_outside ps (si_outside si),
                   si_world = pc_world ps\<rparr>)))"

text \<open>
  What the commands take from their surroundings: the settings, the libraries and files behind the
  pipelines, the lines of the files that exist, the reader of one line of a golden set, the reader of a
  registry entry, and the trace id.
\<close>

record ('q, 'o, 'r, 'x) desk =
  dk_settings :: settings
  dk_vendor :: "('q, 'o, 'r, 'x scripted) vendor"
  dk_online :: "('q vectors, 'o lexicon, 'r cache_store, 'x scripted) pipeline"
  dk_offline :: "('q vectors, 'o lexicon) offline"
  dk_env :: "('q vectors, 'o lexicon, 'r cache_store, 'x scripted) agent_env"
  dk_lines :: "path \<Rightarrow> string list option"
  dk_example :: "string \<Rightarrow> golden_example result"
  dk_entry :: "json_dict \<Rightarrow> index_version result"
  dk_show_path :: "path \<Rightarrow> string"
  dk_trace_id :: string

definition command_index ::
    "('q, 'o, 'r, 'x) desk \<Rightarrow> path \<Rightarrow> string option \<Rightarrow> string option \<Rightarrow> string option \<Rightarrow> bool
     \<Rightarrow> (('q, 'o, 'r, 'x scripted) site, printed) call" where
  "command_index D source iv tenant groups no_activate =
     (let s = dk_settings D; version = opt_or iv (se_index_version s) in
      and_then (in_process (dk_vendor D) s (Some version) (\<lambda>C.
          job_reindex (dk_vendor D) (dk_offline D) C source version (\<not> no_activate) (cli_acl tenant groups s)))
        (\<lambda>count. return (Inr
          \<lparr>pr_exit = 0, pr_stdout = [''Indexed '' @ show_nat count @ '' chunks into version '' @ version],
           pr_stderr = (if count = 0 then [''warning: no documents found under '' @ dk_show_path D source] else [])\<rparr>)))"

definition index_source_first ::
    "('q, 'o, 'r, 'x) desk \<Rightarrow> ('q, 'o, 'r, 'x scripted) backend_context \<Rightarrow> path option
     \<Rightarrow> (('q, 'o, 'r, 'x scripted) process, unit) call" where
  "index_source_first D C source =
     (case source of
        None \<Rightarrow> return (Inr ())
      | Some p \<Rightarrow> and_then (job_reindex (dk_vendor D) (dk_offline D) C p (se_index_version (dk_settings D)) True
                    (Some (public_acl (dk_settings D)))) (\<lambda>n. return (Inr ())))"

definition dataset_missing :: "('q, 'o, 'r, 'x) desk \<Rightarrow> path \<Rightarrow> printed" where
  "dataset_missing D dataset = \<lparr>pr_exit = 2, pr_stdout = [], pr_stderr = [''error: dataset not found: '' @ dk_show_path D dataset]\<rparr>"

definition gate_recall :: "real option \<Rightarrow> eval_report \<Rightarrow> printed" where
  "gate_recall min_recall report =
     (if below min_recall (er_recall_5 report)
      then \<lparr>pr_exit = 1, pr_stdout = [format_report report],
        pr_stderr = [''error: Recall@5 '' @ fmt_fixed 3 (er_recall_5 report) @ '' below threshold '' @ fmt_fixed 3 (the min_recall)]\<rparr>
      else printed_ok (format_report report))"

definition command_eval ::
    "('q, 'o, 'r, 'x) desk \<Rightarrow> path \<Rightarrow> path option \<Rightarrow> real option \<Rightarrow> (('q, 'o, 'r, 'x scripted) site, printed) call" where
  "command_eval D dataset source min_recall =
     (case dk_lines D dataset of
        None \<Rightarrow> return (Inr (dataset_missing D dataset))
      | Some lines \<Rightarrow>
          and_then (in_process (dk_vendor D) (dk_settings D) None (\<lambda>C.
              and_then (index_source_first D C source) (\<lambda>_.
                scheduled_eval (online_from_context (dk_vendor D) (dk_online D) C) (dk_trace_id D)
                  (load_golden (dk_example D) lines))))
            (\<lambda>report. return (Inr (gate_recall min_recall report))))"

definition command_eval_agent ::
    "('q, 'o, 'r, 'x) desk \<Rightarrow> path \<Rightarrow> path option \<Rightarrow> thresholds \<Rightarrow> (('q, 'o, 'r, 'x scripted) site, printed) call" where
  "command_eval_agent D dataset source t =
     (case dk_lines D dataset of
        None \<Rightarrow> return (Inr (dataset_missing D dataset))
      | Some lines \<Rightarrow>
          and_then (in_process (dk_vendor D) (dk_settings D) None (\<lambda>C.
              run_agent_eval (dk_env D) (online_from_context (dk_vendor D) (dk_online D) C) (dk_trace_id D)
                (index_source_first D C source) (load_golden (dk_example D) lines) t))
            (\<lambda>out. return (Inr (case out of
                Inl m \<Rightarrow> \<lparr>pr_exit = 1, pr_stdout = [], pr_stderr = [''error: '' @ m]\<rparr>
              | Inr report \<Rightarrow> printed_ok (format_agent_report report)))))"

fun cli_main :: "('q, 'o, 'r, 'x) desk \<Rightarrow> command \<Rightarrow> (('q, 'o, 'r, 'x scripted) site, printed) call" where
  "cli_main D (Ingest source iv tenant groups no_activate) = command_index D source iv tenant groups no_activate"
| "cli_main D (Reindex source iv tenant groups no_activate) = command_index D source (Some iv) tenant groups no_activate"
| "cli_main D (Activate iv) =
     and_then (in_process (dk_vendor D) (dk_settings D) (Some iv) (\<lambda>C.
         on_stores (offline_activate (offline_from_context (dk_vendor D) (dk_offline D) C) iv)))
       (\<lambda>_. return (Inr (printed_ok (''Activated index version '' @ iv))))"
| "cli_main D Versions =
     and_then (in_process (dk_vendor D) (dk_settings D) None (\<lambda>C ps.
         (job_list_versions (jr_frepr (vd_reader (dk_vendor D))) (dk_entry D) (os_registry (pc_stores ps)), ps)))
       (\<lambda>versions. return (Inr (printed_ok
          (if versions = [] then ''No index versions recorded yet'' else py_join newline versions))))"
| "cli_main D (Eval_Golden dataset source min_recall) = command_eval D dataset source min_recall"
| "cli_main D (Eval_Agent dataset source t) = command_eval_agent D dataset source t"

section \<open>What the gates let through\<close>

lemma mean_full:
  assumes "\<forall>c \<in> set cs. f c \<le> 1"
  shows "1 \<le> mean_of f cs \<longleftrightarrow> cs \<noteq> [] \<and> (\<forall>c \<in> set cs. f c = 1)"
proof -
  have "sum_list (map f xs) \<le> real (length xs) \<and> (real (length xs) \<le> sum_list (map f xs) \<longleftrightarrow> (\<forall>x \<in> set xs. f x = 1))"
    if "\<forall>x \<in> set xs. f x \<le> 1" for xs
    using that by (induction xs) fastforce+
  from this [OF assms] show ?thesis by (auto simp: mean_of_def pos_le_divide_eq)
qed

lemma agent_cases_from:
  "agent_cases run b exs st = (Inr cs, st') \<Longrightarrow> \<exists>answers. length answers = length exs \<and> cs = map2 (agent_case_of b) exs answers"
proof (induction exs arbitrary: st cs)
  case (Cons ex exs)
  obtain a st1 cs1 st2 where step: "run (ge_question ex) st = (Inr a, st1)" "agent_cases run b exs st1 = (Inr cs1, st2)"
      "cs = agent_case_of b ex a # cs1" "st2 = st'"
    using Cons.prems by (auto elim!: and_then_InrE)
  from Cons.IH [OF step(2) [unfolded step(4)]] obtain answers where "length answers = length exs" "cs1 = map2 (agent_case_of b) exs answers"
    by blast
  with step(3) show ?case by (intro exI [of _ "a # answers"]) simp
qed simp

lemma agent_eval_from:
  assumes "agent_eval_run run b exs st = (Inr r, st')"
  shows "\<exists>answers. length answers = length exs \<and> r = agent_report_from_cases (map2 (agent_case_of b) exs answers)"
  using assms agent_cases_from unfolding agent_eval_run_def by (force elim!: and_then_InrE)

lemma success_bound: "task_success a c \<le> 1"
  by (simp add: task_success_def)

text \<open>What a golden example asks of its answer.\<close>

definition answered_well :: "golden_example \<Rightarrow> agent_answer \<Rightarrow> bool" where
  "answered_well ex a \<longleftrightarrow> \<not> a_refused a \<and> \<not> aa_fallback_used a \<and> aa_stop_reason a \<in> ANSWERABLE_STOPS
     \<and> a_citations a \<noteq> [] \<and> trajectory_ok ex a"

lemma well_case: "ac_success (agent_case_of b ex a) = 1 \<and> ac_trajectory_ok (agent_case_of b ex a) \<longleftrightarrow> answered_well ex a"
  by (simp add: agent_case_of_def Let_def task_success_def answered_well_def)

lemma gate_passes:
  assumes len: "length answers = length examples"
  shows "(\<exists>r. gate_agent default_thresholds (agent_report_from_cases (map2 (agent_case_of b) examples answers)) = Inr r)
     \<longleftrightarrow> examples \<noteq> [] \<and> list_all2 answered_well examples answers
        \<and> mean_of (real_of_int \<circ> aa_steps_taken) answers \<le> 4 \<and> mean_of (u_cost_usd \<circ> a_usage) answers \<le> 5 / 100"
proof -
  let ?cs = "map2 (agent_case_of b) examples answers"
  have "map (real_of_int \<circ> ac_steps) ?cs = map (real_of_int \<circ> aa_steps_taken) answers"
      "map ac_cost ?cs = map (u_cost_usd \<circ> a_usage) answers"
    using len by (induction answers examples rule: list_induct2) (simp_all add: agent_case_of_def Let_def)
  then have means: "mean_of (real_of_int \<circ> ac_steps) ?cs = mean_of (real_of_int \<circ> aa_steps_taken) answers"
      "mean_of ac_cost ?cs = mean_of (u_cost_usd \<circ> a_usage) answers"
    using len by (auto simp: mean_of_def)
  have bounds: "\<forall>c \<in> set ?cs. ac_success c \<le> 1" "\<forall>c \<in> set ?cs. indicator_of ac_trajectory_ok c \<le> (1 :: real)"
    by (auto simp: agent_case_of_def Let_def task_success_def indicator_of_def)
  have one: "indicator_of ac_trajectory_ok c = 1 \<longleftrightarrow> ac_trajectory_ok c" for c by (simp add: indicator_of_def)
  have all: "(\<forall>c \<in> set ?cs. ac_success c = 1 \<and> ac_trajectory_ok c) \<longleftrightarrow> list_all2 answered_well examples answers"
    using len well_case by (auto simp: list_all2_iff in_set_zip set_zip)
  have "(\<exists>r. gate_agent default_thresholds (agent_report_from_cases ?cs) = Inr r)
     \<longleftrightarrow> 1 \<le> mean_of ac_success ?cs \<and> 1 \<le> mean_of (indicator_of ac_trajectory_ok) ?cs
        \<and> mean_of (real_of_int \<circ> ac_steps) ?cs \<le> 4 \<and> mean_of ac_cost ?cs \<le> 5 / 100"
    by (auto simp: gate_agent_def default_thresholds_def below_def above_def agent_report_from_cases_def)
  also have "\<dots> \<longleftrightarrow> ?cs \<noteq> [] \<and> (\<forall>c \<in> set ?cs. ac_success c = 1 \<and> ac_trajectory_ok c)
        \<and> mean_of (real_of_int \<circ> ac_steps) ?cs \<le> 4 \<and> mean_of ac_cost ?cs \<le> 5 / 100"
    unfolding mean_full [OF bounds(1)] mean_full [OF bounds(2)] one by blast
  also have "?cs \<noteq> [] \<longleftrightarrow> examples \<noteq> []" using len by auto
  finally show ?thesis unfolding all means .
qed

lemma in_process_Inr:
  assumes "in_process L s iv job si = (Inr y, si')"
  obtains C ps where "from_settings L s iv (si_outside si) = Inr C"
    "job C (new_process C (si_registry si) (si_world si)) = (Inr y, ps)"
  using assms by (auto simp: in_process_def Let_def split: sum.splits prod.splits)

lemma agent_eval_report:
  fixes ps :: "('q, 'o, 'r, 'x scripted) process"
  assumes "run_agent_eval E P trace_id first dataset t ps = (Inr out, ps')"
  shows "\<exists>examples answers. dataset = Inr examples \<and> length answers = length examples
     \<and> out = gate_agent t (agent_report_from_cases (map2 (agent_case_of (se_agent_max_steps (on_settings P))) examples answers))"
proof -
  obtain examples run and ps3 :: "('q, 'o, 'r, 'x scripted) process" and report ps4 where data: "dataset = Inr examples"
      and "agent_eval_run run (se_agent_max_steps (on_settings P)) examples ps3 = (Inr report, ps4)" "out = gate_agent t report"
    using assms unfolding run_agent_eval_def Let_def by (elim and_then_InrE) auto
  with agent_eval_from [of run "se_agent_max_steps (on_settings P)" examples ps3 report ps4] data show ?thesis by blast
qed

section \<open>Properties\<close>


lemma eval_cases_length: "eval_cases f g exs st = (Inr cs, st') \<Longrightarrow> length cs = length exs"
  by (induction exs arbitrary: st cs) (auto elim!: and_then_InrE)

lemma scheduled_eval_report:
  fixes ps :: "('q, 'o, 'r, 'x) process"
  assumes "scheduled_eval P trace_id dataset ps = (Inr report, ps')"
  shows "\<exists>examples cases. dataset = Inr examples \<and> length cases = length examples \<and> report = report_from_cases cases"
proof -
  obtain examples f g and st :: "('q, 'o, 'r, 'x) process" and st' where data: "dataset = Inr examples"
      and run: "eval_run f g examples st = (Inr report, st')"
    using assms unfolding scheduled_eval_def Let_def by (elim and_then_InrE) auto
  then obtain cases where "length cases = length examples" "report = report_from_cases cases"
    unfolding eval_run_def by (elim and_then_InrE) (auto dest: eval_cases_length)
  with data show ?thesis by blast
qed

text \<open>
  what \<open>rag eval\<close> reports. It exits with 2, changing nothing, exactly when the golden set is missing;
  otherwise it prints the report of one case per example and exits with 1 exactly when a minimum is given
  and Recall@5 lies below it.
\<close>

theorem eval_exit_exact:
  assumes "cli_main D (Eval_Golden dataset source min_recall) si = (Inr out, si')"
  shows "case dk_lines D dataset of
       None \<Rightarrow> pr_exit out = 2 \<and> si' = si
     | Some lines \<Rightarrow> (\<exists>examples cases. load_golden (dk_example D) lines = Inr examples \<and> length cases = length examples
         \<and> pr_stdout out = [format_report (report_from_cases cases)]
         \<and> pr_exit out = (if below min_recall (er_recall_5 (report_from_cases cases)) then 1 else 0))"
proof (cases "dk_lines D dataset")
  case None
  with assms show ?thesis by (auto simp: command_eval_def dataset_missing_def)
next
  case (Some lines)
  obtain report si1 where "in_process (dk_vendor D) (dk_settings D) None (\<lambda>C. and_then (index_source_first D C source) (\<lambda>_.
        scheduled_eval (online_from_context (dk_vendor D) (dk_online D) C) (dk_trace_id D)
          (load_golden (dk_example D) lines))) si = (Inr report, si1)"
      and out: "out = gate_recall min_recall report"
    using assms Some by (auto simp: command_eval_def elim!: and_then_InrE)
  from in_process_Inr [OF this(1)] obtain C ps where
    "and_then (index_source_first D C source) (\<lambda>_. scheduled_eval (online_from_context (dk_vendor D) (dk_online D) C)
       (dk_trace_id D) (load_golden (dk_example D) lines)) (new_process C (si_registry si) (si_world si)) = (Inr report, ps)"
    by blast
  then obtain examples cases where "load_golden (dk_example D) lines = Inr examples" "length cases = length examples"
      "report = report_from_cases cases"
    by (elim and_then_InrE) (metis scheduled_eval_report)
  with Some out show ?thesis by (auto simp: gate_recall_def printed_ok_def)
qed

section \<open>Examples\<close>

text \<open>Retrieval of a fresh process with the in-memory backends finds nothing and does not raise.\<close>

lemma fresh_retrieve:
  fixes L :: "('q, 'o, 'r, 'x) vendor"
  assumes "from_settings L s started out = Inr C" "se_vector_backend s = VB_Memory" "se_lexical_backend s = LB_Memory"
    and "se_embedding_backend s = EB_Hash" "se_reranker s = RR_Identity" "0 \<le> se_top_k s" "0 \<le> se_rrf_k s"
  shows "\<exists>res. retrieve_only (online_from_context L base C) trace_id q p (online_view (new_process C registry w)) = Inr res"
proof -
  let ?P = "online_from_context L base C" and ?st = "online_view (new_process C registry w)"
  note cx = memory_context [OF assms(1-5)]
  have st: "ol_dense ?st = Memory_Vectors empty_vector_store" "ol_lexical ?st = BM25_Memory (bm_empty (3 / 2) (3 / 4))"
    using cx by (simp_all add: online_view_def new_process_def offline_start_def)
  have active: "active_index_version ?P ?st = Inr (se_index_version s)"
    using st(1) cx(1) by (simp add: active_index_version_def vs_resolve_alias_def empty_vector_store_def opt_or_def str_or_def)
  let ?qs = "query_variants q (config_of s)"
  let ?ds = "if rc_hyde_enabled (config_of s) then map (\<lambda>v. str_or (hyde_document v) v) ?qs else ?qs"
  have inv: "vectors_inv (\<lambda>_ _. {}) (Memory_Vectors empty_vector_store :: 'q vectors)"
      "lexicon_inv (\<lambda>_ _. {}) (BM25_Memory (bm_empty (3 / 2) (3 / 4)) :: 'o lexicon)"
    by (simp_all add: vs_inv_def empty_vector_store_def bm_empty_inv)
  have "0 \<le> hy_rrf_k (on_hybrid ?P)" using assms(7) cx(1) by simp
  moreover have "Some ?ds = None \<or> Some ?ds = Some [] \<or> (\<exists>xs. Some ?ds = Some xs \<and> length xs = length ?qs)" by simp
  ultimately obtain hits where hits: "retrieve_multi vectors_search lexicon_search (on_embed ?P) (on_hybrid ?P)
      (Memory_Vectors empty_vector_store :: 'q vectors) (BM25_Memory (bm_empty (3 / 2) (3 / 4)) :: 'o lexicon)
      ?qs p (se_top_k s) (Some (se_index_version s)) (Some ?ds) = Inr hits"
    using any_legs.retrieve_multi_hits [OF inv _ assms(6), of "on_hybrid ?P" "Some ?ds" ?qs "on_embed ?P" p "Some (se_index_version s)"]
    by blast
  have "rc_top_k (config_of s) = se_top_k s" by (simp add: config_of_def)
  with active hits st cx show ?thesis
    by (simp add: retrieve_only_def config_from_settings online_retrieve_def Let_def identity_rerank_def)
qed

definition example_job_vendor :: "(example_server, example_server, unit, nat scripted) vendor" where
  "example_job_vendor =
     \<lparr>vd_installed = (\<lambda>e. True), vd_qdrant = (\<lambda>url key. qd_client example_qdrant),
      vd_opensearch = (\<lambda>url. oi_client example_opensearch),
      vd_redis = (\<lambda>url. \<lparr>rd_get = (\<lambda>k r. (Inr None, r)), rd_setex = (\<lambda>k n v r. (Inr (), r)), rd_set = (\<lambda>k v r. (Inr (), r)), rd_delete = (\<lambda>k r. (Inr (), r)),
        rd_ping = (\<lambda>r. (Inr True, r))\<rparr>),
      vd_embeddings = (\<lambda>key model texts d w. (Inr [], w)), vd_completions = (\<lambda>key limit body w. (Inl TimeoutError, w)),
      vd_predict = map (\<lambda>x. 0), vd_late = (\<lambda>limit w w'. False), vd_rest = (\<lambda>i w. w), vd_exn_text = (\<lambda>e. ''error''),
      vd_reader = vd_reader example_vendor, vd_sha256 = (\<lambda>b. replicate 32 0), vd_uuid5 = (\<lambda>s. s)\<rparr>"

definition example_desk :: "(example_server, example_server, unit, nat) desk" where
  "example_desk =
     \<lparr>dk_settings = default_settings, dk_vendor = example_job_vendor, dk_online = widen example_base,
      dk_offline = example_jobs,
      dk_env = \<lparr>ae_deadline = (\<lambda>st. False), ae_dump = (\<lambda>r. []), ae_load = (\<lambda>t. Inl (ValueError ''none'')),
        ae_dump_answer = (\<lambda>a. []), ae_load_answer = (\<lambda>t. Inl (ValueError ''none'')), ae_reader = vd_reader example_vendor,
        ae_exn_text = (\<lambda>e. ''error''), ae_clock = (\<lambda>st. 0)\<rparr>,
      dk_lines = (\<lambda>path. Some [''  '']), dk_example = (\<lambda>line. Inl (ValueError line)), dk_entry = (\<lambda>e. Inl (KeyError ''version'')),
      dk_show_path = concat, dk_trace_id = ''t''\<rparr>"

definition example_site :: "(example_server, example_server, unit, nat scripted) site" where
  "example_site = \<lparr>si_registry = example_registry, si_outside = example_outside,
     si_world = (0, new_echo_chat [], new_echo_chat [])\<rparr>"

lemma example_desk_builds: "\<exists>C. from_settings example_job_vendor default_settings None example_outside = Inr C"
  by (simp add: from_settings_def build_embedder_def build_vector_store_def build_lexical_index_def build_reranker_def
      build_llm_def build_cache_def default_settings_def)

lemma example_golden_empty: "load_golden (dk_example example_desk) [''  ''] = Inr []"
  by (simp add: load_golden_def strip_def lstrip_def rstrip_def py_space_def code_def)

lemma example_gate_runs:
  "\<exists>out si'. cli_main example_desk (Eval_Agent [''golden''] None default_thresholds) example_site = (Inr out, si') \<and> pr_exit out = 1"
proof -
  obtain C where C: "from_settings example_job_vendor default_settings None example_outside = Inr C"
    using example_desk_builds by blast
  let ?P = "online_from_context example_job_vendor (widen example_base) C"
  have settings: "on_settings ?P = default_settings"
    using memory_context(1) [OF C] by (simp add: default_settings_def)
  obtain res where res: "retrieve_only ?P ''t'' ''overview'' (job_principal ''eval-agent'' default_settings)
      (online_view (new_process C example_registry (0, new_echo_chat [], new_echo_chat []))) = Inr res"
    using fresh_retrieve [OF C, of "widen example_base" "''t''" "''overview''" "job_principal ''eval-agent'' default_settings"
        example_registry "(0, new_echo_chat [], new_echo_chat [])"]
    by (auto simp: default_settings_def)
  obtain R where R: "eval_runtime (dk_env example_desk) ?P ''t'' = Inr R"
    by (simp add: eval_runtime_def new_registry_def register_def Let_def)
  have "\<exists>m ps. run_agent_eval (dk_env example_desk) ?P ''t'' (return (Inr ())) (Inr []) default_thresholds
      (new_process C example_registry (0, new_echo_chat [], new_echo_chat [])) = (Inr (Inl m), ps)"
    using res R settings
    by (simp add: run_agent_eval_def Let_def agent_eval_run_def gate_agent_def agent_report_from_cases_def mean_of_def
        default_thresholds_def below_def and_then_eq return_eq)
  then obtain m ps where "run_agent_eval (dk_env example_desk) ?P ''t'' (return (Inr ())) (Inr []) default_thresholds
      (new_process C example_registry (0, new_echo_chat [], new_echo_chat [])) = (Inr (Inl m), ps)" by blast
  with C show ?thesis
    unfolding cli_main.simps command_eval_agent_def
    by (simp add: example_golden_empty [unfolded example_desk_def, simplified] in_process_def index_source_first_def
        example_desk_def example_site_def and_then_eq return_eq)
qed


lemma eval_exit_exact_witness:
  "\<exists>out si'. cli_main example_desk (Eval_Golden [''golden''] None (Some (1 / 2))) example_site = (Inr out, si')
     \<and> pr_stdout out = [format_report (report_from_cases [])] \<and> pr_exit out = 1"
proof -
  obtain C where C: "from_settings example_job_vendor default_settings None example_outside = Inr C"
    using example_desk_builds by blast
  have "scheduled_eval P trace_id (Inr []) ps = (Inr (report_from_cases []), ps)"
    for P :: "(example_server vectors, example_server lexicon, unit cache_store, nat scripted) pipeline" and trace_id ps
    by (simp add: scheduled_eval_def eval_run_def Let_def and_then_eq return_eq)
  with C obtain out si' where run: "cli_main example_desk (Eval_Golden [''golden''] None (Some (1 / 2))) example_site = (Inr out, si')"
    unfolding cli_main.simps command_eval_def
    by (simp add: example_golden_empty [unfolded example_desk_def, simplified] in_process_def index_source_first_def
        example_desk_def example_site_def and_then_def return_def)
  have lines: "dk_lines example_desk [''golden''] = Some [''  '']" by (simp add: example_desk_def)
  have "below (Some (1 / 2)) (er_recall_5 (report_from_cases []))"
    by (simp add: below_def report_from_cases_def mean_of_def)
  with eval_exit_exact [OF run] lines example_golden_empty run show ?thesis by auto
qed

text \<open>
  Two traps of the command line: a list of groups without a name opens the documents to the whole tenant,
  and \<open>activate\<close> moves the alias of a memory store to a version that the registry does not know.
\<close>

lemma blank_groups_open_tenant:
  "cli_acl None (Some '','') s = Some acl \<Longrightarrow> is_allowed p acl \<longleftrightarrow> pr_tenant p = se_default_tenant s"
  by (auto simp: cli_acl_def given_def opt_or_def parse_groups_def is_allowed_def strip_def lstrip_def rstrip_def)

lemma unknown_version_activated:
  assumes "reg_activate version (os_registry st) = (Inl (KeyError m), r)" "os_vectors st = Memory_Vectors v"
  shows "\<exists>st' v'. offline_activate (offline_from_context L ob C) version st = (Inr (), st') \<and> os_vectors st' = Memory_Vectors v'
     \<and> vs_resolve_alias (se_collection_alias (cx_settings C)) v' = Some version"
  using assms
  by (simp add: offline_activate_def on_vectors_def on_registry_def registry_activate_def offline_from_context_def
      mem_set_alias_def vs_set_alias_def vs_resolve_alias_def and_then_eq update_conv')

end
