(* ===== verification/Observability.thy ===== *)
theory Observability
  imports Api Providers
begin

text \<open>
  \<open>src/rag/observability\<close>: the counters and histograms of a process (\<open>metrics.py\<close>), the trace of a
  request with its spans (\<open>tracing.py\<close>) and the records of the log (\<open>logging.py\<close>). The lock of the
  registry makes every call one step, so a history of calls is a list.
\<close>

section \<open>Counters and histograms\<close>

record metrics =
  mt_counters :: "(string \<times> real) list"
  mt_histograms :: "(string \<times> real list) list"

definition new_metrics :: metrics where
  "new_metrics = \<lparr>mt_counters = [], mt_histograms = []\<rparr>"

definition metric_key :: "string \<Rightarrow> (string \<times> string) list \<Rightarrow> string" where
  "metric_key name labels =
     (if labels = [] then name
      else name @ ''{'' @ py_join '','' (map (\<lambda>(k, v). k @ ''='' @ v) (sort_key fst labels)) @ ''}'')"

text \<open>The two dictionaries are \<open>defaultdict\<close>s.\<close>

definition counter :: "metrics \<Rightarrow> string \<Rightarrow> real" where
  "counter M key = (case map_of (mt_counters M) key of None \<Rightarrow> 0 | Some x \<Rightarrow> x)"

definition histogram :: "metrics \<Rightarrow> string \<Rightarrow> real list" where
  "histogram M key = (case map_of (mt_histograms M) key of None \<Rightarrow> [] | Some xs \<Rightarrow> xs)"

definition incr :: "string \<Rightarrow> real \<Rightarrow> (string \<times> string) list \<Rightarrow> metrics \<Rightarrow> metrics" where
  "incr name value labels M =
     (let key = metric_key name labels
      in M\<lparr>mt_counters := AList.update key (counter M key + value) (mt_counters M)\<rparr>)"

definition observe :: "string \<Rightarrow> real \<Rightarrow> (string \<times> string) list \<Rightarrow> metrics \<Rightarrow> metrics" where
  "observe name value labels M =
     (let key = metric_key name labels
      in M\<lparr>mt_histograms := AList.update key (histogram M key @ [value]) (mt_histograms M)\<rparr>)"

definition histogram_json :: "real list \<Rightarrow> json" where
  "histogram_json v =
     JDict [(''count'', JInt (int (length v))), (''sum'', JFloat (sum_list v)),
            (''avg'', JFloat (if v = [] then 0 else sum_list v / real (length v)))]"

definition snapshot :: "metrics \<Rightarrow> json_dict" where
  "snapshot M =
     [(''counters'', JDict (map (map_prod id JFloat) (mt_counters M))),
      (''histograms'', JDict (map (map_prod id histogram_json) (mt_histograms M)))]"

definition serve_metrics :: "('s, 't, 'c, 'w) app \<Rightarrow> metrics \<Rightarrow> response" where
  "serve_metrics A M = metrics_route A (JDict (snapshot M))"

section \<open>Traces and spans\<close>

record span_record =
  sp_name :: string
  sp_latency_ms :: real
  sp_attributes :: json_dict
  sp_error :: "string option"

text \<open>The two context variables beside the state \<open>w\<close> of the work that is traced.\<close>

record 'w traced =
  td_trace_id :: "string option"
  td_spans :: "span_record list option"
  td_world :: 'w

definition current_trace_id :: "string \<Rightarrow> 'w traced \<Rightarrow> string \<times> 'w traced" where
  "current_trace_id fresh st =
     (if opt_or (td_trace_id st) [] = [] then (fresh, st\<lparr>td_trace_id := Some fresh\<rparr>) else (the (td_trace_id st), st))"

definition set_trace_id :: "string \<Rightarrow> 'w traced \<Rightarrow> 'w traced" where
  "set_trace_id trace_id st = st\<lparr>td_trace_id := Some trace_id\<rparr>"

definition get_spans :: "'w traced \<Rightarrow> span_record list" where
  "get_spans st = (case td_spans st of None \<Rightarrow> [] | Some xs \<Rightarrow> xs)"

definition fresh_trace :: "string option \<Rightarrow> string \<Rightarrow> 'w traced \<Rightarrow> string \<times> 'w traced" where
  "fresh_trace given fresh st =
     (let trace_id = reset_trace given fresh in (trace_id, st\<lparr>td_trace_id := Some trace_id, td_spans := Some []\<rparr>))"

definition start_trace :: "string \<Rightarrow> 'w traced \<Rightarrow> string \<times> 'w traced" where
  "start_trace fresh st =
     (if opt_or (td_trace_id st) [] \<noteq> [] then (the (td_trace_id st), st) else fresh_trace None fresh st)"

text \<open>\<open>with span(...) as attrs\<close>: the body gives back the attributes as it left them.\<close>

definition span ::
    "(py_exn \<Rightarrow> string) \<Rightarrow> ('w \<Rightarrow> real) \<Rightarrow> string \<Rightarrow> json_dict \<Rightarrow> (json_dict \<Rightarrow> 'w traced \<Rightarrow> 'a result \<times> json_dict \<times> 'w traced)
     \<Rightarrow> ('w traced, 'a) call" where
  "span exn_text clock name attributes body st =
     (let (r, attrs, st') = body attributes st;
          ended = \<lparr>sp_name = name, sp_latency_ms = (clock (td_world st') - clock (td_world st)) * 1000,
            sp_attributes = attrs, sp_error = (case r of Inl e \<Rightarrow> Some (exn_text e) | Inr x \<Rightarrow> None)\<rparr>
      in (r, st'\<lparr>td_spans := Some (get_spans st' @ [ended])\<rparr>))"

section \<open>The log\<close>

record log_record =
  lr_ts :: string
  lr_level :: string
  lr_logger :: string
  lr_message :: string
  lr_exception :: "string option"

definition json_line :: "(real \<Rightarrow> string) \<Rightarrow> string \<Rightarrow> log_record \<Rightarrow> 'w traced \<Rightarrow> string \<times> 'w traced" where
  "json_line frepr fresh r st =
     (let (trace_id, st') = current_trace_id fresh st
      in (json_spaced frepr (JDict
            ([(''ts'', JStr (lr_ts r)), (''level'', JStr (lr_level r)), (''logger'', JStr (lr_logger r)),
              (''message'', JStr (lr_message r)), (''trace_id'', JStr trace_id)]
             @ (case lr_exception r of None \<Rightarrow> [] | Some e \<Rightarrow> [(''exception'', JStr e)]))), st'))"

datatype handler = Stdout_Handler bool | File_Handler string bool

record logger =
  lg_level :: string
  lg_handlers :: "handler list"
  lg_propagate :: bool

text \<open>The names that \<open>setLevel\<close> knows.\<close>

definition LEVELS :: "string set" where
  "LEVELS = {''CRITICAL'', ''FATAL'', ''ERROR'', ''WARN'', ''WARNING'', ''INFO'', ''DEBUG'', ''NOTSET''}"

definition upper_ascii :: "string \<Rightarrow> string" where
  "upper_ascii = map (\<lambda>c. if ascii_lower c then char_of (code c - 32) else c)"

definition configure_logging :: "string \<Rightarrow> string option \<Rightarrow> bool \<Rightarrow> (logger, unit) call" where
  "configure_logging level log_dir json_output g =
     (if upper_ascii level \<notin> LEVELS then (Inl (ValueError (''Unknown level: '' @ repr_str (upper_ascii level))), g)
      else (Inr (),
        (let g' = g\<lparr>lg_level := upper_ascii level\<rparr>
         in if lg_handlers g \<noteq> [] then g'
            else g'\<lparr>lg_handlers := Stdout_Handler json_output
                     # (case log_dir of None \<Rightarrow> [] | Some d \<Rightarrow> [File_Handler (d @ ''/app.log'') json_output]),
                   lg_propagate := False\<rparr>)))"

section \<open>What the numbers say\<close>

datatype metric_call = Incr string real "(string \<times> string) list" | Observe string real "(string \<times> string) list"

fun record_call :: "metric_call \<Rightarrow> metrics \<Rightarrow> metrics" where
  "record_call (Incr name v labels) = incr name v labels"
| "record_call (Observe name v labels) = observe name v labels"

fun increments :: "string \<Rightarrow> metric_call \<Rightarrow> real list" where
  "increments key (Incr name v labels) = (if metric_key name labels = key then [v] else [])"
| "increments key (Observe name v labels) = []"

fun observations :: "string \<Rightarrow> metric_call \<Rightarrow> real list" where
  "observations key (Incr name v labels) = []"
| "observations key (Observe name v labels) = (if metric_key name labels = key then [v] else [])"

lemma counter_incr:
  "counter (incr name v labels M) key = counter M key + (if metric_key name labels = key then v else 0)"
  by (simp add: counter_def incr_def Let_def update_conv')

lemma histogram_observe:
  "histogram (observe name v labels M) key = histogram M key @ (if metric_key name labels = key then [v] else [])"
  by (simp add: histogram_def observe_def Let_def update_conv')

lemma counter_observe [simp]: "counter (observe name v labels M) key = counter M key"
  by (simp add: counter_def observe_def Let_def)

lemma histogram_incr [simp]: "histogram (incr name v labels M) key = histogram M key"
  by (simp add: histogram_def incr_def Let_def)

lemma recorded:
  "counter (fold record_call calls M) key = counter M key + sum_list (concat (map (increments key) calls))
   \<and> histogram (fold record_call calls M) key = histogram M key @ concat (map (observations key) calls)"
proof (induction calls arbitrary: M)
  case (Cons c calls)
  then show ?case by (cases c) (simp_all add: counter_incr histogram_observe)
qed simp

lemma new_metrics_empty [simp]: "counter new_metrics key = 0" "histogram new_metrics key = []"
  by (simp_all add: counter_def histogram_def new_metrics_def)

text \<open>Names and labels as the code writes them; a label that holds a separator may make two series one.\<close>

definition clean_name :: "string \<Rightarrow> bool" where
  "clean_name name \<longleftrightarrow> CHR ''{'' \<notin> set name"

definition clean_labels :: "(string \<times> string) list \<Rightarrow> bool" where
  "clean_labels labels \<longleftrightarrow> (\<forall>(k, v) \<in> set labels. CHR '','' \<notin> set k \<and> CHR ''='' \<notin> set k \<and> CHR '','' \<notin> set v)"

lemma metric_key_exact:
  assumes "clean_name name" "clean_name name'" "clean_labels labels" "clean_labels labels'"
    and "distinct (map fst labels)" "distinct (map fst labels')"
  shows "metric_key name labels = metric_key name' labels' \<longleftrightarrow> name = name' \<and> set labels = set labels'"
proof
  let ?item = "\<lambda>(k, v). k @ ''='' @ v :: string"
  let ?join = "\<lambda>ls. py_join '','' (map ?item (sort_key fst ls))"
  have parts: "split_char (CHR '','') (?join ls) = map ?item (sort_key fst ls)" if "clean_labels ls" "ls \<noteq> []" for ls
  proof (rule split_char_py_join)
    have "length (sort_key fst ls) = length ls" by simp
    with that(2) show "map ?item (sort_key fst ls) \<noteq> []" by fastforce
  qed (use that(1) in \<open>auto simp: clean_labels_def\<close>)
  have items: "set ls = set ls'" if "clean_labels ls" "clean_labels ls'" "ls \<noteq> []" "ls' \<noteq> []" "?join ls = ?join ls'" for ls ls'
  proof -
    have "map ?item (sort_key fst ls) = map ?item (sort_key fst ls')"
      using arg_cong [OF that(5), of "split_char (CHR '','')"] unfolding parts [OF that(1,3)] parts [OF that(2,4)] .
    moreover have "inj_on ?item (set (sort_key fst ls) \<union> set (sort_key fst ls'))"
    proof (rule inj_onI)
      fix p q assume in_labels: "p \<in> set (sort_key fst ls) \<union> set (sort_key fst ls')" "q \<in> set (sort_key fst ls) \<union> set (sort_key fst ls')"
        and same: "?item p = ?item q"
      have "CHR ''='' \<notin> set (fst p)" "CHR ''='' \<notin> set (fst q)"
        using in_labels that(1,2) by (auto simp: clean_labels_def)
      with same append_sep_inject [of "CHR ''=''" "fst p" "fst q" "snd p" "snd q"] show "p = q"
        by (simp add: case_prod_beta prod_eq_iff)
    qed
    ultimately have "sort_key fst ls = sort_key fst ls'" by (metis map_inj_on)
    then show ?thesis by (metis set_sort)
  qed
  assume eq: "metric_key name labels = metric_key name' labels'"
  show "name = name' \<and> set labels = set labels'"
  proof (cases "labels = [] \<or> labels' = []")
    case True
    then show ?thesis using eq assms(1,2) by (auto simp: metric_key_def clean_name_def split: if_splits)
  next
    case False
    then have "name @ CHR ''{'' # (?join labels @ ''}'') = name' @ CHR ''{'' # (?join labels' @ ''}'')"
      using eq by (simp add: metric_key_def)
    then have "name = name'" "?join labels @ ''}'' = ?join labels' @ ''}''"
      using append_sep_inject [of "CHR ''{''" name name'] assms(1,2) unfolding clean_name_def by blast+
    with items [OF assms(3,4)] False show ?thesis by simp
  qed
next
  assume same: "name = name' \<and> set labels = set labels'"
  have "sort_key fst labels = sort_key fst labels'"
  proof (rule map_sorted_distinct_set_unique [of fst])
    show "inj_on fst (set (sort_key fst labels) \<union> set (sort_key fst labels'))"
      using same assms(5) by (simp add: distinct_map)
    show "sorted (map fst (sort_key fst labels))" "sorted (map fst (sort_key fst labels'))" by simp_all
    show "distinct (map fst (sort_key fst labels))" "distinct (map fst (sort_key fst labels'))"
      using assms(5,6) by (simp_all add: distinct_map distinct_sort)
    show "set (sort_key fst labels) = set (sort_key fst labels')" using same by simp
  qed
  moreover have "labels = [] \<longleftrightarrow> labels' = []" using same by auto
  ultimately show "metric_key name labels = metric_key name' labels'"
    using same by (simp add: metric_key_def)
qed

text \<open>
  The snapshot after any history of calls: the counter of a series is the sum of what was added to it,
  its histogram lists what was observed, in order, and two calls with clean names and labels belong to
  one series exactly when name and labels agree, in whatever order the labels were given.
\<close>

theorem metrics_account:
  assumes "clean_name name" "clean_labels labels" "distinct (map fst labels)"
    and "\<forall>c \<in> set calls. case c of Incr n v ls \<Rightarrow> clean_name n \<and> clean_labels ls \<and> distinct (map fst ls)
                                  | Observe n v ls \<Rightarrow> clean_name n \<and> clean_labels ls \<and> distinct (map fst ls)"
  shows "counter (fold record_call calls new_metrics) (metric_key name labels)
       = sum_list (concat (map (\<lambda>c. case c of Incr n v ls \<Rightarrow> if n = name \<and> set ls = set labels then [v] else [] | _ \<Rightarrow> []) calls))
     \<and> histogram (fold record_call calls new_metrics) (metric_key name labels)
       = concat (map (\<lambda>c. case c of Observe n v ls \<Rightarrow> if n = name \<and> set ls = set labels then [v] else [] | _ \<Rightarrow> []) calls)"
proof -
  have "increments (metric_key name labels) c = (case c of Incr n v ls \<Rightarrow> if n = name \<and> set ls = set labels then [v] else [] | _ \<Rightarrow> [])"
      "observations (metric_key name labels) c = (case c of Observe n v ls \<Rightarrow> if n = name \<and> set ls = set labels then [v] else [] | _ \<Rightarrow> [])"
    if "c \<in> set calls" for c
    using assms(4) that metric_key_exact [OF _ assms(1) _ assms(2) _ assms(3)] by (cases c; force)+
  then show ?thesis
    by (simp add: recorded cong: map_cong)
qed

text \<open>A tool name chosen by the model can carry labels of its own.\<close>

lemma label_injected:
  "metric_key ''agent_tool_calls'' [(''tool'', ''x''), (''ok'', ''false'')]
   = metric_key ''agent_tool_calls'' [(''ok'', ''false,tool=x'')]"
  by (simp add: metric_key_def)

section \<open>What a trace shows\<close>

text \<open>A span is recorded once, after the spans inside it, whether or not the work raised.\<close>

lemma span_recorded:
  assumes "body attributes st = (r, attrs, st1)" "get_spans st1 = get_spans st @ inner"
  shows "\<exists>ended st2. span exn_text clock name attributes body st = (r, st2) \<and> get_spans st2 = get_spans st @ inner @ [ended]
     \<and> sp_name ended = name \<and> sp_attributes ended = attrs \<and> (sp_error ended = None \<longleftrightarrow> (\<exists>x. r = Inr x))
     \<and> td_world st2 = td_world st1 \<and> td_trace_id st2 = td_trace_id st1"
  using assms by (cases r) (simp_all add: span_def Let_def get_spans_def)

lemma trace_joined:
  assumes "start_trace fresh st = (trace_id, st')" "fresh \<noteq> []"
  shows "current_trace_id other st' = (trace_id, st') \<and> start_trace other st' = (trace_id, st')
     \<and> (opt_or (td_trace_id st) [] \<noteq> [] \<longrightarrow> st' = st)"
  using assms
  by (auto simp: start_trace_def current_trace_id_def fresh_trace_def reset_trace_def opt_or_def str_or_def Let_def
      split: option.splits if_splits)

text \<open>Configuring again only changes the level: no line is ever written twice.\<close>

lemma configured_once:
  assumes "configure_logging level log_dir json_output g = (Inr (), g')"
  shows "lg_handlers g' \<noteq> [] \<and> (\<forall>l d j. \<exists>r g2. configure_logging l d j g' = (r, g2) \<and> lg_handlers g2 = lg_handlers g'
     \<and> lg_propagate g2 = lg_propagate g')"
  using assms by (auto simp: configure_logging_def Let_def split: if_splits)

end
