(* ===== verification/Entry.thy ===== *)
theory Entry
  imports Jobs Observability
begin

text \<open>
  A process from its command line on: \<open>main.py\<close>, the memoised settings and the files behind them
  (\<open>settings.py\<close>), the prompt files (\<open>prompts/registry.py\<close>), and the start of the service and its layers
  (\<open>api/app.py\<close>, \<open>api/deps.py\<close>, the defaults in \<open>pipelines/\<close>). \<open>uvicorn\<close> and \<open>argparse\<close> are parameters.
\<close>

section \<open>Files\<close>

text \<open>\<open>_load_yaml\<close>: what the parser makes of a file, if there is one.\<close>

type_synonym yaml_files = "string \<Rightarrow> json result option"

definition load_yaml :: "yaml_files \<Rightarrow> string \<Rightarrow> json_dict result" where
  "load_yaml Y path =
     (case Y path of
        None \<Rightarrow> Inr []
      | Some parsed \<Rightarrow>
          bind_result parsed (\<lambda>data.
            (case (if truthy data then data else JDict []) of
               JDict d \<Rightarrow> Inr d
             | _ \<Rightarrow> Inl (TypeError (''Expected mapping in '' @ path)))))"

definition chunking_config :: "yaml_files \<Rightarrow> settings \<Rightarrow> json_dict result" where
  "chunking_config Y s = load_yaml Y (se_configs_root s @ ''/chunking.yaml'')"

definition read_retrieval_config :: "yaml_files \<Rightarrow> settings \<Rightarrow> retrieval_config result" where
  "read_retrieval_config Y s = bind_result (load_yaml Y (se_configs_root s @ ''/retrieval.yaml'')) (retrieval_config s)"

text \<open>
  \<open>functools.lru_cache\<close> as the library documents it: a call that raises is not kept, the entry used least
  recently is the one that is dropped; 128 entries are kept.
\<close>

definition LRU_SIZE :: nat where
  "LRU_SIZE = 128"

definition lru_call :: "('k \<Rightarrow> 'a result) \<Rightarrow> 'k \<Rightarrow> (('k \<times> 'a) list, 'a) call" where
  "lru_call f k memo =
     (case map_of memo k of
        Some x \<Rightarrow> (Inr x, (k, x) # filter (\<lambda>e. fst e \<noteq> k) memo)
      | None \<Rightarrow>
          (case f k of
             Inl e \<Rightarrow> (Inl e, memo)
           | Inr x \<Rightarrow> (Inr x, take LRU_SIZE ((k, x) # memo))))"

text \<open>The directory of the templates: the names of its files with their text. Messages name files without the directory.\<close>

type_synonym prompt_dir = "(string \<times> string) list"

definition prompt_file :: "string \<Rightarrow> string \<Rightarrow> string" where
  "prompt_file name version = name @ ''.'' @ version @ ''.md''"

definition read_prompt :: "prompt_dir \<Rightarrow> string \<times> string \<Rightarrow> prompt_template result" where
  "read_prompt fs nv =
     (case nv of (name, version) \<Rightarrow>
        (case map_of fs (prompt_file name version) of
           None \<Rightarrow> Inl (OSError (''Prompt not found: '' @ name @ ''@'' @ version @ '' ('' @ prompt_file name version @ '')''))
         | Some body \<Rightarrow> Inr \<lparr>pt_name = name, pt_version = version, pt_body = body\<rparr>))"

definition get_prompt ::
    "prompt_dir \<Rightarrow> string \<Rightarrow> string \<Rightarrow> (((string \<times> string) \<times> prompt_template) list, prompt_template) call" where
  "get_prompt fs name version = lru_call (read_prompt fs) (name, version)"

definition ends_md :: "string \<Rightarrow> bool" where
  "ends_md file \<longleftrightarrow> 3 \<le> length file \<and> drop (length file - 3) file = ''.md''"

definition list_prompts :: "prompt_dir \<Rightarrow> (string \<times> string) list" where
  "list_prompts fs =
     List.map_filter (\<lambda>file. rsplit_once ''.'' (path_stem [file])) (sort (filter ends_md (map fst fs)))"

section \<open>The globals of a process\<close>

record globals =
  gl_settings :: "settings option"
  gl_logger :: logger

text \<open>\<open>Settings()\<close>: what the environment says, if the validators accept it.\<close>

definition new_settings :: "(string \<Rightarrow> string) \<Rightarrow> settings result \<Rightarrow> settings result" where
  "new_settings repr environment = bind_result environment (reject_unsafe repr)"

definition get_settings :: "settings result \<Rightarrow> (globals, settings) call" where
  "get_settings new g =
     (case gl_settings g of
        Some s \<Rightarrow> (Inr s, g)
      | None \<Rightarrow> (new, case new of Inl e \<Rightarrow> g | Inr s \<Rightarrow> g\<lparr>gl_settings := Some s\<rparr>))"

definition reset_settings_cache :: "globals \<Rightarrow> globals" where
  "reset_settings_cache g = g\<lparr>gl_settings := None\<rparr>"

definition or_settings :: "settings option \<Rightarrow> settings result \<Rightarrow> (globals, settings) call" where
  "or_settings given_settings new = (case given_settings of Some s \<Rightarrow> return (Inr s) | None \<Rightarrow> get_settings new)"

definition set_up_log :: "settings \<Rightarrow> (globals, unit) call" where
  "set_up_log s g =
     (let (r, lg) = configure_logging (se_log_level s) (se_log_dir s) (se_log_json s) (gl_logger g)
      in (r, g\<lparr>gl_logger := lg\<rparr>))"

section \<open>The pipelines of the settings\<close>

definition default_online_pipeline ::
    "('q, 'o, 'r, 'x) vendor \<Rightarrow> ('q vectors, 'o lexicon, 'r cache_store, 'x) pipeline \<Rightarrow> ('q, 'o, 'r) outside \<Rightarrow> 'x \<Rightarrow> settings
     \<Rightarrow> (('q vectors, 'o lexicon, 'r cache_store, 'x) pipeline
         \<times> ('q vectors, 'o lexicon, 'r cache_store, 'x) online_state) result" where
  "default_online_pipeline L base out w s =
     bind_result (from_settings L s None out) (\<lambda>C. Inr (online_from_context L base C, online_start C w))"

definition default_offline_pipeline ::
    "('q, 'o, 'r, 'x) vendor \<Rightarrow> ('q vectors, 'o lexicon) offline \<Rightarrow> ('q, 'o, 'r) outside \<Rightarrow> index_registry \<Rightarrow> settings
     \<Rightarrow> (('q vectors, 'o lexicon) offline \<times> ('q vectors, 'o lexicon) offline_state) result" where
  "default_offline_pipeline L base out registry s =
     bind_result (from_settings L s None out) (\<lambda>C. Inr (offline_from_context L base C, offline_start C registry))"

section \<open>The service\<close>

text \<open>A chat model acts on the world and on nothing else of the state.\<close>

definition lift_chat :: "'x chat_llm \<Rightarrow> ('s, 't, 'c, 'x) online_state chat_llm" where
  "lift_chat M =
     \<lparr>cm_model_name = cm_model_name M,
      cm_chat = (\<lambda>messages tools st.
        (let (r, w) = cm_chat M messages tools (ol_world st) in (r, st\<lparr>ol_world := w\<rparr>)))\<rparr>"

text \<open>The chat model of the agent; when there is none the stub stands in its place and is never called.\<close>

definition agent_chat :: "('q, 'o, 'r, 'x) vendor \<Rightarrow> settings \<Rightarrow> 'x resilient result" where
  "agent_chat L s =
     (if se_agent_enabled s then build_chat_llm L s
      else Inr \<lparr>rs_primary = Stub_Model, rs_fallbacks = [], rs_policy = settings_policy s\<rparr>)"

text \<open>
  What a service takes from its surroundings: the libraries, what the pipeline and the agent take from
  theirs, what \<open>Settings()\<close> gives, the printer of a YAML value and the parser of the token file, and the
  headers that \<open>CORSMiddleware\<close> adds to a response for the origins it was given.
\<close>

record ('q, 'o, 'r, 'x) host =
  ho_vendor :: "('q, 'o, 'r, 'x) vendor"
  ho_base :: "('q vectors, 'o lexicon, 'r cache_store, 'x) pipeline"
  ho_env :: "('q vectors, 'o lexicon, 'r cache_store, 'x) agent_env"
  ho_settings :: "settings result"
  ho_py_str :: "json \<Rightarrow> string"
  ho_tokens :: "string \<Rightarrow> json result"
  ho_cors :: "string list \<Rightarrow> (string \<times> string) list \<Rightarrow> (string \<times> string) list"

text \<open>\<open>build_state\<close> with nothing given: the pipeline, then the agent, then the authenticator.\<close>

definition default_state ::
    "('q, 'o, 'r, 'x) host \<Rightarrow> ('q, 'o, 'r) outside \<Rightarrow> 'x \<Rightarrow> settings
     \<Rightarrow> (('q vectors, 'o lexicon, 'r cache_store, 'x) app
         \<times> ('q vectors, 'o lexicon, 'r cache_store, 'x) online_state) result" where
  "default_state H out w s =
     bind_result (default_online_pipeline (ho_vendor H) (ho_base H) out w s) (\<lambda>(P, st).
     bind_result (agent_chat (ho_vendor H) s) (\<lambda>R.
     bind_result (build_state (ho_env H) P (build_authenticator (ho_py_str H) (ho_tokens H) s) None
         (lift_chat (resilient_chat_model (ho_vendor H) R))) (\<lambda>A.
     Inr (A, st))))"

text \<open>\<open>lifespan\<close>: the log first, then the state.\<close>

definition lifespan ::
    "('q, 'o, 'r, 'x) host \<Rightarrow> ('q, 'o, 'r) outside \<Rightarrow> 'x \<Rightarrow> settings
     \<Rightarrow> (globals, ('q vectors, 'o lexicon, 'r cache_store, 'x) app
         \<times> ('q vectors, 'o lexicon, 'r cache_store, 'x) online_state) call" where
  "lifespan H out w s = and_then (set_up_log s) (\<lambda>_. return (default_state H out w s))"

datatype layer = Timeout_Layer real | Trace_Layer | Cors_Layer "string list"

text \<open>\<open>add_middleware\<close> puts a layer outside those that are there.\<close>

definition app_layers :: "settings \<Rightarrow> layer list" where
  "app_layers s =
     (let added = [Timeout_Layer (se_request_timeout_seconds s), Trace_Layer]
                  @ (if se_cors_allow_origins s \<noteq> [] then [Cors_Layer (se_cors_allow_origins s)] else [])
      in rev added)"

definition create_app ::
    "('q, 'o, 'r, 'x) host \<Rightarrow> settings option \<Rightarrow> ('q, 'o, 'r) outside \<Rightarrow> 'x
     \<Rightarrow> (globals, layer list \<times> ('q vectors, 'o lexicon, 'r cache_store, 'x) app
         \<times> ('q vectors, 'o lexicon, 'r cache_store, 'x) online_state) call" where
  "create_app H given_settings out w =
     and_then (or_settings given_settings (ho_settings H)) (\<lambda>s.
     and_then (lifespan H out w s) (\<lambda>(A, st).
     return (Inr (app_layers s, A, st))))"

fun add_headers :: "((string \<times> string) list \<Rightarrow> (string \<times> string) list) \<Rightarrow> handled \<Rightarrow> handled" where
  "add_headers f (Reply resp) = Reply (resp\<lparr>rs_headers := f (rs_headers resp)\<rparr>)"
| "add_headers f (Escaped e) = Escaped e"

fun through ::
    "(string list \<Rightarrow> (string \<times> string) list \<Rightarrow> (string \<times> string) list) \<Rightarrow> string \<Rightarrow> bool \<Rightarrow> layer list \<Rightarrow> handled \<Rightarrow> handled" where
  "through cors trace_id expired [] h = h"
| "through cors trace_id expired (Timeout_Layer limit # ls) h =
     timeout_dispatch limit expired trace_id (through cors trace_id expired ls h)"
| "through cors trace_id expired (Trace_Layer # ls) h = trace_dispatch trace_id (through cors trace_id expired ls h)"
| "through cors trace_id expired (Cors_Layer origins # ls) h = add_headers (cors origins) (through cors trace_id expired ls h)"

text \<open>A request to \<open>/query\<close>: the headers of the client, a fresh trace id, whether the time ran out.\<close>

record request =
  rq_trace :: "string option"
  rq_fresh :: string
  rq_expired :: bool
  rq_credentials :: credentials
  rq_body :: query_request

definition serve_request ::
    "('q, 'o, 'r, 'x) host \<Rightarrow> layer list \<Rightarrow> ('s, 't, 'c, 'w) app \<Rightarrow> request \<Rightarrow> ('s, 't, 'c, 'w) online_state
     \<Rightarrow> response \<times> ('s, 't, 'c, 'w) online_state option" where
  "serve_request H layers A rq st =
     (let trace_id = reset_trace (rq_trace rq) (rq_fresh rq);
          (inner, st') = post_query A trace_id (rq_credentials rq) (rq_body rq) st
      in (respond trace_id (through (ho_cors H) trace_id (rq_expired rq) layers inner),
          if 0 < se_request_timeout_seconds (on_settings (ap_pipeline A)) \<and> rq_expired rq then None else Some st'))"

text \<open>Requests one after the other, until one is cut off.\<close>

fun serve_all ::
    "('q, 'o, 'r, 'x) host \<Rightarrow> layer list \<Rightarrow> ('s, 't, 'c, 'w) app \<Rightarrow> request list \<Rightarrow> ('s, 't, 'c, 'w) online_state
     \<Rightarrow> response list" where
  "serve_all H layers A [] st = []"
| "serve_all H layers A (rq # rqs) st =
     (case serve_request H layers A rq st of
        (resp, None) \<Rightarrow> [resp]
      | (resp, Some st') \<Rightarrow> resp # serve_all H layers A rqs st')"

section \<open>The command line\<close>

datatype ended = Exit nat | Quit string | Crash py_exn

definition flag_value :: "string list \<Rightarrow> string \<Rightarrow> string + string option" where
  "flag_value args flag =
     (case dropWhile (\<lambda>a. a \<noteq> flag) args of
        [] \<Rightarrow> Inr None
      | [f] \<Rightarrow> Inl (flag @ '' requires a value'')
      | f # v # rest \<Rightarrow> Inr (Some v))"

record server_config =
  sc_app :: string
  sc_host :: string
  sc_port :: int
  sc_reload :: bool
  sc_workers :: "int option"
  sc_log_level :: string
  sc_access_log :: bool

definition or_stop :: "ended + 'a \<Rightarrow> ('a \<Rightarrow> ended + 'b) \<Rightarrow> ended + 'b" where
  "or_stop x f = (case x of Inl e \<Rightarrow> Inl e | Inr a \<Rightarrow> f a)"

definition text_flag :: "string list \<Rightarrow> string \<Rightarrow> ended + string option" where
  "text_flag argv flag = map_sum Quit id (flag_value argv flag)"

definition int_flag :: "string list \<Rightarrow> string \<Rightarrow> int \<Rightarrow> ended + int" where
  "int_flag argv flag dflt =
     or_stop (text_flag argv flag) (\<lambda>v.
       (case v of None \<Rightarrow> Inr dflt | Some [] \<Rightarrow> Inr dflt | Some t \<Rightarrow> map_sum Crash id (int_of_str t)))"

definition serve_config :: "settings \<Rightarrow> string list \<Rightarrow> ended + server_config" where
  "serve_config s argv =
     or_stop (text_flag argv ''--host'') (\<lambda>host.
     or_stop (int_flag argv ''--port'' 8000) (\<lambda>port.
     or_stop (int_flag argv ''--workers'' 1) (\<lambda>workers.
     let reload = (''--reload'' \<in> set argv) in
     Inr \<lparr>sc_app = ''rag.api.app:app'', sc_host = opt_or host ''0.0.0.0'', sc_port = port, sc_reload = reload,
          sc_workers = (if reload then None else Some workers), sc_log_level = py_lower (se_log_level s),
          sc_access_log = False\<rparr>)))"

text \<open>What a command works on, and what it takes from its surroundings: \<open>uvicorn.run\<close>, \<open>parse_args\<close> and the usage text.\<close>

record ('q, 'o, 'r, 'x) machine =
  ma_globals :: globals
  ma_site :: "('q, 'o, 'r, 'x scripted) site"

record ('q, 'o, 'r, 'x) shell =
  sh_settings :: "settings result"
  sh_desk :: "('q, 'o, 'r, 'x) desk"
  sh_parse :: "string list \<Rightarrow> nat + command"
  sh_uvicorn :: "server_config \<Rightarrow> ('q, 'o, 'r, 'x) machine \<Rightarrow> ('q, 'o, 'r, 'x) machine"
  sh_usage :: string

definition on_globals :: "(globals, 'a) call \<Rightarrow> (('q, 'o, 'r, 'x) machine, 'a) call" where
  "on_globals m ma = (let (r, g) = m (ma_globals ma) in (r, ma\<lparr>ma_globals := g\<rparr>))"

definition on_site :: "(('q, 'o, 'r, 'x scripted) site, 'a) call \<Rightarrow> (('q, 'o, 'r, 'x) machine, 'a) call" where
  "on_site m ma = (let (r, si) = m (ma_site ma) in (r, ma\<lparr>ma_site := si\<rparr>))"

definition serve ::
    "('q, 'o, 'r, 'x) shell \<Rightarrow> string list \<Rightarrow> ('q, 'o, 'r, 'x) machine \<Rightarrow> ended \<times> ('q, 'o, 'r, 'x) machine" where
  "serve S argv ma =
     (case on_globals (get_settings (sh_settings S)) ma of
        (Inl e, ma') \<Rightarrow> (Crash e, ma')
      | (Inr s, ma') \<Rightarrow>
          (case serve_config s argv of
             Inl stop \<Rightarrow> (stop, ma')
           | Inr c \<Rightarrow> (Exit 0, sh_uvicorn S c ma')))"

text \<open>The jobs: \<open>argparse\<close> ends the process itself when it rejects the arguments or prints its help.\<close>

definition jobs_main ::
    "('q, 'o, 'r, 'x) shell \<Rightarrow> string list \<Rightarrow> ('q, 'o, 'r, 'x) machine
     \<Rightarrow> (ended \<times> string list \<times> string list) \<times> ('q, 'o, 'r, 'x) machine" where
  "jobs_main S args ma =
     (case sh_parse S args of
        Inl n \<Rightarrow> ((Exit n, [], []), ma)
      | Inr command \<Rightarrow>
          (case and_then (on_globals (get_settings (sh_settings S))) (\<lambda>s.
                and_then (on_globals (set_up_log s)) (\<lambda>_.
                on_site (cli_main ((sh_desk S)\<lparr>dk_settings := s\<rparr>) command))) ma of
             (Inl e, ma') \<Rightarrow> ((Crash e, [], []), ma')
           | (Inr out, ma') \<Rightarrow> ((Exit (pr_exit out), pr_stdout out, pr_stderr out), ma')))"

definition main ::
    "('q, 'o, 'r, 'x) shell \<Rightarrow> string list \<Rightarrow> ('q, 'o, 'r, 'x) machine
     \<Rightarrow> (ended \<times> string list \<times> string list) \<times> ('q, 'o, 'r, 'x) machine" where
  "main S args ma =
     (if args = [] \<or> hd args \<in> {''-h'', ''--help'', ''help''}
      then ((Exit (if args \<noteq> [] then 0 else 1), [sh_usage S], []), ma)
      else if hd args = ''serve'' then (let (e, ma') = serve S (tl args) ma in ((e, [], []), ma'))
      else jobs_main S args ma)"

section \<open>What the files say\<close>

text \<open>
  No knob of \<open>retrieval.yaml\<close> has an effect, but a file that holds no mapping makes every request fail.
\<close>

lemma broken_yaml_fails:
  "read_retrieval_config Y s =
     (case load_yaml Y (se_configs_root s @ ''/retrieval.yaml'') of Inl e \<Rightarrow> Inl e | Inr d \<Rightarrow> Inr (config_of s))"
  "Y (se_configs_root s @ ''/retrieval.yaml'') = Some (Inr (JList [j]))
   \<Longrightarrow> read_retrieval_config Y s = Inl (TypeError (''Expected mapping in '' @ se_configs_root s @ ''/retrieval.yaml''))"
  by (simp_all add: read_retrieval_config_def config_from_settings load_yaml_def split: sum.split)

text \<open>A memo holds results of the function it stands for.\<close>

definition memo_ok :: "('k \<Rightarrow> 'a result) \<Rightarrow> ('k \<times> 'a) list \<Rightarrow> bool" where
  "memo_ok f memo \<longleftrightarrow> (\<forall>(k, x) \<in> set memo. f k = Inr x) \<and> length memo \<le> LRU_SIZE"

lemma lru_call_ok:
  assumes "memo_ok f memo" "lru_call f k memo = (r, memo')"
  shows "r = f k \<and> memo_ok f memo'"
proof (cases "map_of memo k")
  case None
  with assms show ?thesis
    by (cases "f k") (auto simp: lru_call_def memo_ok_def dest!: in_set_takeD)
next
  case (Some x)
  then have x: "(k, x) \<in> set memo" by (rule map_of_SomeD)
  then have "length (filter (\<lambda>e. fst e \<noteq> k) memo) < length memo"
    by (intro length_filter_less [of "(k, x)"]) simp_all
  with assms Some x show ?thesis by (auto simp: lru_call_def memo_ok_def)
qed

lemma rsplit_once_dot: "rsplit_once ''.'' s = Some (a, b) \<longleftrightarrow> s = a @ ''.'' @ b \<and> CHR ''.'' \<notin> set b"
proof -
  have none: "rsplit_once ''.'' s = None \<longleftrightarrow> CHR ''.'' \<notin> set s" for s
    by (induction s) (auto simp: startswith_def split: option.splits)
  show ?thesis
  proof (induction s arbitrary: a)
    case (Cons c s)
    show ?case
    proof (cases "rsplit_once ''.'' s")
      case None
      with none [of s] show ?thesis by (cases a) (auto simp: startswith_def)
    next
      case (Some ab)
      obtain a' b' where ab: "ab = (a', b')" by (cases ab)
      have "CHR ''.'' \<in> set s" using none [of s] Some by simp
      with Some ab Cons.IH [of a'] Cons.IH [of "tl a"] show ?thesis by (cases a) auto
    qed
  qed simp
qed

lemma stem_md:
  assumes "x \<noteq> []"
  shows "path_stem [x @ ''.md''] = x"
  using assms by (simp add: path_stem_def path_name_def suffix_start_def Let_def)

text \<open>
  The registry of the prompts: what \<open>list_prompts\<close> lists is what \<open>get\<close> finds under a version without a dot.
  A file called \<open>.md\<close> is the exception: it is listed under an empty name and never found.
\<close>

lemma prompts_listed_found:
  assumes "''.md'' \<notin> fst ` set fs" "memo_ok (read_prompt fs) memo"
  shows "(n, v) \<in> set (list_prompts fs) \<longleftrightarrow> CHR ''.'' \<notin> set v \<and> (\<exists>t. fst (get_prompt fs n v memo) = Inr t)"
proof -
  have "(n, v) \<in> set (list_prompts fs)
      \<longleftrightarrow> (\<exists>nm. nm \<in> fst ` set fs \<and> ends_md nm \<and> rsplit_once ''.'' (path_stem [nm]) = Some (n, v))"
    unfolding list_prompts_def List.map_filter_def by force
  also have "\<dots> \<longleftrightarrow> CHR ''.'' \<notin> set v \<and> prompt_file n v \<in> fst ` set fs"
  proof
    assume "\<exists>nm. nm \<in> fst ` set fs \<and> ends_md nm \<and> rsplit_once ''.'' (path_stem [nm]) = Some (n, v)"
    then obtain nm where f: "nm \<in> fst ` set fs" "ends_md nm" "rsplit_once ''.'' (path_stem [nm]) = Some (n, v)"
      by blast
    define x where "x = take (length nm - 3) nm"
    have x: "nm = x @ ''.md''"
      using f(2) append_take_drop_id [of "length nm - 3" nm] unfolding ends_md_def x_def by simp
    moreover have "x \<noteq> []" using x f(1) assms(1) by (metis append_Nil)
    ultimately show "CHR ''.'' \<notin> set v \<and> prompt_file n v \<in> fst ` set fs"
      using f(1,3) by (auto simp: stem_md rsplit_once_dot prompt_file_def)
  next
    assume r: "CHR ''.'' \<notin> set v \<and> prompt_file n v \<in> fst ` set fs"
    have "prompt_file n v = (n @ ''.'' @ v) @ ''.md''" by (simp add: prompt_file_def)
    moreover have "path_stem [(n @ ''.'' @ v) @ ''.md''] = n @ ''.'' @ v" by (rule stem_md) simp
    moreover have "ends_md ((n @ ''.'' @ v) @ ''.md'')" by (simp add: ends_md_def)
    ultimately show "\<exists>nm. nm \<in> fst ` set fs \<and> ends_md nm \<and> rsplit_once ''.'' (path_stem [nm]) = Some (n, v)"
      using r by (intro exI [of _ "prompt_file n v"]) (simp add: rsplit_once_dot)
  qed
  also have "prompt_file n v \<in> fst ` set fs \<longleftrightarrow> (\<exists>t. fst (get_prompt fs n v memo) = Inr t)"
  proof -
    obtain r memo' where r: "lru_call (read_prompt fs) (n, v) memo = (r, memo')" by fastforce
    then have "r = read_prompt fs (n, v)" using lru_call_ok [OF assms(2)] by blast
    with r show ?thesis
      by (simp add: get_prompt_def read_prompt_def map_of_eq_None_iff split: option.split) (metis map_of_eq_None_iff option.distinct(1))
  qed
  finally show ?thesis .
qed

section \<open>What a started service says\<close>

text \<open>CORS only adds headers.\<close>

lemma through_layers:
  "through cors t expired (app_layers s) h =
     (if se_cors_allow_origins s \<noteq> [] then add_headers (cors (se_cors_allow_origins s)) else id)
       (trace_dispatch t (timeout_dispatch (se_request_timeout_seconds s) expired t h))"
  by (simp add: app_layers_def)

lemma serve_request_body:
  assumes "serve_request H (app_layers (on_settings (ap_pipeline A))) A rq st = (resp, left)"
  shows "\<exists>resp'. serve_query A (rq_trace rq) (rq_fresh rq) (rq_expired rq) (rq_credentials rq) (rq_body rq) st = (resp', left)
     \<and> rs_body resp' = rs_body resp \<and> rs_status resp' = rs_status resp"
proof -
  have same: "rs_body (respond t (add_headers f h)) = rs_body (respond t h)"
      "rs_status (respond t (add_headers f h)) = rs_status (respond t h)" for t f h
    by (cases h; simp)+
  show ?thesis
    using assms by (auto simp: serve_request_def serve_query_def through_layers Let_def same split: prod.splits if_splits)
qed

lemma lift_chat_world: "cm_chat (lift_chat M) ms ts st = (x, st') \<Longrightarrow> \<exists>w. st' = st\<lparr>ol_world := w\<rparr>"
  by (auto simp: lift_chat_def split: prod.splits)

lemma serving_state: "serving E P chat T F iv p r t st = serving E P chat T F iv p r t st'"
  by (simp add: serving_def scoped_params_def allowed_for_def wired_runtime_def retrieval_tool_def web_search_tool_def
      graph_query_tool_def)

lemma fresh_caches_ok:
  assumes "from_settings L s iv' out = Inr C" "st = online_start C w"
    and "se_cache_backend s = CB_Redis \<longrightarrow> redis_keeps (vd_redis L (se_redis_url s)) entries"
    and "\<forall>k v. \<not> entries (out_redis out) k v"
    and "active_index_version (online_from_context L base C) st = Inr iv"
  shows "caches_ok E (online_from_context L base C) (cache_stored entries) T F iv st"
proof -
  have st: "ol_cache st = cx_cache C" "ol_semantic st = cx_semantic C"
    using assms(2) by (simp_all add: online_start_def)
  note empty = fresh_cache [OF assms(1) st(1) assms(3,4)]
  from fresh_inv [OF assms(1) st assms(3,4)] empty assms(5) show ?thesis
    by (simp add: caches_ok_def tool_inv_def agent_inv_def)
qed

lemma created_app:
  fixes H :: "('q, 'o, 'r, 'x) host"
  assumes "create_app H given_settings out w g = (Inr (layers, A, st), g')"
  obtains C R where "from_settings (ho_vendor H) (on_settings (ap_pipeline A)) None out = Inr C"
    "ap_pipeline A = online_from_context (ho_vendor H) (ho_base H) C" "st = online_start C w"
    "agent_chat (ho_vendor H) (on_settings (ap_pipeline A)) = Inr R"
    "build_state (ho_env H) (ap_pipeline A) (Inr (ap_authenticator A)) None (lift_chat (resilient_chat_model (ho_vendor H) R)) = Inr A"
    "layers = app_layers (on_settings (ap_pipeline A))"
proof -
  obtain s C R where s: "from_settings (ho_vendor H) s None out = Inr C" "agent_chat (ho_vendor H) s = Inr R"
      "build_state (ho_env H) (online_from_context (ho_vendor H) (ho_base H) C)
         (build_authenticator (ho_py_str H) (ho_tokens H) s) None (lift_chat (resilient_chat_model (ho_vendor H) R)) = Inr A"
      "st = online_start C w" "layers = app_layers s"
    using assms by (auto simp: create_app_def lifespan_def and_then_eq default_state_def default_online_pipeline_def)
  note A = built_agent [OF s(3)]
  have "on_settings (ap_pipeline A) = s" using A built_cache [OF s(1)] by simp
  with s A show ?thesis by (intro that [of C R]) simp_all
qed

lemma served_one:
  assumes "resp \<in> set (serve_all H layers A rqs st)"
  shows "\<exists>rq \<in> set rqs. (rq, resp) \<in> set (zip rqs (serve_all H layers A rqs st))"
  using assms
  by (induction rqs arbitrary: st) (fastforce split: prod.splits option.splits)+

lemma serve_all_ok:
  assumes built: "build_state E (online_from_context L base C) (Inr auth) None chat = Inr A"
  shows "caches_ok E (online_from_context L base C) (cache_stored entries) T F iv st
    \<Longrightarrow> \<forall>rq \<in> set rqs. \<forall>p. authenticate auth (rq_credentials rq) = Inr p \<longrightarrow>
          serving E (online_from_context L base C) chat T F iv p (rq_body rq) (reset_trace (rq_trace rq) (rq_fresh rq)) st
    \<Longrightarrow> \<forall>(rq, resp) \<in> set (zip rqs (serve_all H (app_layers (on_settings (ap_pipeline A))) A rqs st)).
          \<forall>a. rs_body resp = Answered a \<longrightarrow>
            (\<exists>p. authenticate auth (rq_credentials rq) = Inr p \<and> visible_to p (served_citations a))"
proof (induction rqs arbitrary: st)
  case (Cons rq rqs)
  let ?P = "online_from_context L base C" and ?layers = "app_layers (on_settings (ap_pipeline A))"
  obtain resp left where one: "serve_request H ?layers A rq st = (resp, left)" by fastforce
  obtain resp' where q: "serve_query A (rq_trace rq) (rq_fresh rq) (rq_expired rq) (rq_credentials rq) (rq_body rq) st = (resp', left)"
      "rs_body resp' = rs_body resp"
    using serve_request_body [OF one] by blast
  have "serving E ?P chat T F iv p (rq_body rq) (reset_trace (rq_trace rq) (rq_fresh rq)) st"
    if "authenticate auth (rq_credentials rq) = Inr p" for p
    using Cons.prems(2) that by simp
  note ok = any_online.service_ok [OF built Cons.prems(1) this q(1)]
  show ?case
  proof (cases left)
    case None
    with one q(2) ok show ?thesis by simp
  next
    case (Some st')
    have kept: "caches_ok E ?P (cache_stored entries) T F iv st'" using ok Some by blast
    have "\<forall>rq \<in> set rqs. \<forall>p. authenticate auth (rq_credentials rq) = Inr p \<longrightarrow>
        serving E ?P chat T F iv p (rq_body rq) (reset_trace (rq_trace rq) (rq_fresh rq)) st'"
      using Cons.prems(2) serving_state [of E ?P chat T F iv _ _ _ st st'] by simp
    from Cons.IH [OF kept this] one q(2) ok Some show ?thesis by simp
  qed
qed simp

section \<open>Properties\<close>


text \<open>
  C23: an unsafe configuration starts nothing. When the environment asks for production with settings that
  the check rejects, no command line starts a server or a job: nothing outside the process changes, no
  settings are kept, \<open>serve\<close> ends with the error of the check, and so does every job that the parser
  accepts; help and rejected arguments end as they always do.
\<close>

theorem unsafe_never_starts:
  fixes S :: "('q, 'o, 'r, 'x) shell"
  assumes "sh_settings S = new_settings repr (Inr s)" "is_production s" "unsafe_problems s \<noteq> []"
    and "gl_settings (ma_globals ma) = None" and "main S args ma = ((how, shown), ma')"
  shows "ma' = ma \<and> (case how of
      Exit n \<Rightarrow> (args = [] \<and> n = 1) \<or> (hd args \<in> {''-h'', ''--help'', ''help''} \<and> n = 0) \<or> sh_parse S args = Inl n
    | Quit m \<Rightarrow> False
    | Crash e \<Rightarrow> Inl e = reject_unsafe repr s \<and> shown = ([], []))"
proof -
  obtain m where m: "reject_unsafe repr s = Inl (ValueError m)"
    using assms(2,3) by (simp add: reject_unsafe_def)
  have "on_globals (get_settings (sh_settings S)) ma = (Inl (ValueError m), ma)"
    using assms(1,4) m by (simp add: on_globals_def get_settings_def new_settings_def)
  with assms(5) m show ?thesis
    by (auto simp: main_def serve_def jobs_main_def and_then_def split: if_splits sum.splits)
qed

section \<open>Examples\<close>

lemma try_client_gives:
  assumes "\<forall>w r w'. attempt_call pol cl q w = (Inr r, w') \<longrightarrow> Q r"
    and "try_client ex rest pol cl q i e w = (Inr r, w')"
  shows "Q r"
  using assms
proof (induction ex rest pol cl q i e w arbitrary: r w' rule: try_client.induct)
  case (1 ex rest pol cl q i e w)
  have some: "\<not> rp_max_attempts pol < i" using 1(3) by (auto simp: try_client.simps)
  obtain x w1 where x: "attempt_call pol cl q w = (x, w1)" by fastforce
  show ?case
  proof (cases x)
    case (Inl e')
    with 1(3) some x have "try_client ex rest pol cl q (i + 1) (ex e') (if i < rp_max_attempts pol then rest i w1 else w1) = (Inr r, w')"
      by (subst (asm) try_client.simps) simp
    with 1(1) [OF some x [symmetric] Inl 1(2)] show ?thesis by blast
  next
    case (Inr y)
    with 1(3) some x have "y = r" by (subst (asm) try_client.simps) simp
    with Inr x 1(2) show ?thesis by blast
  qed
qed

text \<open>The stub asks for no tool.\<close>

lemma stub_asks_nothing:
  assumes "cm_chat (resilient_chat_model L \<lparr>rs_primary = Stub_Model, rs_fallbacks = [], rs_policy = pol\<rparr>) ms ts w = (x, w')"
    and "x = Some (Inr c)"
  shows "completion_tool_calls c = []"
proof -
  have step: "completion_tool_calls r = []" if "attempt_call pol (chat_client L Stub_Model) (ms, ts) w = (Inr r, w')" for w r w'
    using that by (auto simp: attempt_call_def chat_client_def timed_def Let_def echo_chat_step_def new_echo_chat_def
        completion_tool_calls_def assistant_message_def split: if_splits)
  have "\<exists>w1 w2. try_client (vd_exn_text L) (vd_rest L) pol (chat_client L Stub_Model) (ms, ts) 1 ''none'' w1 = (Inr c, w2)"
    using assms by (auto simp: resilient_chat_model_def resilient_chat_llm_def resilient_chat_def resilient_call_def
        split: prod.splits sum.splits)
  then show ?thesis using try_client_gives [of pol _ _ "\<lambda>r. completion_tool_calls r = []"] step by metis
qed

text \<open>A service without authentication over the stubs, with the hash that cannot collide.\<close>

definition open_settings :: settings where
  "open_settings = default_settings\<lparr>se_auth_required := False, se_cors_allow_origins := [''https://a.example'']\<rparr>"

definition example_host :: "(example_server, example_server, unit, nat) host" where
  "example_host =
     \<lparr>ho_vendor = example_vendor,
      ho_base = example_base\<lparr>on_sha := hex_text, on_frepr := example_float_text\<rparr>,
      ho_env = \<lparr>ae_deadline = (\<lambda>st. False), ae_dump = (\<lambda>r. []), ae_load = (\<lambda>v. Inl (ValueError ''invalid JSON'')),
        ae_dump_answer = (\<lambda>a. []), ae_load_answer = (\<lambda>v. Inl (ValueError ''invalid JSON'')),
        ae_reader = vd_reader example_vendor, ae_exn_text = (\<lambda>e. ''error''), ae_clock = (\<lambda>st. 0)\<rparr>,
      ho_settings = new_settings id (Inr open_settings), ho_py_str = (\<lambda>j. []), ho_tokens = (\<lambda>f. Inr JNull),
      ho_cors = (\<lambda>origins hs. (''Access-Control-Allow-Origin'', hd origins) # hs)\<rparr>"

definition example_globals :: globals where
  "example_globals = \<lparr>gl_settings = None, gl_logger = \<lparr>lg_level = ''WARNING'', lg_handlers = [], lg_propagate = True\<rparr>\<rparr>"

definition example_guest :: principal where
  "example_guest = \<lparr>pr_subject = ''anonymous'', pr_groups = {''public''}, pr_tenant = ''default''\<rparr>"

abbreviation stub_chat :: "settings \<Rightarrow> 'x resilient" where
  "stub_chat s \<equiv> \<lparr>rs_primary = Stub_Model, rs_fallbacks = [], rs_policy = settings_policy s\<rparr>"

lemma open_settings_simps:
  "reject_unsafe repr open_settings = Inr open_settings" "se_cache_backend open_settings = CB_Memory"
  "build_authenticator f g open_settings = Inr (Anonymous ''default'')"
  "agent_chat L open_settings = Inr (stub_chat open_settings)" "se_index_version open_settings = ''v1''"
  "config_of open_settings = config_of default_settings" "agent_budget open_settings = agent_budget default_settings"
  by (simp_all add: open_settings_def default_settings_def reject_unsafe_def is_production_def PRODUCTION_ENVS_def
      py_lower_def lower_char_def ascii_upper_def code_def build_authenticator_def agent_chat_def build_chat_llm_def
      config_of_def agent_budget_def)

lemma fresh_globals: "gl_settings example_globals = None"
  by (simp add: example_globals_def)

lemma example_created:
  "\<exists>layers A st g'. create_app example_host None example_outside 0 example_globals = (Inr (layers, A, st), g')
     \<and> on_settings (ap_pipeline A) = open_settings \<and> ap_authenticator A = Anonymous ''default''
     \<and> (\<exists>C. from_settings example_vendor open_settings None example_outside = Inr C
           \<and> ap_pipeline A = online_from_context example_vendor (ho_base example_host) C \<and> st = online_start C 0)"
proof -
  obtain C where C: "from_settings example_vendor open_settings None example_outside = Inr C"
    by (simp add: from_settings_def build_embedder_def build_vector_store_def build_lexical_index_def build_reranker_def
        build_llm_def build_cache_def open_settings_def default_settings_def)
  let ?P = "online_from_context example_vendor (ho_base example_host) C"
  have "\<exists>A. build_state (ho_env example_host) ?P (Inr (Anonymous ''default'')) None
      (lift_chat (resilient_chat_model example_vendor (stub_chat open_settings))) = Inr A"
    by (cases "se_agent_enabled (cx_settings C)")
      (simp_all add: build_state_def build_agent_runtime_def build_tool_registry_eq)
  then obtain A where A: "build_state (ho_env example_host) ?P (Inr (Anonymous ''default'')) None
      (lift_chat (resilient_chat_model example_vendor (stub_chat open_settings))) = Inr A"
    by blast
  have "fst (set_up_log open_settings g) = Inr ()" for g
    by (simp add: set_up_log_def configure_logging_def Let_def open_settings_def default_settings_def LEVELS_def upper_ascii_def
        ascii_lower_def code_def)
  then have log: "\<exists>g'. set_up_log open_settings g = (Inr (), g')" for g
    by (metis prod.collapse)
  obtain g' where g': "set_up_log open_settings (example_globals\<lparr>gl_settings := Some open_settings\<rparr>) = (Inr (), g')"
    using log by blast
  have host: "ho_vendor example_host = example_vendor" "ho_settings example_host = Inr open_settings"
    by (simp_all add: example_host_def new_settings_def open_settings_simps)
  have "\<exists>layers g'. create_app example_host None example_outside 0 example_globals = (Inr (layers, A, online_start C 0), g')"
    using C A
    by (simp add: create_app_def and_then_def or_settings_def get_settings_def lifespan_def return_def
        default_state_def default_online_pipeline_def host open_settings_simps g' fresh_globals)
  with C built_agent [OF A] built_cache [OF C] show ?thesis by fastforce
qed

lemma example_guest_serving:
  assumes "cx_settings C = open_settings"
  shows "serving (ho_env example_host) (online_from_context example_vendor (ho_base example_host) C)
    (lift_chat (resilient_chat_model example_vendor (stub_chat open_settings))) UNIV example_floats ''v1'' example_guest example_request t st"
proof -
  let ?P = "online_from_context example_vendor (ho_base example_host) C"
    and ?chat = "lift_chat (resilient_chat_model example_vendor (stub_chat open_settings))
      :: (example_server vectors, example_server lexicon, unit cache_store, nat) online_state chat_llm"
  have P: "on_sha (ho_base example_host) = hex_text" "on_frepr (ho_base example_host) = example_float_text"
      "cx_settings C = open_settings" "on_load (ho_base example_host) = on_load (in_memory example_pipeline)"
      "on_dump (ho_base example_host) = on_dump (in_memory example_pipeline)" "0 \<le> MAX_ENTRIES_PER_SCOPE"
    using assms by (simp_all add: example_host_def example_base_def in_memory_def MAX_ENTRIES_PER_SCOPE_def)
  have libs: "faithful_libs ?P UNIV example_floats"
    using example_site_libs by (simp add: faithful_libs_def P example_site_simps)
  have clean: "clean_principal example_guest"
    by (simp add: clean_principal_def example_guest_def)
  have "tool_libs (host_cache (ho_env example_host) ?P) UNIV example_floats"
    using libs by (simp add: tool_libs_def faithful_libs_def pipeline_tool_cache_def P) (simp add: example_host_def)
  moreover have "covered ?P UNIV example_floats example_guest ''v1'' example_params"
    by (simp add: covered_def clean scope_payload_def P cache_params_def config_of_def default_settings_def example_floats_def)
  moreover have "(\<exists>w. st' = st\<lparr>ol_world := w\<rparr>) \<and> (\<forall>c. x = Some (Inr c) \<longrightarrow> completion_tool_calls c = [])"
    if "cm_chat ?chat ms ts st = (x, st')" for ms ts st x st'
    using that lift_chat_world stub_asks_nothing by (auto simp: lift_chat_def split: prod.splits)
  ultimately have "hosting (ho_env example_host) ?P ?chat UNIV example_floats ''v1'' example_guest ''what is it''"
    using libs by (fastforce simp: hosting_def P open_settings_simps)
  moreover have "answer_libs (ho_env example_host) ?P"
    by (simp add: answer_libs_def P) (simp add: example_host_def in_memory_def example_pipeline_def)
  moreover have "covered_at ?P UNIV example_floats ''what is it'' example_guest ''v1'' ''v1''
      (scoped_params (config_of default_settings) Rt (budget_override example_request (agent_budget default_settings)) st)"
    for Rt :: "(example_server vectors, example_server lexicon, unit cache_store, nat) online_state agent_runtime" and st
    by (simp add: covered_at_def clean scope_payload_def scoped_params_def cache_params_def config_of_def
        default_settings_def example_floats_def agent_cache_params_def budget_json_def budget_override_def or_ceiling_def
        clamp_def agent_budget_def example_request_def)
  ultimately show ?thesis
    by (simp add: serving_def P open_settings_simps example_request_def)
qed


text \<open>A stub configuration that calls itself production.\<close>

definition stub_production :: settings where
  "stub_production = default_settings\<lparr>se_env := ''production''\<rparr>"

definition example_shell :: "(example_server, example_server, unit, nat) shell" where
  "example_shell =
     \<lparr>sh_settings = new_settings id (Inr stub_production), sh_desk = example_desk, sh_parse = (\<lambda>args. Inr Versions),
      sh_uvicorn = (\<lambda>c ma. ma\<lparr>ma_globals := reset_settings_cache (ma_globals ma)\<rparr>), sh_usage = ''usage''\<rparr>"

definition example_machine :: "(example_server, example_server, unit, nat) machine" where
  "example_machine = \<lparr>ma_globals = example_globals, ma_site = Jobs.example_site\<rparr>"

lemma unsafe_never_starts_witness:
  "let (out, ma') = main example_shell [''serve'', ''--port'', ''9000''] example_machine
   in ma' = example_machine \<and> (\<exists>e. out = (Crash e, [], []) \<and> Inl e = reject_unsafe id stub_production)"
proof -
  obtain how shown ma' where run: "main example_shell [''serve'', ''--port'', ''9000''] example_machine = ((how, shown), ma')"
    by (metis surj_pair)
  have "sh_settings example_shell = new_settings id (Inr stub_production)" "is_production stub_production"
      "unsafe_problems stub_production \<noteq> []" "gl_settings (ma_globals example_machine) = None"
    by (simp_all add: example_shell_def example_machine_def example_globals_def stub_production_def default_settings_def
        is_production_def unsafe_problems_def PRODUCTION_ENVS_def py_lower_def lower_char_def ascii_upper_def code_def)
  from unsafe_never_starts [OF this run] run show ?thesis
    by (cases how) (auto simp: example_shell_def)
qed

text \<open>A port is read as Python reads an integer; a flag takes the next argument, even if that is a flag.\<close>

lemma flag_takes_next:
  assumes "flag \<notin> set a"
  shows "flag_value (a @ [flag]) flag = Inl (flag @ '' requires a value'')"
    "flag_value (a @ flag # v # rest) flag = Inr (Some v)" "flag_value a flag = Inr None"
proof -
  have skip: "dropWhile (\<lambda>x. x \<noteq> flag) (a @ b) = dropWhile (\<lambda>x. x \<noteq> flag) b" for b
    by (rule dropWhile_append2) (use assms in blast)
  show "flag_value (a @ [flag]) flag = Inl (flag @ '' requires a value'')"
    "flag_value (a @ flag # v # rest) flag = Inr (Some v)"
    unfolding flag_value_def skip by simp_all
  show "flag_value a flag = Inr None"
    unfolding flag_value_def using skip [of "[]", unfolded append_Nil2] by (simp only: dropWhile.simps list.case)
qed

end
