(* ===== verification/Spec2Isabelle.thy ===== *)
theory Spec2Isabelle
  imports Acl TextUtil Caches Hybrid Query Config Llm Generate Online Runtime Chunking Offline Eval Deployment Remote Embedding Providers Slots Api
    Backends Lifecycle Jobs Observability Entry
begin

text \<open>
  Verification of the retrieval-augmented generation service under \<open>src/rag\<close>.

  \<^bold>\<open>The program.\<close> An offline process turns a directory of documents into an index version and publishes it
  under an alias. An online process answers questions from the published version: it rewrites the query,
  searches a vector store and a lexical index, fuses and reranks the hits, has a model write an answer with
  citations, and caches it. An agent may plan several rounds of retrieval within a budget before it answers.
  Every chunk carries access tags, every caller a tenant and groups. The one promise all parts share is that
  no answer shows its caller what the tags do not admit.

  \<^bold>\<open>The theories\<close>, with the code they model (paths below \<open>src/rag\<close>), in the order they build on each other:
  \<^item> \<open>Prelude\<close>, \<open>Calls\<close>, \<open>Regex\<close>, \<open>PyVal\<close>: results and exceptions of Python as sums, calls that raise and leave
    a state with their Hoare triples, the regular expressions the code uses as a backtracking matcher, truth
    and printing of JSON values.
  \<^item> \<open>Schemas\<close> (\<open>schemas/\<close>), \<open>Acl\<close> (\<open>security/acl.py\<close>), \<open>TextUtil\<close> (\<open>utils/text.py\<close>), \<open>Json\<close> (canonical
    \<open>json.dumps\<close>, \<open>utils/hashing.py\<close>), \<open>Config\<close> (\<open>settings.py\<close>, \<open>security/auth.py\<close>).
  \<^item> \<open>Caches\<close> (\<open>cache/\<close>), \<open>Stores\<close> (\<open>vectordb/memory.py\<close>), \<open>Bm25\<close> (\<open>lexical/bm25_memory.py\<close>), \<open>Hybrid\<close>
    (\<open>retrieval/\<close>, \<open>rerank/\<close>), \<open>Remote\<close> (\<open>vectordb/qdrant.py\<close>, \<open>lexical/opensearch.py\<close>), \<open>Embedding\<close>
    (\<open>embedding/\<close>).
  \<^item> \<open>Query\<close> (\<open>query/\<close>, \<open>security/pii.py\<close>), \<open>Llm\<close> (\<open>llm/\<close>: messages, cost, retries), \<open>Providers\<close> (\<open>llm/\<close>: the
    stubs and the OpenAI adapters), \<open>Generate\<close> (\<open>generation/\<close>, \<open>prompts/\<close>), \<open>Online\<close> (\<open>pipelines/online.py\<close>).
  \<^item> \<open>Evidence\<close>, \<open>Tools\<close>, \<open>Critic\<close>, \<open>Runtime\<close> (\<open>agent/\<close>), \<open>Deployment\<close> (the agent over the pipeline, as
    \<open>backends.py\<close> wires them).
  \<^item> \<open>Chunking\<close> (\<open>chunking/\<close>), \<open>Ingest\<close> (\<open>ingestion/\<close>, \<open>parsing/\<close>), \<open>Index_Registry\<close> (\<open>index_registry.py\<close>),
    \<open>Offline\<close> (\<open>pipelines/offline.py\<close>, \<open>jobs/reindex.py\<close>), \<open>Eval\<close> (\<open>eval/\<close>).
  \<^item> \<open>Api\<close> and \<open>Slots\<close> (\<open>api/\<close>), \<open>Backends\<close> (\<open>backends.py\<close>, \<open>exceptions.py\<close>, the constructors), \<open>Lifecycle\<close> (a
    job and then a query in one process), \<open>Jobs\<close> (\<open>jobs/\<close>), \<open>Observability\<close> (\<open>observability/\<close>), \<open>Entry\<close>
    (\<open>main.py\<close> at the root, \<open>api/app.py\<close>, the files behind \<open>settings.py\<close> and \<open>prompts/registry.py\<close>).

  \<^bold>\<open>How code becomes definitions.\<close> A class with state is a record and every method a function that returns the
  updated record; a method that raises returns \<open>Inl\<close> of the exception, and where what it has already written
  matters it is a \<open>call\<close>, which returns the state it leaves in either case. Dictionaries are association lists
  when their order is observable. Positions and counts that Python allows to be negative are \<^typ>\<open>int\<close>, bytes of
  a digest are words; scores, costs and times are \<^typ>\<open>real\<close>, so the rounding of floating point is not modelled.
  Text is read over the code points 0 to 255. A call that a deadline can cancel returns \<^typ>\<open>'a option\<close>.

  \<^bold>\<open>The interfaces\<close> are locales: \<open>kv_cache\<close> (what comes out of a cache was put in under that key), \<open>acl_search\<close>
  (a search returns visible indexed chunks, ranked), \<open>hybrid_legs\<close> (two of them side by side), \<open>reranker\<close>,
  \<open>online\<close> (a pipeline over any of these), \<open>tool_host\<close> (the tools over such a pipeline), \<open>agent_host\<close> (what a turn
  of the agent relies on), \<open>index_writer\<close> (the aliases of a store), \<open>chunking_strategy\<close>. They are interpreted on
  the in-memory classes, on the remote ones where they exist, and in \<open>Backends\<close> on the class that the settings
  choose; \<open>online\<close> gives \<open>tool_host\<close> and \<open>agent_host\<close>, so isolation is proved once for every backend.

  \<^bold>\<open>What is shown.\<close> The properties carry their numbers in the theories.
  \<^item> Isolation, in \<open>Online\<close> for the pipeline, \<open>Deployment\<close> for the deployed agent, \<open>Api\<close> for every path of the
    service, \<open>Backends\<close> for the pipelines of a process and \<open>Entry\<close> for a service from its start, with any backends.
    Under them: exact fingerprints and cache keys (\<open>Acl\<close>, \<open>Caches\<close>), what the stores return (\<open>Stores\<close>), the
    filters sent to remote servers (\<open>Remote\<close>) and the tools (\<open>Tools\<close>). \<open>Config\<close>, \<open>Backends\<close> and \<open>Entry\<close> show
    that no unsafe or stub configuration gets into production.
  \<^item> The agent: budgets, termination and the shape of its answers (\<open>Runtime\<close>), its critic, tools and evidence.
  \<^item> Indexing: build then swap and the stamps of every chunk (\<open>Offline\<close>), the chunkers, BM25 against the textbook
    formula, fusion (\<open>Hybrid\<close>), payloads of remote stores, vectors, what is indexed is found (\<open>Lifecycle\<close>), and that
    readers follow the alias whatever version a process was started with (\<open>Backends\<close>).
  \<^item> Serving: generation, responses and errors (\<open>Api\<close>), the cap on concurrent turns and its fairness (\<open>Slots\<close>),
    retries and malformed tool calls (\<open>Providers\<close>), the gate of the agent evaluation (\<open>Jobs\<close>).
  The other theorems and lemmas are the library under these, or show a defect that the manifest lists as a finding.

  \<^bold>\<open>Parameters and hypotheses.\<close> SHA-256, UUID5, the printing and parsing of floats, UTF-8 decoding, the clock, the
  PDF reader, the cross encoder, the client libraries of Qdrant, OpenSearch, Redis and OpenAI and the servers behind
  them are arguments. Where a property needs something of them it says so: a digest has 32 bytes, no two of the
  finitely many texts at hand collide under the hash, a server applies the filter it is sent and returns stored points,
  the embedding service returns vectors of the size asked for. Each such hypothesis is met by a concrete function in
  the witness of the property.

  \<^bold>\<open>Loops.\<close> Loops are total functions: over lists structurally, over positions in a text by a measure (the
  chunkers, the regular expressions), over the attempts that remain (retries) and the budget that remains (the
  agent). No fuel is used. The hash embedder draws digests until its vector is full; it is a partial function,
  shown to return when digests have 32 bytes.

  \<^bold>\<open>Not modelled.\<close> Threads inside one retrieval run one after the other, and so do the tool calls of one agent step,
  since each reads a state none of them changes but the cache. Requests of one process are served one at a time except
  for the semaphores of theory \<open>Slots\<close>. The parsing of environment variables, YAML, JSON and command-line arguments is
  left to the libraries that do it; FastAPI and Starlette enter as their documented order of calls. Counting and
  logging are modelled as operations of their own and left out of the components, which never read them. The
  \<open>__init__.py\<close> files only export names.
\<close>

end
